(* ===== verification/Oboard_Prelude.thy ===== *)
theory Oboard_Prelude
  imports
    Main
    "HOL-Library.AList"
    "HOL-Library.Multiset"
    "HOL-Library.Char_ord"
    "HOL-Library.List_Lexorder"
    "HOL-Library.Product_Lexorder"
begin

text \<open>
  The part of the Go language and of its standard library that the components share, and the
  generic lemmas on lists, association lists and sorted lists their proofs rest on.

  \<^item> A Go \<open>string\<close> is a list of bytes, here a \<^typ>\<open>string\<close>; comparison is bytewise, which is
    the lexicographic order of \<open>List_Lexorder\<close> over \<open>Char_ord\<close>.
  \<^item> A \<open>time.Time\<close> is the number of nanoseconds since Go's zero time, so that the zero value is
    \<open>0\<close> and \<open>IsZero\<close> is a comparison with it; a \<open>time.Duration\<close> is a number of nanoseconds.
    \<open>Time.Sub\<close> saturates at the limits of a 64-bit duration, which \<open>time_sub\<close> writes out.
    A pointer to a time is an \<open>option\<close>.
  \<^item> A Go map that the code only reads by key is a partial function. A map whose size matters or
    over which the code ranges is an association list with distinct keys (\<open>gomap_ok\<close>): the order
    of the list stands for the order in which the run time enumerates the map, which the language
    leaves open, so a statement about every such list is a statement about every order.
  \<^item> A function with an error result returns a sum, \<open>Inl\<close> for the error.
\<close>

section \<open>Names of the model's types\<close>

type_synonym 'a result = "string + 'a"
type_synonym time = int
type_synonym duration = int
type_synonym ('k, 'v) gomap = "('k \<times> 'v) list"

named_theorems go_defs \<open>definitions of the Go run-time operations\<close>
named_theorems inv_intros \<open>introduction rules that re-establish a component invariant\<close>

section \<open>Time\<close>

definition min_duration :: int where
  "min_duration = - (2 ^ 63)"

definition max_duration :: int where
  "max_duration = 2 ^ 63 - 1"

definition time_sub :: "time \<Rightarrow> time \<Rightarrow> duration" where
  "time_sub t u = max min_duration (min max_duration (t - u))"

definition nanosecond :: duration where [go_defs]: "nanosecond = 1"
definition millisecond :: duration where [go_defs]: "millisecond = 1000000"
definition second :: duration where [go_defs]: "second = 1000000000"
definition minute :: duration where [go_defs]: "minute = 60 * second"
definition hour :: duration where [go_defs]: "hour = 60 * minute"

definition IsZero :: "time \<Rightarrow> bool" where [go_defs]: "IsZero t \<longleftrightarrow> t = 0"

lemma time_sub_self [simp]: "time_sub t t = 0"
  by (simp add: time_sub_def min_duration_def max_duration_def)

text \<open>
  Saturation is invisible to a comparison with a duration the type can hold, which is the only
  way the components read the difference of two times.
\<close>

lemma time_sub_less [simp]:
  "min_duration < d \<Longrightarrow> d \<le> max_duration \<Longrightarrow> time_sub t u < d \<longleftrightarrow> t - u < d"
  by (auto simp: time_sub_def)

lemma time_sub_ge [simp]:
  "min_duration < d \<Longrightarrow> d \<le> max_duration \<Longrightarrow> d \<le> time_sub t u \<longleftrightarrow> d \<le> t - u"
  by (auto simp: time_sub_def min_duration_def max_duration_def)

section \<open>Strings\<close>

text \<open>
  \<open>strings.TrimSpace\<close> removes the characters \<open>unicode.IsSpace\<close> accepts, in their UTF-8
  encodings: the ASCII ones, U+0085, U+00A0, U+1680, U+2000 to U+200A, U+2028, U+2029, U+202F,
  U+205F and U+3000.
\<close>

definition space_encodings :: "string list" where
  "space_encodings =
     [[CHR 0x09], [CHR 0x0A], [CHR 0x0B], [CHR 0x0C], [CHR 0x0D], [CHR 0x20],
      [CHR 0xC2, CHR 0x85], [CHR 0xC2, CHR 0xA0], [CHR 0xE1, CHR 0x9A, CHR 0x80],
      [CHR 0xE2, CHR 0x80, CHR 0x80], [CHR 0xE2, CHR 0x80, CHR 0x81], [CHR 0xE2, CHR 0x80, CHR 0x82],
      [CHR 0xE2, CHR 0x80, CHR 0x83], [CHR 0xE2, CHR 0x80, CHR 0x84], [CHR 0xE2, CHR 0x80, CHR 0x85],
      [CHR 0xE2, CHR 0x80, CHR 0x86], [CHR 0xE2, CHR 0x80, CHR 0x87], [CHR 0xE2, CHR 0x80, CHR 0x88],
      [CHR 0xE2, CHR 0x80, CHR 0x89], [CHR 0xE2, CHR 0x80, CHR 0x8A], [CHR 0xE2, CHR 0x80, CHR 0xA8],
      [CHR 0xE2, CHR 0x80, CHR 0xA9], [CHR 0xE2, CHR 0x80, CHR 0xAF], [CHR 0xE2, CHR 0x81, CHR 0x9F],
      [CHR 0xE3, CHR 0x80, CHR 0x80]]"

fun strip_prefix :: "string \<Rightarrow> string \<Rightarrow> string option" where
  "strip_prefix [] s = Some s"
| "strip_prefix (c # p) [] = None"
| "strip_prefix (c # p) (d # s) = (if c = d then strip_prefix p s else None)"

fun strip_any :: "string list \<Rightarrow> string \<Rightarrow> string option" where
  "strip_any [] s = None"
| "strip_any (p # ps) s = (case strip_prefix p s of Some r \<Rightarrow> Some r | None \<Rightarrow> strip_any ps s)"

lemma strip_prefix_length: "strip_prefix p s = Some r \<Longrightarrow> length s = length p + length r"
  by (induction p s rule: strip_prefix.induct) (auto split: if_splits)

lemma strip_any_length:
  "strip_any ps s = Some r \<Longrightarrow> [] \<notin> set ps \<Longrightarrow> length r < length s"
  by (induction ps) (auto split: option.splits dest!: strip_prefix_length)

text \<open>Stripping at the left end, for encodings read left to right or, reversed, right to left.\<close>

function trim_left_with :: "string list \<Rightarrow> string \<Rightarrow> string" where
  "trim_left_with ps s =
     (case strip_any ps s of
        Some r \<Rightarrow> if length r < length s then trim_left_with ps r else s
      | None \<Rightarrow> s)"
  by pat_completeness auto
termination
  by (relation "measure (\<lambda>(ps, s). length s)") auto

declare trim_left_with.simps [simp del]

definition TrimSpace :: "string \<Rightarrow> string" where
  "TrimSpace s =
     rev (trim_left_with (map rev space_encodings) (rev (trim_left_with space_encodings s)))"

text \<open>\<open>strings.ToLower\<close> on ASCII letters; other bytes are left as they are.\<close>

definition lower_char :: "char \<Rightarrow> char" where
  "lower_char c =
     (if 65 \<le> (of_char c :: nat) \<and> (of_char c :: nat) \<le> 90 then char_of ((of_char c :: nat) + 32) else c)"

definition ToLower :: "string \<Rightarrow> string" where
  "ToLower s = map lower_char s"

text \<open>\<open>strconv.FormatInt(n, 10)\<close>.\<close>

definition digit_char :: "nat \<Rightarrow> char" where
  "digit_char d = char_of (48 + d)"

fun format_nat :: "nat \<Rightarrow> string" where
  "format_nat n = (if n < 10 then [digit_char n] else format_nat (n div 10) @ [digit_char (n mod 10)])"

declare format_nat.simps [simp del]

definition FormatInt :: "int \<Rightarrow> string" where
  "FormatInt n = (if n < 0 then CHR ''-'' # format_nat (nat (- n)) else format_nat (nat n))"

text \<open>\<open>strconv.ParseInt(s, 10, 64)\<close>: an optional sign, then digits; \<open>None\<close> for a syntax or range error.\<close>

definition digit_value :: "char \<Rightarrow> nat option" where
  "digit_value c =
     (if 48 \<le> (of_char c :: nat) \<and> (of_char c :: nat) \<le> 57 then Some ((of_char c :: nat) - 48) else None)"

fun parse_digits :: "nat \<Rightarrow> string \<Rightarrow> nat option" where
  "parse_digits acc [] = Some acc"
| "parse_digits acc (c # s) =
     (case digit_value c of Some d \<Rightarrow> parse_digits (10 * acc + d) s | None \<Rightarrow> None)"

definition ParseInt64 :: "string \<Rightarrow> int option" where
  "ParseInt64 s =
     (let (neg, ds) = (case s of
            c # r \<Rightarrow> if c = CHR ''-'' then (True, r) else if c = CHR ''+'' then (False, r) else (False, s)
          | [] \<Rightarrow> (False, s))
      in if ds = [] then None
         else (case parse_digits 0 ds of
             None \<Rightarrow> None
           | Some n \<Rightarrow>
               (let v = (if neg then - int n else int n)
                in if - (2 ^ 63) \<le> v \<and> v < 2 ^ 63 then Some v else None)))"

lemma trim_left_with_Nil [simp]: "[] \<notin> set ps \<Longrightarrow> trim_left_with ps [] = []"
  by (subst trim_left_with.simps) (auto split: option.splits dest: strip_any_length)

lemma TrimSpace_Nil [simp]: "TrimSpace [] = []"
  by (simp add: TrimSpace_def space_encodings_def)

lemma length_trim_left_with: "length (trim_left_with ps s) \<le> length s"
proof (induction ps s rule: trim_left_with.induct)
  case (1 ps s)
  then show ?case
    by (subst trim_left_with.simps) (force split: option.splits)
qed

lemma length_TrimSpace: "length (TrimSpace s) \<le> length s"
  unfolding TrimSpace_def
  by (metis length_rev length_trim_left_with order_trans)

text \<open>Trimming is idempotent and commutes with lowering, since no encoding of a space holds a letter.\<close>

lemma strip_prefix_append: "strip_prefix p s = Some r \<Longrightarrow> strip_prefix p (s @ t) = Some (r @ t)"
  by (induction p s rule: strip_prefix.induct) (auto split: if_splits)

lemma strip_any_append: "strip_any ps (s @ t) = None \<Longrightarrow> strip_any ps s = None"
proof (induction ps)
  case (Cons p ps)
  then show ?case by (cases "strip_prefix p s") (auto split: option.splits simp: strip_prefix_append)
qed simp

lemma strip_any_suffix: "strip_any ps s = Some r \<Longrightarrow> \<exists>u. s = u @ r"
proof (induction ps)
  case (Cons p ps)
  have "strip_prefix p s = Some r \<Longrightarrow> s = p @ r" for r by (induction p s rule: strip_prefix.induct) (auto split: if_splits)
  with Cons show ?case by (auto split: option.splits)
qed simp

lemma trim_left_none: "strip_any ps s = None \<Longrightarrow> trim_left_with ps s = s"
  by (subst trim_left_with.simps) simp

lemma trim_left_done: "[] \<notin> set ps \<Longrightarrow> strip_any ps (trim_left_with ps s) = None"
proof (induction ps s rule: trim_left_with.induct)
  case (1 ps s)
  then show ?case by (subst trim_left_with.simps) (auto split: option.splits dest: strip_any_length)
qed

lemma trim_left_suffix: "\<exists>u. s = u @ trim_left_with ps s"
proof (induction ps s rule: trim_left_with.induct)
  case (1 ps s)
  show ?case
  proof (cases "strip_any ps s")
    case (Some r)
    then obtain u where u: "s = u @ r" using strip_any_suffix by blast
    show ?thesis
    proof (cases "length r < length s")
      case True
      with 1 [OF Some True] obtain v where "r = v @ trim_left_with ps r" by blast
      then have "s = (u @ v) @ trim_left_with ps s" using u Some True by (subst trim_left_with.simps) simp
      then show ?thesis ..
    qed (subst trim_left_with.simps, simp add: Some)
  qed (simp add: trim_left_none)
qed

lemma space_encodings_nonempty: "[] \<notin> set space_encodings" "[] \<notin> set (map rev space_encodings)"
  by (simp_all add: space_encodings_def)

lemma TrimSpace_idem [simp]: "TrimSpace (TrimSpace s) = TrimSpace s"
proof -
  define t where "t = trim_left_with space_encodings s"
  define w where "w = trim_left_with (map rev space_encodings) (rev t)"
  have ts: "TrimSpace s = rev w" by (simp add: TrimSpace_def t_def w_def)
  obtain u where "rev t = u @ w" unfolding w_def using trim_left_suffix by blast
  then have "t = rev w @ rev u" by (simp add: rev_swap)
  moreover have "strip_any space_encodings t = None" unfolding t_def by (rule trim_left_done) (rule space_encodings_nonempty)
  ultimately have "strip_any space_encodings (rev w) = None" by (simp add: strip_any_append)
  then have "TrimSpace (rev w) = rev (trim_left_with (map rev space_encodings) w)" by (simp add: TrimSpace_def trim_left_none)
  also have "strip_any (map rev space_encodings) w = None" unfolding w_def by (rule trim_left_done) (rule space_encodings_nonempty)
  then have "rev (trim_left_with (map rev space_encodings) w) = rev w" by (simp add: trim_left_none)
  finally show ?thesis by (simp add: ts)
qed

definition caseless :: "char \<Rightarrow> bool" where
  "caseless c \<longleftrightarrow> \<not> (65 \<le> (of_char c :: nat) \<and> (of_char c :: nat) \<le> 90) \<and> \<not> (97 \<le> (of_char c :: nat) \<and> (of_char c :: nat) \<le> 122)"

lemma lower_char_upper: "65 \<le> (of_char c :: nat) \<Longrightarrow> (of_char c :: nat) \<le> 90 \<Longrightarrow> of_char (lower_char c) = (of_char c :: nat) + 32"
  by (simp add: lower_char_def of_char_of)

lemma lower_char_caseless: "caseless c \<Longrightarrow> lower_char d = c \<longleftrightarrow> d = c"
proof (cases "65 \<le> (of_char d :: nat) \<and> (of_char d :: nat) \<le> 90")
  case True
  then have "of_char (lower_char d) = (of_char d :: nat) + 32" by (simp add: lower_char_upper)
  with True show "caseless c \<Longrightarrow> ?thesis" by (auto simp: caseless_def)
qed (auto simp: lower_char_def)

lemma lower_char_idem [simp]: "lower_char (lower_char c) = lower_char c"
proof (cases "65 \<le> (of_char c :: nat) \<and> (of_char c :: nat) \<le> 90")
  case True
  then have "of_char (lower_char c) = (of_char c :: nat) + 32" by (simp add: lower_char_upper)
  with True show ?thesis by (subst lower_char_def) simp
qed (auto simp: lower_char_def)

lemma ToLower_idem [simp]: "ToLower (ToLower s) = ToLower s"
  by (simp add: ToLower_def)

lemma strip_prefix_lower: "list_all caseless p \<Longrightarrow> strip_prefix p (map lower_char s) = map_option (map lower_char) (strip_prefix p s)"
proof (induction p s rule: strip_prefix.induct)
  case (3 c p d s)
  then have "c = lower_char d \<longleftrightarrow> c = d" using lower_char_caseless [of c d] by auto
  with 3 show ?case by simp
qed simp_all

lemma strip_any_lower: "list_all (list_all caseless) ps \<Longrightarrow> strip_any ps (map lower_char s) = map_option (map lower_char) (strip_any ps s)"
  by (induction ps) (auto simp: strip_prefix_lower split: option.splits)

lemma trim_left_lower: "list_all (list_all caseless) ps \<Longrightarrow> trim_left_with ps (map lower_char s) = map lower_char (trim_left_with ps s)"
proof (induction ps s rule: trim_left_with.induct)
  case (1 ps s)
  then show ?case
    by (subst (1 2) trim_left_with.simps) (auto simp: strip_any_lower split: option.splits)
qed

lemma space_encodings_caseless: "list_all (list_all caseless) space_encodings" "list_all (list_all caseless) (map rev space_encodings)"
  by (simp_all add: space_encodings_def caseless_def)

lemma TrimSpace_ToLower: "TrimSpace (ToLower s) = ToLower (TrimSpace s)"
  by (simp add: TrimSpace_def ToLower_def trim_left_lower space_encodings_caseless rev_map)

lemma normal_name [simp]: "ToLower (TrimSpace (ToLower (TrimSpace s))) = ToLower (TrimSpace s)"
  by (simp add: TrimSpace_ToLower)

section \<open>Maps as association lists\<close>

abbreviation gomap_ok :: "('k, 'v) gomap \<Rightarrow> bool" where
  "gomap_ok m \<equiv> distinct (map fst m)"

abbreviation map_keys :: "('k, 'v) gomap \<Rightarrow> 'k list" where
  "map_keys m \<equiv> map fst m"

lemma gomap_ok_update [simp, intro]: "gomap_ok m \<Longrightarrow> gomap_ok (AList.update k v m)"
  by (rule AList.distinct_update)

lemma gomap_ok_delete [simp, intro]: "gomap_ok m \<Longrightarrow> gomap_ok (AList.delete k m)"
  by (rule AList.distinct_delete)

lemma gomap_ok_filter [simp, intro]: "gomap_ok m \<Longrightarrow> gomap_ok (filter P m)"
  by (induction m) auto

lemma length_update_alist:
  "length (AList.update k v m) = (if k \<in> fst ` set m then length m else Suc (length m))"
  by (induction m) auto

lemma fst_set_update: "fst ` set (AList.update k v m) = insert k (fst ` set m)"
  by (induction m) auto

lemma length_delete_alist: "length (AList.delete k m) \<le> length m"
  by (simp add: AList.delete_eq)

lemma set_delete_alist: "set (AList.delete k m) = {p \<in> set m. fst p \<noteq> k}"
  by (auto simp: AList.delete_eq)

lemma map_of_filter_key:
  "map_of (filter (\<lambda>(k, v). P k v) m) k = (case map_of m k of Some v \<Rightarrow> if P k v then Some v else None | None \<Rightarrow> None)"
  if "gomap_ok m"
  using that
proof (induction m)
  case Nil
  then show ?case by simp
next
  case (Cons p m)
  obtain k' v' where p: "p = (k', v')" by (cases p)
  with Cons.prems have fresh: "k' \<notin> fst ` set m" by auto
  then have "map_of m k' = None" by (simp add: map_of_eq_None_iff)
  with Cons p show ?case by (auto split: option.splits)
qed

lemma map_of_map_key: "map_of (map (\<lambda>(k, v). (k, f k v)) m) k = map_option (f k) (map_of m k)"
  by (induction m) auto

lemma map_of_None_notin: "map_of m k = None \<longleftrightarrow> k \<notin> fst ` set m"
  by (rule map_of_eq_None_iff)

lemma map_of_mem: "map_of m k = Some v \<Longrightarrow> (k, v) \<in> set m"
  by (rule map_of_SomeD)

section \<open>Sorted lists\<close>

lemma set_remdups_adj_sort [simp]: "set (remdups_adj (sort xs)) = set xs"
  by simp

lemma distinct_map_sort_key: "distinct (map f (sort_key k xs)) \<longleftrightarrow> distinct (map f xs)"
  by (simp only: distinct_map distinct_sort set_sort)

lemma remdups_adj_sorted_distinct: "sorted xs \<Longrightarrow> distinct (remdups_adj xs)"
  for xs :: "'a::linorder list"
  by (induction xs rule: remdups_adj.induct) (auto simp: order_antisym_conv)

lemma sorted_remdups_adj_eq: "sorted xs \<Longrightarrow> sorted (remdups_adj xs)"
  by (rule sorted_remdups_adj)

text \<open>Sorting and compacting gives the sorted list of the elements, whatever the order of the input.\<close>

lemma remdups_adj_sort_eq: "remdups_adj (sort xs) = sorted_list_of_set (set xs)"
  for xs :: "'a::linorder list"
  by (rule sorted_distinct_set_unique)
    (simp_all add: sorted_remdups_adj remdups_adj_sorted_distinct)

section \<open>Building maps in loops\<close>

text \<open>\<open>m[k] = append(m[k], x)\<close> on a map of slices, and the map such a loop builds.\<close>

definition append_at :: "('k, 'v list) gomap \<Rightarrow> 'k \<Rightarrow> 'v \<Rightarrow> ('k, 'v list) gomap" where
  "append_at m k x = AList.update k ((case map_of m k of Some l \<Rightarrow> l | None \<Rightarrow> []) @ [x]) m"

definition group_append :: "('a \<Rightarrow> 'k) \<Rightarrow> 'a list \<Rightarrow> 'k \<Rightarrow> 'a list" where
  "group_append f xs = fold (\<lambda>x m. m(f x := m (f x) @ [x])) xs (\<lambda>_. [])"

text \<open>\<open>m[f(x)] = x\<close> for every element: the last element with a key wins.\<close>

definition index_by :: "('a \<Rightarrow> 'k) \<Rightarrow> 'a list \<Rightarrow> 'k \<rightharpoonup> 'a" where
  "index_by f xs = fold (\<lambda>x m. m(f x \<mapsto> x)) xs Map.empty"

definition lookup_list :: "('k, 'v list) gomap \<Rightarrow> 'k \<Rightarrow> 'v list" where
  "lookup_list m k = (case map_of m k of Some l \<Rightarrow> l | None \<Rightarrow> [])"

lemma group_append_filter: "group_append f xs k = filter (\<lambda>x. f x = k) xs"
proof -
  have "fold (\<lambda>x m. m(f x := m (f x) @ [x])) xs m k = m k @ filter (\<lambda>x. f x = k) xs" for m
    by (induction xs arbitrary: m) auto
  then show ?thesis by (simp add: group_append_def)
qed

lemma index_by_snoc: "index_by f (xs @ [x]) = (index_by f xs)(f x \<mapsto> x)"
  by (simp add: index_by_def)

lemma index_by_Some: "index_by f xs k = Some x \<Longrightarrow> x \<in> set xs \<and> f x = k"
  by (induction xs rule: rev_induct) (auto simp: index_by_snoc split: if_splits, simp add: index_by_def)

lemma index_by_None: "index_by f xs k = None \<longleftrightarrow> k \<notin> f ` set xs"
  by (induction xs rule: rev_induct) (auto simp: index_by_def)

lemma gomap_ok_append_at [simp, intro]: "gomap_ok m \<Longrightarrow> gomap_ok (append_at m k x)"
  by (simp add: append_at_def)

lemma lookup_append_at:
  "lookup_list (append_at m k x) k' = lookup_list m k' @ (if k = k' then [x] else [])"
  by (simp add: append_at_def lookup_list_def AList.update_conv' split: option.splits)

lemma append_at_None: "map_of (append_at m k x) k' = None \<longleftrightarrow> map_of m k' = None \<and> k \<noteq> k'"
  by (simp add: append_at_def AList.update_conv')

text \<open>A loop of such appends, as the list of pairs it appends.\<close>

definition append_all :: "('k \<times> 'v) list \<Rightarrow> ('k, 'v list) gomap \<Rightarrow> ('k, 'v list) gomap" where
  "append_all ps m = fold (\<lambda>(k, x) m. append_at m k x) ps m"

lemma append_all_Nil [simp]: "append_all [] m = m"
  and append_all_Cons [simp]: "append_all ((k, x) # ps) m = append_all ps (append_at m k x)"
  and append_all_append: "append_all (ps @ qs) m = append_all qs (append_all ps m)"
  by (simp_all add: append_all_def)

lemma gomap_ok_append_all: "gomap_ok m \<Longrightarrow> gomap_ok (append_all ps m)"
  by (induction ps arbitrary: m) (simp, clarsimp)

lemma lookup_append_all:
  "lookup_list (append_all ps m) k = lookup_list m k @ map snd (filter (\<lambda>p. fst p = k) ps)"
  by (induction ps arbitrary: m) (simp, clarsimp simp: lookup_append_at)

lemma append_all_None:
  "map_of (append_all ps m) k = None \<longleftrightarrow> map_of m k = None \<and> k \<notin> fst ` set ps"
proof (induction ps arbitrary: m)
  case (Cons p ps)
  obtain q x where p: "p = (q, x)" by (cases p)
  show ?case unfolding p append_all_Cons Cons.IH append_at_None by auto
qed simp

lemma append_all_lookup:
  "map_of (append_all ps []) k =
     (if k \<in> fst ` set ps then Some (map snd (filter (\<lambda>p. fst p = k) ps)) else None)"
proof (cases "k \<in> fst ` set ps")
  case True
  then obtain l where l: "map_of (append_all ps []) k = Some l"
    using append_all_None [of ps "[]" k] by auto
  with lookup_append_all [of ps "[]" k] show ?thesis using True by (simp add: lookup_list_def)
next
  case False
  then show ?thesis using append_all_None [of ps "[]" k] by auto
qed

section \<open>Decimal numerals\<close>

lemma digit_value_char [simp]: "d < 10 \<Longrightarrow> digit_value (digit_char d) = Some d"
  by (simp add: digit_value_def digit_char_def)

lemma parse_digits_append:
  "parse_digits a (s @ t) = Option.bind (parse_digits a s) (\<lambda>b. parse_digits b t)"
  by (induction a s rule: parse_digits.induct) (auto split: option.splits)

lemma parse_format_nat: "parse_digits 0 (format_nat n) = Some n"
proof (induction n rule: format_nat.induct)
  case (1 n)
  then show ?case
    by (subst format_nat.simps) (auto simp: parse_digits_append)
qed

lemma format_nat_digits: "c \<in> set (format_nat n) \<Longrightarrow> \<exists>d<10. c = digit_char d"
proof (induction n rule: format_nat.induct)
  case (1 n)
  show ?case
  proof (cases "n < 10")
    case True
    with 1(2) show ?thesis by (subst (asm) format_nat.simps) auto
  next
    case False
    with 1(2) have "c \<in> set (format_nat (n div 10)) \<or> c = digit_char (n mod 10)"
      by (subst (asm) format_nat.simps) auto
    then show ?thesis
    proof
      assume "c = digit_char (n mod 10)"
      then show ?thesis by (intro exI [of _ "n mod 10"]) simp
    qed (use 1(1) False in simp)
  qed
qed

lemma format_nat_not_Nil [simp]: "format_nat n \<noteq> []"
  by (subst format_nat.simps) simp

lemma of_char_digit: "d < 10 \<Longrightarrow> of_char (digit_char d) = 48 + d"
  by (simp add: digit_char_def)

lemma format_nat_range: "c \<in> set (format_nat n) \<Longrightarrow> 48 \<le> (of_char c :: nat) \<and> (of_char c :: nat) \<le> 57"
  by (auto dest!: format_nat_digits simp: of_char_digit)

lemma format_nat_plain: "CHR ''-'' \<notin> set (format_nat n)" "CHR ''+'' \<notin> set (format_nat n)" "CHR '':'' \<notin> set (format_nat n)"
  by (auto dest!: format_nat_range)

lemma FormatInt_colon: "CHR '':'' \<notin> set (FormatInt n)"
  by (simp add: FormatInt_def format_nat_plain)

lemma ParseInt64_FormatInt: "- (2 ^ 63) \<le> n \<Longrightarrow> n < 2 ^ 63 \<Longrightarrow> ParseInt64 (FormatInt n) = Some n"
proof -
  assume n: "- (2 ^ 63) \<le> n" "n < 2 ^ 63"
  show ?thesis
  proof (cases "n < 0")
    case True
    with n show ?thesis by (simp add: ParseInt64_def FormatInt_def parse_format_nat)
  next
    case False
    obtain c r where cr: "format_nat (nat n) = c # r" by (cases "format_nat (nat n)") auto
    then have "c \<noteq> CHR ''-''" "c \<noteq> CHR ''+''" using format_nat_plain [of "nat n"] by auto
    with False n cr parse_format_nat [of "nat n"] show ?thesis
      by (simp add: ParseInt64_def FormatInt_def)
  qed
qed

lemma format_nat_inj:
  assumes "format_nat a = format_nat b"
  shows "a = b"
proof -
  have "Some a = parse_digits 0 (format_nat a)" by (rule parse_format_nat [symmetric])
  also have "\<dots> = parse_digits 0 (format_nat b)" by (rule arg_cong [OF assms])
  also have "\<dots> = Some b" by (rule parse_format_nat)
  finally show ?thesis by (rule option.inject [THEN iffD1])
qed

lemma format_nat_sign: "format_nat a \<noteq> CHR ''-'' # s"
proof
  assume "format_nat a = CHR ''-'' # s"
  then have "CHR ''-'' \<in> set (format_nat a)" by simp
  with format_nat_plain(1) [of a] show False by simp
qed

lemma FormatInt_inj:
  assumes "FormatInt m = FormatInt n"
  shows "m = n"
proof (cases "m < 0"; cases "n < 0")
  assume "m < 0" "n < 0"
  with assms have "nat (- m) = nat (- n)" by (intro format_nat_inj) (simp add: FormatInt_def)
  with \<open>m < 0\<close> \<open>n < 0\<close> show ?thesis by simp
next
  assume "\<not> m < 0" "\<not> n < 0"
  with assms have "nat m = nat n" by (intro format_nat_inj) (simp add: FormatInt_def)
  with \<open>\<not> m < 0\<close> \<open>\<not> n < 0\<close> show ?thesis by simp
next
  assume "m < 0" "\<not> n < 0"
  with assms have "format_nat (nat n) = CHR ''-'' # format_nat (nat (- m))" by (simp add: FormatInt_def)
  then show ?thesis by (simp add: format_nat_sign)
next
  assume "\<not> m < 0" "n < 0"
  with assms have "format_nat (nat m) = CHR ''-'' # format_nat (nat (- n))" by (simp add: FormatInt_def)
  then show ?thesis by (simp add: format_nat_sign)
qed

section \<open>Database rows\<close>

text \<open>
  A table is an association list from its primary key. \<open>sql_update\<close> is an \<open>update\<close> with a condition,
  \<open>sql_affected\<close> the number of rows it changes. Timestamps are stored as RFC 3339 text with a fraction
  whose trailing zeros are removed, and SQL compares that text: \<open>sql_time_less\<close> compares the second and,
  within one second, the text of the fraction.
\<close>

definition sql_update :: "('k \<Rightarrow> 'r \<Rightarrow> bool) \<Rightarrow> ('r \<Rightarrow> 'r) \<Rightarrow> ('k, 'r) gomap \<Rightarrow> ('k, 'r) gomap" where
  "sql_update P f rows = map (\<lambda>(k, r). (k, if P k r then f r else r)) rows"

definition sql_affected :: "('k \<Rightarrow> 'r \<Rightarrow> bool) \<Rightarrow> ('k, 'r) gomap \<Rightarrow> nat" where
  "sql_affected P rows = length (filter (\<lambda>(k, r). P k r) rows)"

definition fraction_digits :: "time \<Rightarrow> string" where
  "fraction_digits t =
     (let n = nat (t mod second); ds = format_nat n
      in replicate (9 - length ds) (CHR ''0'') @ ds)"

definition fraction_text :: "time \<Rightarrow> string" where
  "fraction_text t =
     (let ds = rev (dropWhile (\<lambda>c. c = CHR ''0'') (rev (fraction_digits t)))
      in (if ds = [] then [] else CHR ''.'' # ds) @ ''Z'')"

definition sql_time_less :: "time \<Rightarrow> time \<Rightarrow> bool" where
  "sql_time_less a b \<longleftrightarrow>
     a div second < b div second \<or> a div second = b div second \<and> fraction_text a < fraction_text b"

lemma sql_time_less_seconds: "sql_time_less a b \<Longrightarrow> a div second \<le> b div second"
  by (auto simp: sql_time_less_def)

lemma not_sql_time_less_seconds: "\<not> sql_time_less a b \<Longrightarrow> b div second \<le> a div second"
  by (auto simp: sql_time_less_def)

lemma sql_update_lookup: "map_of (sql_update P f rows) k = map_option (\<lambda>r. if P k r then f r else r) (map_of rows k)"
  by (simp add: sql_update_def map_of_map_key)

lemma sql_update_keys [simp]: "map fst (sql_update P f rows) = map fst rows"
  by (simp add: sql_update_def comp_def case_prod_beta)

text \<open>\<open>instr(s, t) > 0\<close>.\<close>

definition Contains :: "string \<Rightarrow> string \<Rightarrow> bool" where
  "Contains s t \<longleftrightarrow> list_ex (\<lambda>i. take (length t) (drop i s) = t) [0 ..< Suc (length s)]"

section \<open>Copying a map\<close>

lemma fold_update_append:
  "gomap_ok (m0 @ m) \<Longrightarrow> fold (\<lambda>(k, v). AList.update k v) m m0 = m0 @ m"
proof (induction m arbitrary: m0)
  case (Cons p m)
  obtain k v where p: "p = (k, v)" by (cases p)
  have "k \<notin> fst ` set m0" using Cons.prems p by auto
  then have "AList.update k v m0 = m0 @ [(k, v)]" by (induction m0) auto
  with Cons.IH [of "m0 @ [(k, v)]"] Cons.prems p show ?case by simp
qed simp

lemma fold_update_copy: "gomap_ok m \<Longrightarrow> fold (\<lambda>(k, v). AList.update k v) m [] = m"
  using fold_update_append [of "[]" m] by simp

section \<open>Transition systems\<close>

text \<open>
  The stateful components are step relations. An invariant that the start satisfies and every step
  keeps holds in every state the steps reach.
\<close>

locale inv_system =
  fixes start :: "'s \<Rightarrow> bool" and step :: "'s \<Rightarrow> 's \<Rightarrow> bool" and inv :: "'s \<Rightarrow> bool"
  assumes start_inv: "start s \<Longrightarrow> inv s"
    and step_inv: "step s s' \<Longrightarrow> inv s \<Longrightarrow> inv s'"
begin

lemma steps_inv: "step\<^sup>*\<^sup>* s s' \<Longrightarrow> inv s \<Longrightarrow> inv s'"
  by (induction rule: rtranclp_induct) (auto intro: step_inv)

lemma reached_inv: "start s \<Longrightarrow> step\<^sup>*\<^sup>* s s' \<Longrightarrow> inv s'"
  by (blast intro: steps_inv start_inv)

end

end
