(* ===== verification/Rbac.thy ===== *)
theory Rbac
  imports Oboard_Prelude
begin

text \<open>
  The package \<open>internal/authorization\<close>: the role-based permission registry (\<open>rbac.go\<close>) and the
  approval decision of a grant (\<open>approval.go\<close>). The registry is the map from a permission name to
  its specification; \<open>Register\<close> and \<open>RegisterAll\<close> update it under a lock, so each is one step.
  The two locales are the interfaces the MCP evaluator programs against, \<open>RBACChecker\<close> and
  \<open>ApprovalResolver\<close>; both are interpreted here on the definitions of this package.
\<close>

section \<open>Roles and permissions\<close>

type_synonym Role = string

abbreviation RoleAdmin :: Role where "RoleAdmin \<equiv> ''admin''"
abbreviation RoleOperator :: Role where "RoleOperator \<equiv> ''operator''"
abbreviation RoleViewer :: Role where "RoleViewer \<equiv> ''viewer''"
abbreviation RoleNone :: Role where "RoleNone \<equiv> ''none''"

definition HasManagementAccess :: "Role \<Rightarrow> bool" where
  "HasManagementAccess role \<longleftrightarrow> role = RoleAdmin \<or> role = RoleOperator"

definition CanManageAdministratorAccounts :: "Role \<Rightarrow> bool" where
  "CanManageAdministratorAccounts role \<longleftrightarrow> role = RoleAdmin"

record PermissionSpec =
  ps_ReadOnly :: bool
  ps_ManagementOnly :: bool
  ps_AdminOnly :: bool

type_synonym RBAC = "string \<rightharpoonup> PermissionSpec"

definition NewRBAC :: RBAC where
  "NewRBAC = Map.empty"

definition Register :: "RBAC \<Rightarrow> string \<Rightarrow> PermissionSpec \<Rightarrow> RBAC" where
  "Register r name spec = r(name \<mapsto> spec)"

text \<open>The loop of \<open>RegisterAll\<close> over the given map, in the order of its enumeration.\<close>

fun RegisterAll :: "RBAC \<Rightarrow> (string, PermissionSpec) gomap \<Rightarrow> RBAC" where
  "RegisterAll r [] = r"
| "RegisterAll r ((name, spec) # specs) = RegisterAll (r(name \<mapsto> spec)) specs"

definition Allows :: "RBAC \<Rightarrow> Role \<Rightarrow> string \<Rightarrow> bool" where
  "Allows r role permission =
     (case r permission of
        None \<Rightarrow> False
      | Some spec \<Rightarrow>
          (if role = RoleAdmin then True
           else if role = RoleOperator then \<not> ps_AdminOnly spec
           else if role = RoleViewer then
             ps_ReadOnly spec \<and> \<not> ps_ManagementOnly spec \<and> \<not> ps_AdminOnly spec
           else False))"

definition RoleRank :: "Role \<Rightarrow> int" where
  "RoleRank role =
     (if role = RoleNone then 0
      else if role = RoleViewer then 1
      else if role = RoleOperator then 2
      else if role = RoleAdmin then 3
      else 0)"

section \<open>Approval of a capability call\<close>

type_synonym ApprovalMode = string

abbreviation ApprovalDenied :: ApprovalMode where "ApprovalDenied \<equiv> ''denied''"
abbreviation ApprovalRequired :: ApprovalMode where "ApprovalRequired \<equiv> ''required''"
abbreviation ApprovalAutomatic :: ApprovalMode where "ApprovalAutomatic \<equiv> ''automatic''"

definition GrantApprovalResolver_Resolve :: "int \<Rightarrow> int \<Rightarrow> bool \<Rightarrow> ApprovalMode" where
  "GrantApprovalResolver_Resolve maxAutoApproveRisk riskClass approvalRequired =
     (if \<not> approvalRequired then ApprovalAutomatic
      else if riskClass \<ge> 4 then ApprovalRequired
      else if maxAutoApproveRisk \<ge> riskClass then ApprovalAutomatic
      else ApprovalRequired)"

section \<open>The interfaces\<close>

locale rbac_checker =
  fixes may :: "Role \<Rightarrow> string \<Rightarrow> bool"
  assumes viewer_operator: "may RoleViewer p \<Longrightarrow> may RoleOperator p"
    and operator_admin: "may RoleOperator p \<Longrightarrow> may RoleAdmin p"
    and unknown_role: "role \<notin> {RoleAdmin, RoleOperator, RoleViewer} \<Longrightarrow> \<not> may role p"
begin

lemma known_role: "may role p \<Longrightarrow> role = RoleAdmin \<or> role = RoleOperator \<or> role = RoleViewer"
  using unknown_role [of role p] by auto

lemma admin_most: "may role p \<Longrightarrow> may RoleAdmin p"
  using known_role [of role p] by (auto intro: operator_admin viewer_operator)

text \<open>A role that ranks at least as high is allowed at least as much.\<close>

lemma rank_mono:
  assumes "may role p" and "RoleRank role \<le> RoleRank role'"
  shows "may role' p"
proof -
  consider "role = RoleAdmin" | "role = RoleOperator" | "role = RoleViewer"
    using known_role [OF assms(1)] by auto
  then show ?thesis
  proof cases
    case 1
    with assms(2) have "role' = RoleAdmin" by (simp add: RoleRank_def split: if_splits)
    with 1 assms(1) show ?thesis by simp
  next
    case 2
    with assms(2) have "role' = RoleAdmin \<or> role' = RoleOperator"
      by (simp add: RoleRank_def split: if_splits)
    with 2 assms(1) show ?thesis by (auto intro: operator_admin)
  next
    case 3
    with assms(2) have "role' = RoleAdmin \<or> role' = RoleOperator \<or> role' = RoleViewer"
      by (simp add: RoleRank_def split: if_splits)
    with 3 assms(1) show ?thesis by (auto intro: operator_admin viewer_operator)
  qed
qed

end

locale approval_resolver =
  fixes resolve :: "int \<Rightarrow> int \<Rightarrow> bool \<Rightarrow> ApprovalMode"
  assumes resolve_free: "resolve m risk False = ApprovalAutomatic"
    and resolve_high: "4 \<le> risk \<Longrightarrow> resolve m risk True = ApprovalRequired"
    and resolve_within: "resolve m risk True = ApprovalAutomatic \<Longrightarrow> risk \<le> m"
    and resolve_range: "resolve m risk req \<in> {ApprovalAutomatic, ApprovalRequired}"
begin

lemma resolve_automaticD:
  assumes "resolve m risk True = ApprovalAutomatic"
  shows "risk \<le> m" and "risk < 4"
proof -
  show "risk \<le> m" using assms by (rule resolve_within)
  show "risk < 4"
  proof (rule ccontr)
    assume "\<not> risk < 4"
    then have "resolve m risk True = ApprovalRequired" by (simp add: resolve_high)
    with assms show False by simp
  qed
qed

end

lemma RegisterAll_lookup:
  "gomap_ok specs \<Longrightarrow> RegisterAll r specs p = (case map_of specs p of Some s \<Rightarrow> Some s | None \<Rightarrow> r p)"
proof (induction specs arbitrary: r)
  case Nil
  then show ?case by simp
next
  case (Cons e specs)
  then show ?case
    by (cases e) (auto split: option.splits simp: map_of_None_notin image_iff dest: map_of_mem)
qed

lemma Allows_viewer_operator: "Allows r RoleViewer p \<Longrightarrow> Allows r RoleOperator p"
  by (simp add: Allows_def split: option.splits)

lemma Allows_operator_admin: "Allows r RoleOperator p \<Longrightarrow> Allows r RoleAdmin p"
  by (simp add: Allows_def split: option.splits)

lemma Allows_unknown_role:
  "role \<notin> {RoleAdmin, RoleOperator, RoleViewer} \<Longrightarrow> \<not> Allows r role p"
  by (simp add: Allows_def split: option.splits)

interpretation rb: rbac_checker "Allows r" for r
  by unfold_locales
    (rule Allows_viewer_operator Allows_operator_admin Allows_unknown_role, assumption)+

interpretation ga: approval_resolver GrantApprovalResolver_Resolve
  by unfold_locales (auto simp: GrantApprovalResolver_Resolve_def split: if_splits)

end
