(* ===== verification/Mcp_Auth.thy ===== *)
theory Mcp_Auth
  imports Rbac
begin

text \<open>
  The package \<open>internal/mcpauth\<close>: access levels and scopes (\<open>access_level.go\<close>), the resource
  boundary of a grant (\<open>boundary.go\<close>), grants and decisions (\<open>types.go\<close>, \<open>decision.go\<close>), the
  evaluator every MCP call passes (\<open>evaluator.go\<close>) and the wire errors (\<open>errors.go\<close>).

  The boundary's \<open>Resources\<close> map is an association list. The evaluator reads the clock twice, so
  \<open>Authorize\<close> takes the two readings as arguments; the permission registry, the approval resolver
  and the capability's reference resolver are arguments as they are fields of the Go values.
  \<open>LegacyResourceFilterJSON\<close> and \<open>ParseBoundary\<close>, which print and parse JSON, are not modelled.
\<close>

section \<open>Access levels and scopes\<close>

type_synonym AccessLevel = string

abbreviation AccessRead :: AccessLevel where "AccessRead \<equiv> ''read''"
abbreviation AccessOperate :: AccessLevel where "AccessOperate \<equiv> ''operate''"
abbreviation ScopeRead :: string where "ScopeRead \<equiv> ''oboard:read''"
abbreviation ScopeOperate :: string where "ScopeOperate \<equiv> ''oboard:operate''"
abbreviation ScopeOffline :: string where "ScopeOffline \<equiv> ''offline_access''"

definition ParseAccessLevel :: "string \<Rightarrow> AccessLevel" where
  "ParseAccessLevel raw = (if raw = AccessRead \<or> raw = AccessOperate then raw else [])"

definition AccessLevel_Allows :: "AccessLevel \<Rightarrow> AccessLevel \<Rightarrow> bool" where
  "AccessLevel_Allows a minimum =
     (if a = AccessOperate then True else a = AccessRead \<and> minimum = AccessRead)"

definition RequiredScope :: "AccessLevel \<Rightarrow> string" where
  "RequiredScope a = (if a = AccessOperate then ScopeOperate else ScopeRead)"

definition NormalizedScopes :: "AccessLevel \<Rightarrow> bool \<Rightarrow> string list" where
  "NormalizedScopes a offline =
     [ScopeRead] @ (if a = AccessOperate then [ScopeOperate] else []) @
     (if offline then [ScopeOffline] else [])"

definition RequestsOperate :: "string list \<Rightarrow> bool" where
  "RequestsOperate scopes \<longleftrightarrow> ScopeOperate \<in> set scopes"

definition RequestsOffline :: "string list \<Rightarrow> bool" where
  "RequestsOffline scopes \<longleftrightarrow> ScopeOffline \<in> set scopes"

definition KnownScope :: "string \<Rightarrow> bool" where
  "KnownScope scope \<longleftrightarrow> scope = ScopeRead \<or> scope = ScopeOperate \<or> scope = ScopeOffline"

section \<open>Resource boundaries\<close>

record ResourceRef =
  ref_Type :: string
  ref_ID :: string

abbreviation SelectionAll :: string where "SelectionAll \<equiv> ''all''"
abbreviation SelectionSelected :: string where "SelectionSelected \<equiv> ''selected''"
abbreviation SelectionNone :: string where "SelectionNone \<equiv> ''none''"

definition ResourceBoundaryVersion :: int where
  "ResourceBoundaryVersion = 1"

record ResourceSelection =
  rs_Selection :: string
  rs_IDs :: "string list"
  rs_IncludeFuture :: bool
  rs_AllowCreate :: bool

record ResourceBoundary =
  rb_Version :: int
  rb_Resources :: "(string, ResourceSelection) gomap"
  rb_GlobalCapabilities :: "string list"
  rb_DestructiveOperations :: bool

definition normalize_selection :: "ResourceSelection \<Rightarrow> ResourceSelection" where
  "normalize_selection sel =
     sel\<lparr>rs_Selection := ToLower (TrimSpace (rs_Selection sel)),
         rs_IDs := remdups_adj (sort (rs_IDs sel))\<rparr>"

definition Normalized :: "ResourceBoundary \<Rightarrow> ResourceBoundary" where
  "Normalized b =
     (let keys = sort (map_keys (rb_Resources b));
          resources = map (\<lambda>key. (key, normalize_selection (the (map_of (rb_Resources b) key)))) keys
      in b\<lparr>rb_Version := (if rb_Version b = 0 then ResourceBoundaryVersion else rb_Version b),
           rb_Resources := resources,
           rb_GlobalCapabilities := sort (rb_GlobalCapabilities b)\<rparr>)"

definition selection_valid :: "ResourceSelection \<Rightarrow> bool" where
  "selection_valid sel =
     (if rs_Selection sel = SelectionAll \<or> rs_Selection sel = SelectionNone then True
      else if rs_Selection sel = SelectionSelected then rs_IDs sel \<noteq> []
      else False)"

definition Boundary_Valid :: "ResourceBoundary \<Rightarrow> bool" where
  "Boundary_Valid b =
     (if rb_Version b = 0 then False
      else list_all (\<lambda>(name, sel). selection_valid sel) (rb_Resources b))"

text \<open>The body of the loop of \<open>Denied\<close>: whether it appends the reference.\<close>

definition ref_denied :: "ResourceBoundary \<Rightarrow> ResourceRef \<Rightarrow> bool" where
  "ref_denied b ref =
     (case map_of (rb_Resources b) (ref_Type ref) of
        None \<Rightarrow> True
      | Some sel \<Rightarrow>
          (if rs_Selection sel = SelectionAll then
             \<not> rs_IncludeFuture sel \<and> rs_IDs sel \<noteq> [] \<and> ref_ID ref \<notin> set (rs_IDs sel)
           else if rs_Selection sel = SelectionSelected then ref_ID ref \<notin> set (rs_IDs sel)
           else True))"

definition Denied :: "ResourceBoundary \<Rightarrow> ResourceRef list \<Rightarrow> ResourceRef list" where
  "Denied b refs = filter (ref_denied b) refs"

definition AllowsCreate :: "ResourceBoundary \<Rightarrow> string \<Rightarrow> bool" where
  "AllowsCreate b resourceType =
     (case map_of (rb_Resources b) resourceType of Some sel \<Rightarrow> rs_AllowCreate sel | None \<Rightarrow> False)"

definition AllowsResource :: "ResourceBoundary \<Rightarrow> ResourceRef \<Rightarrow> bool" where
  "AllowsResource b ref \<longleftrightarrow> Denied b [ref] = []"

definition Boundary_Selection :: "ResourceBoundary \<Rightarrow> string \<Rightarrow> ResourceSelection" where
  "Boundary_Selection b resourceType =
     (case map_of (rb_Resources b) resourceType of
        Some sel \<Rightarrow> sel
      | None \<Rightarrow> \<lparr>rs_Selection = SelectionNone, rs_IDs = [], rs_IncludeFuture = False,
                 rs_AllowCreate = False\<rparr>)"

section \<open>Grants, capabilities and decisions\<close>

record GrantPolicy =
  gp_GrantID :: string
  gp_ClientID :: string
  gp_UserID :: string
  gp_PrincipalID :: string
  gp_AccessLevel :: AccessLevel
  gp_ResourceBoundary :: ResourceBoundary
  gp_ApprovalProfile :: string
  gp_ApprovalMaxRisk :: int
  gp_OfflineAccess :: bool
  gp_PolicyVersion :: int
  gp_RoleVersion :: int
  gp_ConsentVersion :: int
  gp_IssuedAt :: time
  gp_ExpiresAt :: "time option"
  gp_RevokedAt :: "time option"

record PrivilegedGrantPolicy =
  pg_ID :: int
  pg_OAuthGrantID :: string
  pg_Capabilities :: "string list"
  pg_ResourceBoundary :: ResourceBoundary
  pg_ExpiresAt :: "time option"
  pg_RevokedAt :: "time option"
  pg_Revision :: int

text \<open>A nil pointer to a privileged grant is \<open>None\<close>.\<close>

definition Privileged_Active :: "PrivilegedGrantPolicy option \<Rightarrow> time \<Rightarrow> bool" where
  "Privileged_Active p now =
     (case p of
        None \<Rightarrow> False
      | Some g \<Rightarrow>
          (if (case pg_RevokedAt g of Some t \<Rightarrow> \<not> IsZero t | None \<Rightarrow> False) then False
           else if (case pg_ExpiresAt g of Some t \<Rightarrow> \<not> IsZero t \<and> \<not> now < t | None \<Rightarrow> False) then False
           else True))"

definition HasCapability :: "PrivilegedGrantPolicy option \<Rightarrow> string \<Rightarrow> bool" where
  "HasCapability p name = (case p of None \<Rightarrow> False | Some g \<Rightarrow> name \<in> set (pg_Capabilities g))"

record GrantPrincipal =
  pr_Grant :: GrantPolicy
  pr_Role :: Role
  pr_UserID :: int
  pr_ClientID :: string
  pr_PrivilegedGrant :: "PrivilegedGrantPolicy option"

record 'i CapabilitySpec =
  cs_ID :: string
  cs_Title :: string
  cs_Description :: string
  cs_MinimumAccess :: AccessLevel
  cs_RBACPermission :: string
  cs_MCPEnabled :: bool
  cs_Executable :: bool
  cs_ReadOnly :: bool
  cs_Idempotent :: bool
  cs_RiskClass :: int
  cs_ApprovalRequired :: bool
  cs_ResourceTypes :: "string list"
  cs_DataClassification :: string
  cs_ResolveResourceRefs :: "('i \<Rightarrow> ResourceRef list result) option"
  cs_PrivilegeClass :: string
  cs_ApprovalPolicy :: string

record AuthorizationDecision =
  ad_Allowed :: bool
  ad_Code :: string
  ad_Reason :: string
  ad_RequiredScope :: string
  ad_RequiredRole :: string
  ad_DeniedResources :: "ResourceRef list"
  ad_ApprovalMode :: string
  ad_RiskClass :: int
  ad_Recoverable :: bool
  ad_CorrelationID :: string

abbreviation CodeInsufficientScope :: string where "CodeInsufficientScope \<equiv> ''insufficient_scope''"
abbreviation CodeRoleDenied :: string where "CodeRoleDenied \<equiv> ''role_denied''"
abbreviation CodeResourceDenied :: string where "CodeResourceDenied \<equiv> ''resource_denied''"
abbreviation CodeInvalidInput :: string where "CodeInvalidInput \<equiv> ''invalid_input''"
abbreviation CodePrivilegedGrantRequired :: string where
  "CodePrivilegedGrantRequired \<equiv> ''privileged_grant_required''"
abbreviation CodePrivilegedGrantExpired :: string where
  "CodePrivilegedGrantExpired \<equiv> ''privileged_grant_expired''"
abbreviation CodePrivilegedGrantRevoked :: string where
  "CodePrivilegedGrantRevoked \<equiv> ''privileged_grant_revoked''"
abbreviation CodeRawShellNotGranted :: string where
  "CodeRawShellNotGranted \<equiv> ''raw_shell_not_granted''"

definition AllowDecision :: "ApprovalMode \<Rightarrow> int \<Rightarrow> AuthorizationDecision" where
  "AllowDecision approval riskClass =
     \<lparr>ad_Allowed = True, ad_Code = ''allowed'', ad_Reason = [], ad_RequiredScope = [],
      ad_RequiredRole = [], ad_DeniedResources = [], ad_ApprovalMode = approval,
      ad_RiskClass = riskClass, ad_Recoverable = True, ad_CorrelationID = []\<rparr>"

definition DenyDecision :: "string \<Rightarrow> string \<Rightarrow> bool \<Rightarrow> AuthorizationDecision" where
  "DenyDecision code reason recoverable =
     \<lparr>ad_Allowed = False, ad_Code = code, ad_Reason = reason, ad_RequiredScope = [],
      ad_RequiredRole = [], ad_DeniedResources = [], ad_ApprovalMode = [],
      ad_RiskClass = 0, ad_Recoverable = recoverable, ad_CorrelationID = []\<rparr>"

definition DenyScope :: "AccessLevel \<Rightarrow> AuthorizationDecision" where
  "DenyScope minimum =
     (DenyDecision CodeInsufficientScope (''this operation requires '' @ RequiredScope minimum) True)
       \<lparr>ad_RequiredScope := RequiredScope minimum\<rparr>"

definition DenyRole :: "string \<Rightarrow> AuthorizationDecision" where
  "DenyRole permission =
     (DenyDecision CodeRoleDenied ''the current role does not permit this operation'' True)
       \<lparr>ad_RequiredRole := permission\<rparr>"

definition DenyResources :: "ResourceRef list \<Rightarrow> AuthorizationDecision" where
  "DenyResources refs =
     (DenyDecision CodeResourceDenied
        ''the current grant does not include one or more requested resources'' True)
       \<lparr>ad_DeniedResources := refs\<rparr>"

text \<open>The evaluator calls \<open>DenyInput\<close> with a non-nil error only.\<close>

definition DenyInput :: "string option \<Rightarrow> AuthorizationDecision" where
  "DenyInput err =
     (let decision = DenyDecision CodeInvalidInput
            ''the operation input could not be resolved to resource references'' False
      in case err of Some e \<Rightarrow> decision\<lparr>ad_Reason := e\<rparr> | None \<Rightarrow> decision)"

section \<open>The evaluator\<close>

definition authorize_privileged ::
  "time \<Rightarrow> PrivilegedGrantPolicy option \<Rightarrow> 'i CapabilitySpec \<Rightarrow> ResourceRef list \<Rightarrow> AuthorizationDecision" where
  "authorize_privileged now privileged spec refs =
     (case privileged of
        None \<Rightarrow> DenyDecision CodePrivilegedGrantRequired
                  ''this operation requires a dedicated privileged MCP grant'' True
      | Some g \<Rightarrow>
          if pg_RevokedAt g \<noteq> None then
            DenyDecision CodePrivilegedGrantRevoked ''the privileged MCP grant has been revoked'' False
          else if (case pg_ExpiresAt g of Some t \<Rightarrow> t < now | None \<Rightarrow> False) then
            DenyDecision CodePrivilegedGrantExpired ''the privileged MCP grant has expired'' True
          else if \<not> HasCapability privileged (cs_PrivilegeClass spec) then
            (if cs_PrivilegeClass spec = ''remote_shell'' then
               DenyDecision CodeRawShellNotGranted ''raw shell is not included in the privileged grant'' True
             else DenyDecision CodePrivilegedGrantRequired
                    ''the privileged grant does not include this host operation'' True)
          else if Denied (pg_ResourceBoundary g) refs \<noteq> [] then
            DenyResources (Denied (pg_ResourceBoundary g) refs)
          else AllowDecision ApprovalAutomatic (cs_RiskClass spec))"

definition resolve_refs :: "'i CapabilitySpec \<Rightarrow> 'i \<Rightarrow> ResourceRef list result" where
  "resolve_refs spec input =
     (case cs_ResolveResourceRefs spec of None \<Rightarrow> Inr [] | Some f \<Rightarrow> f input)"

definition Authorize ::
  "(Role \<Rightarrow> string \<Rightarrow> bool) \<Rightarrow> (int \<Rightarrow> int \<Rightarrow> bool \<Rightarrow> ApprovalMode) \<Rightarrow> time \<Rightarrow> time \<Rightarrow>
   GrantPrincipal \<Rightarrow> 'i CapabilitySpec \<Rightarrow> 'i \<Rightarrow> AuthorizationDecision" where
  "Authorize rbac approvals now now' p spec input =
     (let grant = pr_Grant p in
      if gp_RevokedAt grant \<noteq> None then
        DenyDecision ''grant_revoked'' ''the OAuth grant has been revoked'' False
      else if (case gp_ExpiresAt grant of Some t \<Rightarrow> t < now | None \<Rightarrow> False) then
        DenyDecision ''grant_expired'' ''the OAuth grant has expired'' False
      else if \<not> AccessLevel_Allows (gp_AccessLevel grant) (cs_MinimumAccess spec) then
        DenyScope (cs_MinimumAccess spec)
      else if \<not> rbac (pr_Role p) (cs_RBACPermission spec) then
        DenyRole (cs_RBACPermission spec)
      else
        (case resolve_refs spec input of
           Inl err \<Rightarrow> DenyInput (Some err)
         | Inr refs \<Rightarrow>
             if Denied (gp_ResourceBoundary grant) refs \<noteq> [] then
               DenyResources (Denied (gp_ResourceBoundary grant) refs)
             else if cs_PrivilegeClass spec \<noteq> [] then
               authorize_privileged now' (pr_PrivilegedGrant p) spec refs
             else
               AllowDecision
                 (approvals (gp_ApprovalMaxRisk grant) (cs_RiskClass spec) (cs_ApprovalRequired spec))
                 (cs_RiskClass spec)))"

section \<open>Wire errors\<close>

record NextAction =
  na_Type :: string
  na_ResourceURI :: string

record ErrorDetail =
  ed_Code :: string
  ed_Message :: string
  ed_DeniedBy :: string
  ed_RequiredScope :: string
  ed_RequiredRole :: string
  ed_DeniedResources :: "ResourceRef list"
  ed_Recoverable :: bool
  ed_NextAction :: "NextAction option"

record MCPError =
  me_SchemaVersion :: string
  me_Status :: string
  me_Error :: ErrorDetail
  me_CorrelationID :: string
  me_Warnings :: "string list"

text \<open>
  The last conditional of the source assigns the parameter \<open>deniedBy\<close> after the detail that
  carries it has been built, so it has no effect on the result; the model keeps the order.
\<close>

definition NewMCPError ::
  "string \<Rightarrow> string \<Rightarrow> string \<Rightarrow> AuthorizationDecision \<Rightarrow> string \<Rightarrow> MCPError" where
  "NewMCPError code message deniedBy decision correlationID =
     (let detail = \<lparr>ed_Code = code, ed_Message = message, ed_DeniedBy = deniedBy, ed_RequiredScope = [],
                   ed_RequiredRole = [], ed_DeniedResources = [],
                   ed_Recoverable = ad_Recoverable decision, ed_NextAction = None\<rparr>;
          detail = (if ad_RequiredScope decision \<noteq> [] then detail\<lparr>ed_RequiredScope := ad_RequiredScope decision\<rparr> else detail);
          detail = (if ad_RequiredRole decision \<noteq> [] then detail\<lparr>ed_RequiredRole := ad_RequiredRole decision\<rparr> else detail);
          detail = (if length (ad_DeniedResources decision) > 0 then detail\<lparr>ed_DeniedResources := ad_DeniedResources decision\<rparr> else detail);
          detail = (if ad_Code decision = CodeResourceDenied \<or> ad_Code decision = CodeInsufficientScope \<or>
                       ad_Code decision = CodeRoleDenied
                    then detail\<lparr>ed_NextAction := Some \<lparr>na_Type = ''request_new_consent'', na_ResourceURI = ''oboard://auth/grant''\<rparr>\<rparr>
                    else detail)
      in (let deniedBy = (if deniedBy = [] then ''evaluator'' else deniedBy)
          in \<lparr>me_SchemaVersion = ''2'', me_Status = ''failed'', me_Error = detail,
              me_CorrelationID = correlationID, me_Warnings = []\<rparr>))"

definition NotAllowedError :: "AuthorizationDecision \<Rightarrow> string \<Rightarrow> MCPError" where
  "NotAllowedError decision correlationID =
     (let code = (if ad_Code decision = [] \<or> ad_Code decision = ''allowed'' then CodeResourceDenied
                  else ad_Code decision)
      in NewMCPError code (ad_Reason decision) ''evaluator'' decision correlationID)"

section \<open>Lemmas on boundaries\<close>

lemma AllowsResource_iff: "AllowsResource b ref \<longleftrightarrow> \<not> ref_denied b ref"
  by (simp add: AllowsResource_def Denied_def)

lemma Denied_Nil_iff: "Denied b refs = [] \<longleftrightarrow> (\<forall>ref\<in>set refs. AllowsResource b ref)"
  by (auto simp: Denied_def AllowsResource_iff filter_empty_conv)

lemma sort_keys_lookup:
  assumes "gomap_ok m"
  shows "map_of (map (\<lambda>k. (k, f (the (map_of m k)))) (sort (map_keys m))) k = map_option f (map_of m k)"
proof (cases "map_of m k")
  case None
  then have "k \<notin> set (map_keys m)" by (simp add: map_of_None_notin)
  with None show ?thesis by (simp add: map_of_map_restrict restrict_map_def)
next
  case (Some v)
  then have "k \<in> set (sort (map_keys m))" by (force dest: map_of_mem)
  with Some show ?thesis by (simp add: map_of_map_restrict restrict_map_def)
qed

lemma Normalized_lookup:
  "gomap_ok (rb_Resources b) \<Longrightarrow>
   map_of (rb_Resources (Normalized b)) k = map_option normalize_selection (map_of (rb_Resources b) k)"
  by (simp add: Normalized_def Let_def sort_keys_lookup)

lemma Normalized_keys: "map_keys (rb_Resources (Normalized b)) = sort (map_keys (rb_Resources b))"
  by (simp add: Normalized_def Let_def comp_def)

lemma Normalized_keys_ok: "gomap_ok (rb_Resources b) \<Longrightarrow> gomap_ok (rb_Resources (Normalized b))"
  by (simp add: Normalized_keys)

lemma canonical_selections [simp]:
  "ToLower (TrimSpace SelectionAll) = SelectionAll"
  "ToLower (TrimSpace SelectionNone) = SelectionNone"
  "ToLower (TrimSpace SelectionSelected) = SelectionSelected"
  by code_simp+

section \<open>What the evaluator grants\<close>

text \<open>The vocabulary of the specification: a live pointer to an expiry, and the order on authority.\<close>

definition unexpired :: "time \<Rightarrow> time option \<Rightarrow> bool" where
  "unexpired now e = (case e of Some t \<Rightarrow> now \<le> t | None \<Rightarrow> True)"

definition within :: "ResourceBoundary \<Rightarrow> ResourceRef list \<Rightarrow> bool" where
  "within b refs = list_all (AllowsResource b) refs"

definition privileged_admits ::
  "time \<Rightarrow> PrivilegedGrantPolicy option \<Rightarrow> string \<Rightarrow> ResourceRef list \<Rightarrow> bool" where
  "privileged_admits now pg cls refs =
     (case pg of
        None \<Rightarrow> False
      | Some g \<Rightarrow> pg_RevokedAt g = None \<and> unexpired now (pg_ExpiresAt g) \<and>
                  cls \<in> set (pg_Capabilities g) \<and> within (pg_ResourceBoundary g) refs)"

definition expires_by :: "time option \<Rightarrow> time option \<Rightarrow> bool" where
  "expires_by e f = (case f of None \<Rightarrow> True | Some t \<Rightarrow> (case e of None \<Rightarrow> False | Some u \<Rightarrow> u \<le> t))"

definition boundary_le :: "ResourceBoundary \<Rightarrow> ResourceBoundary \<Rightarrow> bool" where
  "boundary_le b c \<longleftrightarrow> (\<forall>ref. AllowsResource b ref \<longrightarrow> AllowsResource c ref)"

definition privileged_le :: "PrivilegedGrantPolicy option \<Rightarrow> PrivilegedGrantPolicy option \<Rightarrow> bool" where
  "privileged_le q p =
     (case q of
        None \<Rightarrow> True
      | Some g \<Rightarrow>
          (case p of
             None \<Rightarrow> False
           | Some h \<Rightarrow> (pg_RevokedAt h \<noteq> None \<longrightarrow> pg_RevokedAt g \<noteq> None) \<and>
                       expires_by (pg_ExpiresAt g) (pg_ExpiresAt h) \<and>
                       set (pg_Capabilities g) \<subseteq> set (pg_Capabilities h) \<and>
                       boundary_le (pg_ResourceBoundary g) (pg_ResourceBoundary h)))"

definition attenuates :: "GrantPrincipal \<Rightarrow> GrantPrincipal \<Rightarrow> bool" where
  "attenuates q p \<longleftrightarrow>
     (gp_RevokedAt (pr_Grant p) \<noteq> None \<longrightarrow> gp_RevokedAt (pr_Grant q) \<noteq> None) \<and>
     expires_by (gp_ExpiresAt (pr_Grant q)) (gp_ExpiresAt (pr_Grant p)) \<and>
     (\<forall>m. AccessLevel_Allows (gp_AccessLevel (pr_Grant q)) m \<longrightarrow> AccessLevel_Allows (gp_AccessLevel (pr_Grant p)) m) \<and>
     RoleRank (pr_Role q) \<le> RoleRank (pr_Role p) \<and>
     boundary_le (gp_ResourceBoundary (pr_Grant q)) (gp_ResourceBoundary (pr_Grant p)) \<and>
     privileged_le (pr_PrivilegedGrant q) (pr_PrivilegedGrant p)"

lemma unexpired_mono: "expires_by e f \<Longrightarrow> unexpired now e \<Longrightarrow> unexpired now f"
  by (auto simp: expires_by_def unexpired_def split: option.splits)

lemma within_mono: "boundary_le b c \<Longrightarrow> within b refs \<Longrightarrow> within c refs"
  by (auto simp: boundary_le_def within_def list_all_iff)

lemma Denied_within: "Denied b refs = [] \<longleftrightarrow> within b refs"
  by (simp add: within_def list_all_iff Denied_Nil_iff)

lemma expired_iff: "(case e of Some t \<Rightarrow> t < now | None \<Rightarrow> False) \<longleftrightarrow> \<not> unexpired now e"
  by (auto simp: unexpired_def split: option.splits)

lemma deny_not_allowed [simp]:
  "\<not> ad_Allowed (DenyDecision c m b)" "\<not> ad_Allowed (DenyScope l)" "\<not> ad_Allowed (DenyRole q)"
  "\<not> ad_Allowed (DenyResources refs)" "\<not> ad_Allowed (DenyInput e)"
  by (simp_all add: DenyDecision_def DenyScope_def DenyRole_def DenyResources_def DenyInput_def Let_def
      split: option.splits)

lemma allow_allowed [simp]: "ad_Allowed (AllowDecision a n)"
  by (simp add: AllowDecision_def)

lemma authorize_privileged_allowed:
  "ad_Allowed (authorize_privileged now pg spec refs) \<longleftrightarrow>
   privileged_admits now pg (cs_PrivilegeClass spec) refs"
  by (auto simp: authorize_privileged_def privileged_admits_def HasCapability_def expired_iff
      Denied_within split: option.splits)

lemma privileged_admits_mono:
  assumes "privileged_le q p" and "privileged_admits now q cls refs"
  shows "privileged_admits now p cls refs"
  using assms unexpired_mono within_mono
  by (fastforce simp: privileged_le_def privileged_admits_def split: option.splits)

locale mcp_evaluator = rbac_checker may + approval_resolver resolve
  for may :: "Role \<Rightarrow> string \<Rightarrow> bool" and resolve :: "int \<Rightarrow> int \<Rightarrow> bool \<Rightarrow> ApprovalMode"
begin

lemma allowed_iff:
  "ad_Allowed (Authorize may resolve now now' p spec input) \<longleftrightarrow>
     gp_RevokedAt (pr_Grant p) = None \<and>
     unexpired now (gp_ExpiresAt (pr_Grant p)) \<and>
     AccessLevel_Allows (gp_AccessLevel (pr_Grant p)) (cs_MinimumAccess spec) \<and>
     may (pr_Role p) (cs_RBACPermission spec) \<and>
     (\<exists>refs. resolve_refs spec input = Inr refs \<and>
        within (gp_ResourceBoundary (pr_Grant p)) refs \<and>
        (cs_PrivilegeClass spec = [] \<or>
         privileged_admits now' (pr_PrivilegedGrant p) (cs_PrivilegeClass spec) refs))"
  by (simp add: Authorize_def Let_def expired_iff Denied_within authorize_privileged_allowed
      split: sum.splits)

lemma allowed_mono:
  assumes att: "attenuates q p"
    and ok: "ad_Allowed (Authorize may resolve now now' q spec input)"
  shows "ad_Allowed (Authorize may resolve now now' p spec input)"
proof -
  from ok obtain refs where refs: "resolve_refs spec input = Inr refs"
    and b: "within (gp_ResourceBoundary (pr_Grant q)) refs"
    and c: "cs_PrivilegeClass spec = [] \<or>
      privileged_admits now' (pr_PrivilegedGrant q) (cs_PrivilegeClass spec) refs"
    by (auto simp: allowed_iff)
  from att b have "within (gp_ResourceBoundary (pr_Grant p)) refs"
    by (auto simp: attenuates_def intro: within_mono)
  moreover from att c have "cs_PrivilegeClass spec = [] \<or>
      privileged_admits now' (pr_PrivilegedGrant p) (cs_PrivilegeClass spec) refs"
    by (auto simp: attenuates_def intro: privileged_admits_mono)
  moreover from att ok have "may (pr_Role p) (cs_RBACPermission spec)"
    by (auto simp: attenuates_def allowed_iff intro: rank_mono)
  moreover from att ok have "unexpired now (gp_ExpiresAt (pr_Grant p))"
    by (auto simp: attenuates_def allowed_iff intro: unexpired_mono)
  ultimately show ?thesis
    using att ok refs by (auto simp: attenuates_def allowed_iff)
qed

lemma automatic_risk:
  assumes ok: "ad_Allowed (Authorize may resolve now now' p spec input)"
    and auto: "ad_ApprovalMode (Authorize may resolve now now' p spec input) = ApprovalAutomatic"
    and req: "cs_ApprovalRequired spec" and plain: "cs_PrivilegeClass spec = []"
  shows "cs_RiskClass spec \<le> gp_ApprovalMaxRisk (pr_Grant p) \<and> cs_RiskClass spec < 4"
proof -
  from ok plain have "Authorize may resolve now now' p spec input =
      AllowDecision (resolve (gp_ApprovalMaxRisk (pr_Grant p)) (cs_RiskClass spec) True) (cs_RiskClass spec)"
    using req by (auto simp: Authorize_def Let_def split: sum.splits if_splits)
  with auto have "resolve (gp_ApprovalMaxRisk (pr_Grant p)) (cs_RiskClass spec) True = ApprovalAutomatic"
    by (simp add: AllowDecision_def)
  then show ?thesis by (simp add: resolve_automaticD)
qed

end

interpretation mcp: mcp_evaluator "Allows r" GrantApprovalResolver_Resolve for r
  by unfold_locales

lemma normalize_selection_valid:
  "selection_valid sel \<Longrightarrow> rs_Selection (normalize_selection sel) = rs_Selection sel"
  by (auto simp: selection_valid_def normalize_selection_def split: if_splits)

lemma remdups_adj_sort_idem [simp]:
  "remdups_adj (sort (remdups_adj (sort xs))) = remdups_adj (sort xs)"
  for xs :: "'a::linorder list"
  by (simp add: remdups_adj_sort_eq)

lemma normalize_selection_idem:
  "selection_valid sel \<Longrightarrow> normalize_selection (normalize_selection sel) = normalize_selection sel"
  using normalize_selection_valid [of sel]
  by (auto simp: normalize_selection_def selection_valid_def split: if_splits)

lemma normalize_selection_ref:
  "selection_valid sel \<Longrightarrow>
   rs_Selection (normalize_selection sel) = rs_Selection sel \<and>
   rs_IncludeFuture (normalize_selection sel) = rs_IncludeFuture sel \<and>
   set (rs_IDs (normalize_selection sel)) = set (rs_IDs sel) \<and>
   (rs_IDs (normalize_selection sel) = [] \<longleftrightarrow> rs_IDs sel = [])"
  using normalize_selection_valid [of sel]
  by (auto simp: normalize_selection_def simp flip: set_empty)

lemma Boundary_Valid_lookup:
  "Boundary_Valid b \<Longrightarrow> map_of (rb_Resources b) k = Some sel \<Longrightarrow> selection_valid sel"
  by (auto simp: Boundary_Valid_def list_all_iff dest!: map_of_mem split: if_splits)

lemma ref_denied_Normalized:
  assumes "gomap_ok (rb_Resources b)" and "Boundary_Valid b"
  shows "ref_denied (Normalized b) ref = ref_denied b ref"
proof (cases "map_of (rb_Resources b) (ref_Type ref)")
  case None
  with assms show ?thesis by (simp add: ref_denied_def Normalized_lookup)
next
  case (Some sel)
  with assms(2) have "selection_valid sel" by (rule Boundary_Valid_lookup)
  note sel = normalize_selection_ref [OF this]
  from Some assms(1) have "map_of (rb_Resources (Normalized b)) (ref_Type ref) = Some (normalize_selection sel)"
    by (simp add: Normalized_lookup)
  with Some sel show ?thesis by (simp add: ref_denied_def)
qed

lemma Normalized_idem:
  assumes ok: "gomap_ok (rb_Resources b)" and v: "Boundary_Valid b"
  shows "Normalized (Normalized b) = Normalized b"
proof -
  let ?sel = "\<lambda>m k. (k, normalize_selection (the (map_of m k)))"
  have "map (?sel (rb_Resources (Normalized b))) (sort (map_keys (rb_Resources b))) =
        map (?sel (rb_Resources b)) (sort (map_keys (rb_Resources b)))"
  proof (rule map_cong [OF refl])
    fix k assume "k \<in> set (sort (map_keys (rb_Resources b)))"
    then have "map_of (rb_Resources b) k \<noteq> None" by (simp add: map_of_None_notin)
    then obtain sel where sel: "map_of (rb_Resources b) k = Some sel" by blast
    then have "normalize_selection (normalize_selection sel) = normalize_selection sel"
      by (intro normalize_selection_idem Boundary_Valid_lookup [OF v])
    with sel show "?sel (rb_Resources (Normalized b)) k = ?sel (rb_Resources b) k"
      by (simp add: Normalized_lookup [OF ok])
  qed
  moreover have "map_keys (rb_Resources (Normalized b)) = sort (map_keys (rb_Resources b))"
    by (rule Normalized_keys)
  ultimately have "rb_Resources (Normalized (Normalized b)) = rb_Resources (Normalized b)"
    by (simp add: Normalized_def [of "Normalized b"] Let_def sorted_sort_id)
      (simp add: Normalized_def Let_def)
  then show ?thesis
    by (simp add: Normalized_def Let_def ResourceBoundaryVersion_def sorted_sort_id)
qed

lemma deny_codes [simp]:
  "ad_Code (DenyDecision c m b) = c" "ad_Code (DenyScope l) = CodeInsufficientScope"
  "ad_Code (DenyRole q) = CodeRoleDenied" "ad_Code (DenyResources refs) = CodeResourceDenied"
  "ad_Code (DenyInput e) = CodeInvalidInput"
  by (simp_all add: DenyDecision_def DenyScope_def DenyRole_def DenyResources_def DenyInput_def Let_def
      split: option.splits)

lemma Authorize_deny_code:
  "\<not> ad_Allowed (Authorize may resolve now now' p spec input) \<Longrightarrow>
   ad_Code (Authorize may resolve now now' p spec input) \<noteq> [] \<and>
   ad_Code (Authorize may resolve now now' p spec input) \<noteq> ''allowed''"
  by (auto simp: Authorize_def authorize_privileged_def Let_def split: sum.splits option.splits if_splits)

section \<open>Properties\<close>

text \<open>
  Inputs the witnesses evaluate: an administrator whose grant covers every server, and a viewer
  whose grant covers server 1 only, is read-only and expires.
\<close>

definition ex_registry :: RBAC where
  "ex_registry = Register NewRBAC ''servers.read'' \<lparr>ps_ReadOnly = True, ps_ManagementOnly = False, ps_AdminOnly = False\<rparr>"

definition ex_boundary :: "string \<Rightarrow> string list \<Rightarrow> ResourceBoundary" where
  "ex_boundary sel ids = \<lparr>rb_Version = 1,
     rb_Resources = [(''server'', \<lparr>rs_Selection = sel, rs_IDs = ids, rs_IncludeFuture = True, rs_AllowCreate = False\<rparr>)],
     rb_GlobalCapabilities = [], rb_DestructiveOperations = False\<rparr>"

definition ex_principal :: "AccessLevel \<Rightarrow> Role \<Rightarrow> ResourceBoundary \<Rightarrow> time option \<Rightarrow> GrantPrincipal" where
  "ex_principal level role b e = \<lparr>pr_Grant = \<lparr>gp_GrantID = ''g'', gp_ClientID = ''c'', gp_UserID = ''u'',
       gp_PrincipalID = ''p'', gp_AccessLevel = level, gp_ResourceBoundary = b, gp_ApprovalProfile = [],
       gp_ApprovalMaxRisk = 2, gp_OfflineAccess = False, gp_PolicyVersion = 1, gp_RoleVersion = 1,
       gp_ConsentVersion = 1, gp_IssuedAt = 1, gp_ExpiresAt = e, gp_RevokedAt = None\<rparr>,
     pr_Role = role, pr_UserID = 1, pr_ClientID = ''c'', pr_PrivilegedGrant = None\<rparr>"

definition ex_spec :: "string CapabilitySpec" where
  "ex_spec = \<lparr>cs_ID = ''servers.get'', cs_Title = [], cs_Description = [], cs_MinimumAccess = AccessRead,
     cs_RBACPermission = ''servers.read'', cs_MCPEnabled = True, cs_Executable = True, cs_ReadOnly = True,
     cs_Idempotent = True, cs_RiskClass = 1, cs_ApprovalRequired = True, cs_ResourceTypes = [''server''],
     cs_DataClassification = [], cs_ResolveResourceRefs = Some (\<lambda>i. Inr [\<lparr>ref_Type = ''server'', ref_ID = i\<rparr>]),
     cs_PrivilegeClass = [], cs_ApprovalPolicy = []\<rparr>"

lemmas ex_mcp_defs = ex_registry_def ex_boundary_def ex_principal_def ex_spec_def Register_def NewRBAC_def
  Authorize_def Let_def resolve_refs_def Denied_def ref_denied_def AccessLevel_Allows_def Allows_def
  AllowDecision_def GrantApprovalResolver_Resolve_def AllowsResource_def unexpired_def expires_by_def
  boundary_le_def attenuates_def privileged_le_def RoleRank_def

text \<open>
  C7. Complete mediation: the evaluator allows a call exactly when the grant is neither revoked nor
  expired, its access level covers the capability's minimum, the registry allows the caller's role
  the capability's permission, the input resolves to references that all lie in the grant's boundary
  and, for a capability with a privilege class, a privileged grant that is neither revoked nor expired
  holds that class and its own boundary covers the same references.
\<close>

theorem authorize_complete_mediation:
  "ad_Allowed (Authorize (Allows r) GrantApprovalResolver_Resolve now now' p spec input) \<longleftrightarrow>
     gp_RevokedAt (pr_Grant p) = None \<and>
     unexpired now (gp_ExpiresAt (pr_Grant p)) \<and>
     AccessLevel_Allows (gp_AccessLevel (pr_Grant p)) (cs_MinimumAccess spec) \<and>
     Allows r (pr_Role p) (cs_RBACPermission spec) \<and>
     (\<exists>refs. resolve_refs spec input = Inr refs \<and>
        within (gp_ResourceBoundary (pr_Grant p)) refs \<and>
        (cs_PrivilegeClass spec = [] \<or>
         privileged_admits now' (pr_PrivilegedGrant p) (cs_PrivilegeClass spec) refs))"
  by (rule mcp.allowed_iff)

text \<open>
  C17. Attenuation: a principal with less authority (revoked where the other is, an earlier expiry, a
  weaker access level, a role of lower rank, a narrower boundary and narrower privileged grant) is
  never allowed a call that the stronger principal is denied.
\<close>

theorem authorize_attenuation:
  assumes "attenuates q p"
    and "ad_Allowed (Authorize (Allows r) GrantApprovalResolver_Resolve now now' q spec input)"
  shows "ad_Allowed (Authorize (Allows r) GrantApprovalResolver_Resolve now now' p spec input)"
  using assms by (rule mcp.allowed_mono)

theorem authorize_attenuation_witness:
  "ad_Allowed (Authorize (Allows ex_registry) GrantApprovalResolver_Resolve 5 5
     (ex_principal AccessOperate RoleAdmin (ex_boundary SelectionAll []) None) ex_spec ''1'')"
proof (rule authorize_attenuation
    [where q = "ex_principal AccessRead RoleViewer (ex_boundary SelectionSelected [''1'']) (Some 9)"])
  show "attenuates (ex_principal AccessRead RoleViewer (ex_boundary SelectionSelected [''1'']) (Some 9))
     (ex_principal AccessOperate RoleAdmin (ex_boundary SelectionAll []) None)"
    by (simp add: ex_mcp_defs split: if_splits)
  show "ad_Allowed (Authorize (Allows ex_registry) GrantApprovalResolver_Resolve 5 5
     (ex_principal AccessRead RoleViewer (ex_boundary SelectionSelected [''1'']) (Some 9)) ex_spec ''1'')"
    by (simp add: ex_mcp_defs)
qed

text \<open>
  A call that requires approval and carries no privilege class is approved automatically only if
  its risk class is within the grant's limit and below 4: no grant, whatever its limit, makes a
  high-risk call automatic.
\<close>

theorem automatic_approval_bounded:
  assumes "ad_Allowed (Authorize (Allows r) GrantApprovalResolver_Resolve now now' p spec input)"
    and "ad_ApprovalMode (Authorize (Allows r) GrantApprovalResolver_Resolve now now' p spec input) = ApprovalAutomatic"
    and "cs_ApprovalRequired spec" and "cs_PrivilegeClass spec = []"
  shows "cs_RiskClass spec \<le> gp_ApprovalMaxRisk (pr_Grant p) \<and> cs_RiskClass spec < 4"
  using assms by (rule mcp.automatic_risk)

theorem automatic_approval_bounded_witness:
  "cs_RiskClass ex_spec \<le> gp_ApprovalMaxRisk (pr_Grant (ex_principal AccessRead RoleViewer
     (ex_boundary SelectionSelected [''1'']) None)) \<and> cs_RiskClass ex_spec < 4"
  by (rule automatic_approval_bounded [where r = ex_registry and now = 5 and now' = 5 and input = "''1''"])
    (simp_all add: ex_mcp_defs)

text \<open>
  C18. Normalising a valid boundary changes no decision and is idempotent: the normalised boundary
  denies the same references, in the same order, and normalising again gives the same boundary.
\<close>

theorem normalized_boundary_equivalent:
  assumes "gomap_ok (rb_Resources b)" and "Boundary_Valid b"
  shows "Denied (Normalized b) refs = Denied b refs \<and> Normalized (Normalized b) = Normalized b"
  using ref_denied_Normalized [OF assms] Normalized_idem [OF assms]
  by (simp add: Denied_def cong: filter_cong)

theorem normalized_boundary_equivalent_witness:
  "Denied (Normalized (ex_boundary SelectionSelected [''7'', ''1'', ''7''])) [\<lparr>ref_Type = ''server'', ref_ID = ''2''\<rparr>] =
     [\<lparr>ref_Type = ''server'', ref_ID = ''2''\<rparr>]"
  using normalized_boundary_equivalent [of "ex_boundary SelectionSelected [''7'', ''1'', ''7'']"
      "[\<lparr>ref_Type = ''server'', ref_ID = ''2''\<rparr>]"]
  by (simp add: ex_boundary_def Boundary_Valid_def selection_valid_def Denied_def ref_denied_def)

text \<open>
  C19. Every denial reaches the client unchanged: the wire error of a denied call carries the code,
  the reason, the denied references, the required scope and role and the recoverability of the
  decision, and names the evaluator as the denying party.
\<close>

theorem denial_error_faithful:
  assumes "d = Authorize may resolve now now' p spec input" and "\<not> ad_Allowed d"
  shows "me_Status (NotAllowedError d cid) = ''failed'' \<and> me_CorrelationID (NotAllowedError d cid) = cid \<and>
    (let e = me_Error (NotAllowedError d cid)
     in ed_Code e = ad_Code d \<and> ed_Message e = ad_Reason d \<and> ed_DeniedBy e = ''evaluator'' \<and>
        ed_DeniedResources e = ad_DeniedResources d \<and> ed_RequiredScope e = ad_RequiredScope d \<and>
        ed_RequiredRole e = ad_RequiredRole d \<and> ed_Recoverable e = ad_Recoverable d)"
proof -
  from assms have "ad_Code d \<noteq> [] \<and> ad_Code d \<noteq> ''allowed''"
    by (simp add: Authorize_deny_code)
  then show ?thesis by (simp add: NotAllowedError_def NewMCPError_def Let_def)
qed

theorem denial_error_faithful_witness:
  "ed_Code (me_Error (NotAllowedError (Authorize (Allows NewRBAC) GrantApprovalResolver_Resolve 5 5
     (ex_principal AccessRead RoleViewer (ex_boundary SelectionSelected [''1'']) (Some 9)) ex_spec ''1'') ''x'')) =
   CodeRoleDenied"
  using denial_error_faithful [OF refl, of "Allows NewRBAC" GrantApprovalResolver_Resolve 5 5
      "ex_principal AccessRead RoleViewer (ex_boundary SelectionSelected [''1'']) (Some 9)" ex_spec "''1''" "''x''"]
  by (simp add: ex_mcp_defs DenyRole_def DenyDecision_def)

end
