(* ===== verification/Model_Types.thy ===== *)
theory Model_Types
  imports Oboard_Prelude
begin

text \<open>
  The rows of \<open>internal/model/types.go\<close> that several components read. The plan, plan node, binding
  and exception rows are complete. \<open>User\<close>, \<open>Inbound\<close> and \<open>ProxyPath\<close> keep the fields the modelled
  code reads: identity, status, limits and reset rules of a user; identity, server, protocol, listen
  address, ports and the enabled flag of an inbound; identity, kind, inbound and the enabled flag of
  a path. A \<open>Server\<close> keeps its identity and port ranges. A \<open>PortForward\<close> leaves out the probe interval, the extra
  configuration and the times, a \<open>Tunnel\<close> the addresses and the times; the topology check reads only the
  identities of servers, the two ends of an edge and whether it is enabled.
\<close>

record User =
  u_ID :: int
  u_Status :: string
  u_SpeedLimitMbps :: int
  u_TrafficLimitBytes :: int
  u_TrafficResetMode :: string
  u_TrafficResetDay :: int

type_synonym AssignableNodeType = string

abbreviation AssignableNodeProxyPath :: AssignableNodeType where "AssignableNodeProxyPath \<equiv> ''proxy_path''"
abbreviation AssignableNodeExternalOutbound :: AssignableNodeType where
  "AssignableNodeExternalOutbound \<equiv> ''external_outbound''"
abbreviation AssignableNodeInbound :: AssignableNodeType where "AssignableNodeInbound \<equiv> ''inbound''"

record SubscriptionPlan =
  sp_ID :: int
  sp_Name :: string
  sp_Description :: string
  sp_Enabled :: bool
  sp_SpeedLimitMbps :: int
  sp_TrafficLimitBytes :: int
  sp_TrafficResetMode :: string
  sp_TrafficResetDay :: int
  sp_LockVersion :: int
  sp_CurrentRevisionID :: int
  sp_LatestRevisionID :: int
  sp_PendingRevisionID :: int
  sp_Revision :: int
  sp_ActiveRevisionID :: int
  sp_DraftRevisionID :: int
  sp_CreatedAt :: time
  sp_UpdatedAt :: time

record SubscriptionPlanNode =
  pn_ID :: int
  pn_PlanID :: int
  pn_RevisionID :: int
  pn_NodeType :: AssignableNodeType
  pn_NodeID :: int
  pn_DisplayGroup :: string
  pn_SourceType :: string
  pn_SourceRuleID :: int
  pn_SortPosition :: "int option"
  pn_DisplayNameOverride :: "string option"
  pn_Enabled :: bool
  pn_CreatedAt :: time
  pn_UpdatedAt :: time

record UserPlanBinding =
  pb_ID :: int
  pb_UserID :: int
  pb_PlanID :: int
  pb_Enabled :: bool
  pb_StartsAt :: "time option"
  pb_ExpiresAt :: "time option"
  pb_TrafficResetAnchorAt :: "time option"
  pb_TrafficResetHourAligned :: bool
  pb_AssignedBy :: "int option"
  pb_CreatedAt :: time
  pb_UpdatedAt :: time

abbreviation UserNodeExceptionAllow :: string where "UserNodeExceptionAllow \<equiv> ''allow''"
abbreviation UserNodeExceptionDeny :: string where "UserNodeExceptionDeny \<equiv> ''deny''"
abbreviation UserNodeExceptionActive :: string where "UserNodeExceptionActive \<equiv> ''active''"

record UserNodeException =
  ne_ID :: int
  ne_UserID :: int
  ne_NodeType :: AssignableNodeType
  ne_NodeID :: int
  ne_Effect :: string
  ne_Reason :: string
  ne_Status :: string
  ne_StartsAt :: "time option"
  ne_ExpiresAt :: "time option"
  ne_CreatedBy :: "int option"
  ne_CreatedAt :: time

abbreviation AccessChangeKindGrant :: string where "AccessChangeKindGrant \<equiv> ''grant''"
abbreviation AccessChangeKindMigration :: string where "AccessChangeKindMigration \<equiv> ''migration''"
abbreviation AccessChangeKindRevoke :: string where "AccessChangeKindRevoke \<equiv> ''revoke''"

record Inbound =
  in_ID :: int
  in_ServerID :: int
  in_Name :: string
  in_Protocol :: string
  in_ListenIP :: string
  in_Port :: int
  in_AdvertisePort :: int
  in_Enabled :: bool

record ProxyPath =
  pp_ID :: int
  pp_Kind :: string
  pp_InboundID :: int
  pp_Enabled :: bool

record Server =
  sv_ID :: int
  sv_PortRangeStart :: int
  sv_PortRangeEnd :: int
  sv_InternalPortRangeStart :: int
  sv_InternalPortRangeEnd :: int

type_synonym ForwardProtocol = string

abbreviation ForwardProtocolTCP :: ForwardProtocol where "ForwardProtocolTCP \<equiv> ''tcp''"
abbreviation ForwardProtocolUDP :: ForwardProtocol where "ForwardProtocolUDP \<equiv> ''udp''"
abbreviation ForwardProtocolTCPUDP :: ForwardProtocol where "ForwardProtocolTCPUDP \<equiv> ''tcp_udp''"

record PortForward =
  pf_ID :: int
  pf_Name :: string
  pf_SourceServerID :: int
  pf_TargetServerID :: int
  pf_ListenIP :: string
  pf_ListenPort :: int
  pf_TargetAddress :: string
  pf_TargetPort :: int
  pf_Protocol :: ForwardProtocol
  pf_Backend :: string
  pf_ProbeMode :: string
  pf_Priority :: int
  pf_Enabled :: bool

record Tunnel =
  tn_ID :: int
  tn_Name :: string
  tn_SourceServerID :: int
  tn_TargetServerID :: int
  tn_Type :: string
  tn_ListenPort :: int
  tn_ConfigJSON :: string
  tn_Enabled :: bool

end
