(* ===== verification/Access_Snapshot.thy ===== *)
theory Access_Snapshot
  imports Model_Types
begin

text \<open>
  The effective access snapshot of \<open>internal/core/access_snapshot.go\<close>, with the node keys and the
  per-user node set of \<open>internal/core/assignable_nodes.go\<close>.

  The maps that the code builds and then ranges over are association lists; the ones it only looks
  up are partial functions. The two orders in which the run time enumerates a map inside
  \<open>BuildEffectiveAccessSnapshot\<close>, that of the active users and that of a user's grants, are the
  arguments \<open>uord\<close> and \<open>gord\<close>, permutations of their argument; the theorems hold for every such
  pair, so no result depends on the enumeration. The clock that stands in for a zero \<open>Now\<close> is an
  argument too. The fields \<open>Steps\<close> and \<open>ExternalOutbounds\<close> of the input, which the function never
  reads, are left out.
\<close>

section \<open>Node keys\<close>

definition NodeKeyOf :: "AssignableNodeType \<Rightarrow> int \<Rightarrow> string" where
  "NodeKeyOf nodeType nodeID = nodeType @ '':'' @ FormatInt nodeID"

text \<open>\<open>strings.SplitN(key, ":", 2)\<close>, and \<open>strconv.ParseInt(s, 10, 64)\<close>.\<close>

fun split_colon :: "string \<Rightarrow> (string \<times> string) option" where
  "split_colon [] = None"
| "split_colon (c # s) =
     (if c = CHR '':'' then Some ([], s) else map_option (\<lambda>(a, b). (c # a, b)) (split_colon s))"

definition ParseNodeKey :: "string \<Rightarrow> (AssignableNodeType \<times> int) option" where
  "ParseNodeKey key =
     (case split_colon key of
        None \<Rightarrow> None
      | Some (t, rest) \<Rightarrow>
          (case ParseInt64 rest of
             None \<Rightarrow> None
           | Some i \<Rightarrow> if i \<le> 0 then None else Some (t, i)))"

section \<open>The per-user node set\<close>

text \<open>Whether the loop over the exceptions skips one that has expired.\<close>

definition exception_expired :: "time \<Rightarrow> UserNodeException \<Rightarrow> bool" where
  "exception_expired now ex = (case ne_ExpiresAt ex of Some t \<Rightarrow> \<not> now < t | None \<Rightarrow> False)"

definition exception_key :: "UserNodeException \<Rightarrow> string" where
  "exception_key ex = NodeKeyOf (ne_NodeType ex) (ne_NodeID ex)"

definition plan_node_key :: "SubscriptionPlanNode \<Rightarrow> string" where
  "plan_node_key pn = NodeKeyOf (pn_NodeType pn) (pn_NodeID pn)"

definition UserEffectiveNodeSet ::
  "SubscriptionPlan option \<Rightarrow> SubscriptionPlanNode list \<Rightarrow> UserNodeException list \<Rightarrow> time \<Rightarrow> string set" where
  "UserEffectiveNodeSet plan planNodes exceptions now =
     (let planKeys = (case plan of
            Some p \<Rightarrow> if sp_Enabled p then plan_node_key ` set (filter pn_Enabled planNodes) else {}
          | None \<Rightarrow> {});
          denied = exception_key `
            set (filter (\<lambda>ex. \<not> exception_expired now ex \<and> ne_Effect ex = UserNodeExceptionDeny) exceptions);
          out = {key \<in> planKeys. key \<notin> denied}
      in fold (\<lambda>ex out.
           if exception_expired now ex \<or> ne_Effect ex \<noteq> UserNodeExceptionAllow then out
           else if exception_key ex \<notin> denied then insert (exception_key ex) out else out)
         exceptions out)"

section \<open>The snapshot\<close>

record EffectiveUserPolicy =
  up_SpeedLimitMbps :: int
  up_TrafficLimitBytes :: int
  up_TrafficResetMode :: string
  up_TrafficResetDay :: int
  up_TrafficResetAnchor :: time
  up_TrafficResetHourAligned :: bool
  up_Source :: string

record EffectiveNodeGrant =
  ng_NodeType :: AssignableNodeType
  ng_NodeID :: int
  ng_DisplayGroup :: string
  ng_Source :: string
  ng_PlanID :: int
  ng_PlanName :: string
  ng_Exception :: "UserNodeException option"

type_synonym user_lists = "(int, int list) gomap"

record EffectiveAccessSnapshot =
  es_At :: time
  es_Users :: "(int, User) gomap"
  es_UserNodes :: "(int, (string, EffectiveNodeGrant) gomap) gomap"
  es_InboundUsers :: user_lists
  es_ProxyPathUsers :: user_lists
  es_ExternalOutboundUsers :: user_lists
  es_NodeUsers :: "(string, int list) gomap"
  es_UserPolicies :: "(int, EffectiveUserPolicy) gomap"
  es_PathInboundIDs :: "(int, int) gomap"

record EffectiveAccessInput =
  ai_Users :: "User list"
  ai_Bindings :: "UserPlanBinding list"
  ai_Plans :: "SubscriptionPlan list"
  ai_PlanNodes :: "SubscriptionPlanNode list"
  ai_Exceptions :: "UserNodeException list"
  ai_Paths :: "ProxyPath list"
  ai_Inbounds :: "Inbound list"
  ai_Now :: time

definition effectiveUserPolicy ::
  "User \<Rightarrow> SubscriptionPlan option \<Rightarrow> UserPlanBinding option \<Rightarrow> EffectiveUserPolicy" where
  "effectiveUserPolicy user plan binding =
     (let speed = 0; traffic = 0; mode = u_TrafficResetMode user; day = u_TrafficResetDay user;
          anchor = 0; source = ''default'';
          (speed, traffic, mode, day, anchor, source) =
            (case plan of
               None \<Rightarrow> (speed, traffic, mode, day, anchor, source)
             | Some p \<Rightarrow> (sp_SpeedLimitMbps p, sp_TrafficLimitBytes p, sp_TrafficResetMode p, sp_TrafficResetDay p,
                 (case Option.bind binding pb_TrafficResetAnchorAt of Some t \<Rightarrow> t | None \<Rightarrow> anchor), ''plan''));
          (speed, source) =
            (if u_SpeedLimitMbps user \<noteq> 0 then (u_SpeedLimitMbps user, ''user_override'') else (speed, source));
          (traffic, mode, day, anchor, source) =
            (if u_TrafficLimitBytes user \<noteq> 0
             then (u_TrafficLimitBytes user, u_TrafficResetMode user, u_TrafficResetDay user, 0, ''user_override'')
             else (traffic, mode, day, anchor, source));
          speed = (if speed < 0 then 0 else speed);
          traffic = (if traffic < 0 then 0 else traffic);
          mode = (if TrimSpace mode = [] then ''monthly'' else mode);
          day = (if day \<le> 0 then 1 else day)
      in \<lparr>up_SpeedLimitMbps = speed, up_TrafficLimitBytes = traffic, up_TrafficResetMode = mode,
          up_TrafficResetDay = day, up_TrafficResetAnchor = anchor,
          up_TrafficResetHourAligned =
            (plan \<noteq> None \<and> u_TrafficLimitBytes user = 0 \<and>
             (case binding of Some b \<Rightarrow> pb_TrafficResetHourAligned b | None \<Rightarrow> False)),
          up_Source = source\<rparr>)"

text \<open>The loops that collect the time-effective bindings and exceptions.\<close>

definition binding_in_force :: "time \<Rightarrow> UserPlanBinding \<Rightarrow> bool" where
  "binding_in_force now b =
     (if \<not> pb_Enabled b then False
      else if (case pb_StartsAt b of Some t \<Rightarrow> now < t | None \<Rightarrow> False) then False
      else if (case pb_ExpiresAt b of Some t \<Rightarrow> \<not> now < t | None \<Rightarrow> False) then False
      else True)"

definition exception_in_force :: "time \<Rightarrow> UserNodeException \<Rightarrow> bool" where
  "exception_in_force now ex =
     (if ne_Status ex \<noteq> [] \<and> ne_Status ex \<noteq> UserNodeExceptionActive then False
      else if (case ne_StartsAt ex of Some t \<Rightarrow> now < t | None \<Rightarrow> False) then False
      else if exception_expired now ex then False
      else True)"

definition plan_grant :: "SubscriptionPlan \<Rightarrow> SubscriptionPlanNode \<Rightarrow> EffectiveNodeGrant" where
  "plan_grant plan pn =
     \<lparr>ng_NodeType = pn_NodeType pn, ng_NodeID = pn_NodeID pn, ng_DisplayGroup = pn_DisplayGroup pn,
      ng_Source = ''plan'', ng_PlanID = sp_ID plan, ng_PlanName = sp_Name plan, ng_Exception = None\<rparr>"

definition exception_grant :: "UserNodeException \<Rightarrow> EffectiveNodeGrant" where
  "exception_grant ex =
     \<lparr>ng_NodeType = ne_NodeType ex, ng_NodeID = ne_NodeID ex, ng_DisplayGroup = [],
      ng_Source = ''exception_allow'', ng_PlanID = 0, ng_PlanName = [], ng_Exception = Some ex\<rparr>"

text \<open>The three loops that build one user's grants.\<close>

definition add_plan_nodes ::
  "SubscriptionPlan option \<Rightarrow> SubscriptionPlanNode list \<Rightarrow> (string, EffectiveNodeGrant) gomap" where
  "add_plan_nodes plan planNodes =
     (case plan of
        None \<Rightarrow> []
      | Some p \<Rightarrow> fold (\<lambda>pn m. AList.update (plan_node_key pn) (plan_grant p pn) m) planNodes [])"

definition apply_denies ::
  "UserNodeException list \<Rightarrow> (string, EffectiveNodeGrant) gomap \<Rightarrow>
   string set \<times> (string, EffectiveNodeGrant) gomap" where
  "apply_denies exs m =
     fold (\<lambda>ex (denied, m).
       if ne_Effect ex = UserNodeExceptionDeny
       then (insert (exception_key ex) denied, AList.delete (exception_key ex) m)
       else (denied, m)) exs ({}, m)"

definition apply_allows ::
  "string set \<Rightarrow> UserNodeException list \<Rightarrow> (string, EffectiveNodeGrant) gomap \<Rightarrow>
   (string, EffectiveNodeGrant) gomap" where
  "apply_allows denied exs m =
     fold (\<lambda>ex m.
       if ne_Effect ex \<noteq> UserNodeExceptionAllow then m
       else if exception_key ex \<in> denied then m
       else AList.update (exception_key ex) (exception_grant ex) m) exs m"

definition user_grants ::
  "SubscriptionPlan option \<Rightarrow> SubscriptionPlanNode list \<Rightarrow> UserNodeException list \<Rightarrow>
   (string, EffectiveNodeGrant) gomap" where
  "user_grants plan planNodes exs =
     (let grantByKey = add_plan_nodes plan planNodes;
          (denied, grantByKey) = apply_denies exs grantByKey
      in apply_allows denied exs grantByKey)"

text \<open>One iteration of the loop over a user's grants: the projection on the per-node views.\<close>

definition project_grant ::
  "(int \<rightharpoonup> ProxyPath) \<Rightarrow> (int \<rightharpoonup> Inbound) \<Rightarrow> int \<Rightarrow> string \<times> EffectiveNodeGrant \<Rightarrow>
   EffectiveAccessSnapshot \<Rightarrow> EffectiveAccessSnapshot" where
  "project_grant pathByID inboundByID userID kg snap =
     (let (key, grant) = kg;
          snap = snap\<lparr>es_NodeUsers := append_at (es_NodeUsers snap) key userID\<rparr>
      in if ng_NodeType grant = AssignableNodeProxyPath then
           (case pathByID (ng_NodeID grant) of
              None \<Rightarrow> snap
            | Some path \<Rightarrow>
                (case inboundByID (pp_InboundID path) of
                   None \<Rightarrow> snap
                 | Some inbound \<Rightarrow>
                     if in_Enabled inbound
                     then snap\<lparr>es_ProxyPathUsers := append_at (es_ProxyPathUsers snap) (ng_NodeID grant) userID,
                               es_InboundUsers := append_at (es_InboundUsers snap) (pp_InboundID path) userID\<rparr>
                     else snap))
         else if ng_NodeType grant = AssignableNodeInbound then
           (case inboundByID (ng_NodeID grant) of
              None \<Rightarrow> snap
            | Some inbound \<Rightarrow>
                if in_Enabled inbound
                then snap\<lparr>es_InboundUsers := append_at (es_InboundUsers snap) (ng_NodeID grant) userID\<rparr>
                else snap)
         else if ng_NodeType grant = AssignableNodeExternalOutbound then
           snap\<lparr>es_ExternalOutboundUsers := append_at (es_ExternalOutboundUsers snap) (ng_NodeID grant) userID\<rparr>
         else snap)"

fun compact_loop :: "int list \<Rightarrow> int list \<Rightarrow> int list" where
  "compact_loop out [] = out"
| "compact_loop out (i # rest) = compact_loop (if i \<noteq> last out then out @ [i] else out) rest"

definition compactSortedUserIDs :: "int list \<Rightarrow> int list" where
  "compactSortedUserIDs list = (if length list < 2 then list else compact_loop (take 1 list) (drop 1 list))"

definition sort_compact :: "('k, int list) gomap \<Rightarrow> ('k, int list) gomap" where
  "sort_compact m = map (\<lambda>(k, l). (k, compactSortedUserIDs (sort l))) m"

definition effective_plan ::
  "EffectiveAccessInput \<Rightarrow> time \<Rightarrow> int \<Rightarrow> SubscriptionPlan option" where
  "effective_plan inp now userID =
     (case index_by pb_UserID (filter (binding_in_force now) (ai_Bindings inp)) userID of
        None \<Rightarrow> None
      | Some b \<Rightarrow>
          (case index_by sp_ID (ai_Plans inp) (pb_PlanID b) of
             None \<Rightarrow> None
           | Some p \<Rightarrow> if sp_Enabled p then Some p else None))"

text \<open>One iteration of the loop over the active users.\<close>

definition resolve_user ::
  "((string, EffectiveNodeGrant) gomap \<Rightarrow> (string, EffectiveNodeGrant) gomap) \<Rightarrow>
   EffectiveAccessInput \<Rightarrow> time \<Rightarrow> int \<Rightarrow> EffectiveAccessSnapshot \<Rightarrow> EffectiveAccessSnapshot" where
  "resolve_user gord inp now userID snap =
     (let user = the (map_of (es_Users snap) userID);
          binding = index_by pb_UserID (filter (binding_in_force now) (ai_Bindings inp)) userID;
          plan = effective_plan inp now userID;
          planNodes = (case plan of
              Some p \<Rightarrow> group_append pn_PlanID (filter pn_Enabled (ai_PlanNodes inp)) (sp_ID p) | None \<Rightarrow> []);
          exs = group_append ne_UserID (filter (exception_in_force now) (ai_Exceptions inp)) userID;
          grantByKey = user_grants plan planNodes exs;
          snap = (if length grantByKey > 0
                  then snap\<lparr>es_UserNodes := AList.update userID grantByKey (es_UserNodes snap)\<rparr> else snap);
          snap = snap\<lparr>es_UserPolicies :=
                   AList.update userID (effectiveUserPolicy user plan binding) (es_UserPolicies snap)\<rparr>
      in fold (project_grant (index_by pp_ID (ai_Paths inp)) (index_by in_ID (ai_Inbounds inp)) userID)
           (gord grantByKey) snap)"

definition BuildEffectiveAccessSnapshot ::
  "(int list \<Rightarrow> int list) \<Rightarrow> ((string, EffectiveNodeGrant) gomap \<Rightarrow> (string, EffectiveNodeGrant) gomap) \<Rightarrow>
   time \<Rightarrow> EffectiveAccessInput \<Rightarrow> EffectiveAccessSnapshot" where
  "BuildEffectiveAccessSnapshot uord gord clock inp =
     (let now = (if IsZero (ai_Now inp) then clock else ai_Now inp);
          users = fold (\<lambda>u m. if u_Status u = ''active'' then AList.update (u_ID u) u m else m) (ai_Users inp) [];
          pathInbounds = fold (\<lambda>p m. AList.update (pp_ID p) (pp_InboundID p) m) (ai_Paths inp) [];
          snap = \<lparr>es_At = now, es_Users = users, es_UserNodes = [], es_InboundUsers = [],
                  es_ProxyPathUsers = [], es_ExternalOutboundUsers = [], es_NodeUsers = [],
                  es_UserPolicies = [], es_PathInboundIDs = pathInbounds\<rparr>;
          snap = fold (resolve_user gord inp now) (uord (map_keys users)) snap
      in snap\<lparr>es_InboundUsers := sort_compact (es_InboundUsers snap),
              es_ProxyPathUsers := sort_compact (es_ProxyPathUsers snap),
              es_ExternalOutboundUsers := sort_compact (es_ExternalOutboundUsers snap),
              es_NodeUsers := sort_compact (es_NodeUsers snap)\<rparr>)"

text \<open>Reading the snapshot. A nil map is \<open>None\<close>.\<close>

definition EffectiveNodeKeys :: "EffectiveAccessSnapshot \<Rightarrow> int \<Rightarrow> string set option" where
  "EffectiveNodeKeys s userID =
     (case map_of (es_UserNodes s) userID of
        None \<Rightarrow> None
      | Some grants \<Rightarrow> if length grants = 0 then None else Some (set (map_keys grants)))"

definition EffectiveNodeGroups :: "EffectiveAccessSnapshot \<Rightarrow> int \<Rightarrow> (string, string) gomap option" where
  "EffectiveNodeGroups s userID =
     (case map_of (es_UserNodes s) userID of
        None \<Rightarrow> None
      | Some grants \<Rightarrow>
          Some (fold (\<lambda>(key, grant) out.
                  if TrimSpace (ng_DisplayGroup grant) \<noteq> []
                  then AList.update key (TrimSpace (ng_DisplayGroup grant)) out else out) grants []))"

section \<open>Lemmas\<close>

subsection \<open>Node keys\<close>

lemma split_colon_append: "CHR '':'' \<notin> set t \<Longrightarrow> split_colon (t @ CHR '':'' # s) = Some (t, s)"
  by (induction t) auto

lemma append_colon_inj:
  assumes "t @ CHR '':'' # s = t' @ CHR '':'' # s'" and "CHR '':'' \<notin> set s" and "CHR '':'' \<notin> set s'"
  shows "t = t' \<and> s = s'"
  using assms
proof (induction t arbitrary: t')
  case Nil
  then show ?case by (cases t') auto
next
  case (Cons c t)
  then show ?case by (cases t') auto
qed

lemma NodeKeyOf_eq_iff [simp]: "NodeKeyOf t n = NodeKeyOf t' n' \<longleftrightarrow> t = t' \<and> n = n'"
proof
  assume "NodeKeyOf t n = NodeKeyOf t' n'"
  then have "t = t' \<and> FormatInt n = FormatInt n'"
    unfolding NodeKeyOf_def by (intro append_colon_inj) (simp_all add: FormatInt_colon)
  then show "t = t' \<and> n = n'" by (auto intro: FormatInt_inj)
qed simp

subsection \<open>One user's grants\<close>

lemma fold_update_lookup:
  "map_of (fold (\<lambda>x m. AList.update (f x) (g x) m) xs m0) k =
     (case index_by f xs k of Some x \<Rightarrow> Some (g x) | None \<Rightarrow> map_of m0 k)"
  by (induction xs rule: rev_induct) (auto simp: index_by_snoc AList.update_conv' index_by_def split: option.splits)

lemma gomap_ok_fold_update: "gomap_ok m0 \<Longrightarrow> gomap_ok (fold (\<lambda>x m. AList.update (f x) (g x) m) xs m0)"
  by (induction xs arbitrary: m0) auto

lemma add_plan_nodes_lookup:
  "map_of (add_plan_nodes plan pns) k =
     Option.bind plan (\<lambda>p. map_option (plan_grant p) (index_by plan_node_key pns k))"
  by (auto simp: add_plan_nodes_def fold_update_lookup split: option.splits)

lemma apply_denies_eq:
  "apply_denies exs m =
     (exception_key ` set (filter (\<lambda>ex. ne_Effect ex = UserNodeExceptionDeny) exs),
      filter (\<lambda>(k, g). k \<notin> exception_key ` set (filter (\<lambda>ex. ne_Effect ex = UserNodeExceptionDeny) exs)) m)"
proof (induction exs rule: rev_induct)
  case Nil
  then show ?case by (simp add: apply_denies_def case_prod_unfold)
next
  case (snoc ex exs)
  then show ?case
    by (auto simp: apply_denies_def AList.delete_eq filter_filter case_prod_unfold intro!: filter_cong)
qed

lemma apply_allows_filter:
  "apply_allows denied exs m =
     fold (\<lambda>ex m. AList.update (exception_key ex) (exception_grant ex) m)
       (filter (\<lambda>ex. ne_Effect ex = UserNodeExceptionAllow \<and> exception_key ex \<notin> denied) exs) m"
  unfolding apply_allows_def by (induction exs arbitrary: m) auto

lemma index_by_filter_key:
  "\<not> D k \<Longrightarrow> index_by f (filter (\<lambda>x. P x \<and> \<not> D (f x)) xs) k = index_by f (filter P xs) k"
  "D k \<Longrightarrow> index_by f (filter (\<lambda>x. P x \<and> \<not> D (f x)) xs) k = None"
  by (induction xs rule: rev_induct) (auto simp: index_by_def)

lemma user_grants_lookup:
  "map_of (user_grants plan pns exs) k =
     (if k \<in> exception_key ` set (filter (\<lambda>ex. ne_Effect ex = UserNodeExceptionDeny) exs) then None
      else case index_by exception_key (filter (\<lambda>ex. ne_Effect ex = UserNodeExceptionAllow) exs) k of
             Some ex \<Rightarrow> Some (exception_grant ex)
           | None \<Rightarrow> Option.bind plan (\<lambda>p. map_option (plan_grant p) (index_by plan_node_key pns k)))"
proof -
  let ?D = "exception_key ` set (filter (\<lambda>ex. ne_Effect ex = UserNodeExceptionDeny) exs)"
  have ok: "gomap_ok (add_plan_nodes plan pns)"
    by (simp add: add_plan_nodes_def gomap_ok_fold_update split: option.splits)
  show ?thesis
    using index_by_filter_key [of "\<lambda>k. k \<in> ?D" k exception_key "\<lambda>ex. ne_Effect ex = UserNodeExceptionAllow" exs]
    by (auto simp: user_grants_def apply_denies_eq apply_allows_filter fold_update_lookup
        map_of_filter_key [OF ok] add_plan_nodes_lookup split: option.splits)
qed

lemma user_grants_dom:
  "(map_of (user_grants plan pns exs) k \<noteq> None) \<longleftrightarrow>
     k \<notin> exception_key ` set (filter (\<lambda>ex. ne_Effect ex = UserNodeExceptionDeny) exs) \<and>
     (k \<in> exception_key ` set (filter (\<lambda>ex. ne_Effect ex = UserNodeExceptionAllow) exs) \<or>
      (\<exists>p. plan = Some p \<and> k \<in> plan_node_key ` set pns))"
  unfolding user_grants_lookup
  using index_by_None [of exception_key "filter (\<lambda>ex. ne_Effect ex = UserNodeExceptionAllow) exs" k]
    index_by_None [of plan_node_key pns k]
  by (cases "index_by exception_key (filter (\<lambda>ex. ne_Effect ex = UserNodeExceptionAllow) exs) k"; cases plan)
    (simp_all only: option.simps Option.bind.simps map_option_is_None simp_thms if_True if_False split: if_splits, simp_all)

lemma gomap_ok_user_grants: "gomap_ok (user_grants plan pns exs)"
proof -
  have "gomap_ok (add_plan_nodes plan pns)"
    by (simp add: add_plan_nodes_def gomap_ok_fold_update split: option.splits)
  then show ?thesis
    by (simp add: user_grants_def apply_denies_eq apply_allows_filter gomap_ok_fold_update gomap_ok_filter)
qed

lemma user_grants_key:
  "map_of (user_grants plan pns exs) k = Some g \<Longrightarrow> k = NodeKeyOf (ng_NodeType g) (ng_NodeID g)"
  by (auto simp: user_grants_lookup plan_grant_def exception_grant_def exception_key_def plan_node_key_def
      bind_eq_Some_conv dest!: index_by_Some split: if_splits option.splits)

subsection \<open>Sorting and compacting\<close>

lemma compact_loop_eq: "out \<noteq> [] \<Longrightarrow> compact_loop out l = butlast out @ remdups_adj (last out # l)"
proof (induction l arbitrary: out)
  case Nil
  then show ?case by simp
next
  case (Cons i l)
  then show ?case
    by (cases "i = last out") (auto simp: append_butlast_last_id)
qed

lemma compactSortedUserIDs_eq: "compactSortedUserIDs l = remdups_adj l"
proof (cases l)
  case (Cons a r)
  then show ?thesis by (cases r) (auto simp: compactSortedUserIDs_def compact_loop_eq)
qed (simp add: compactSortedUserIDs_def)

lemma sort_compact_lookup:
  "map_of (sort_compact m) k = map_option (\<lambda>l. sorted_list_of_set (set l)) (map_of m k)"
  by (simp add: sort_compact_def map_of_map compactSortedUserIDs_eq remdups_adj_sort_eq)

lemma sort_compact_keys [simp]: "map_keys (sort_compact m) = map_keys m"
  by (simp add: sort_compact_def case_prod_unfold comp_def)

subsection \<open>The views as lists of appended pairs\<close>

definition inbound_enabled :: "(int \<rightharpoonup> Inbound) \<Rightarrow> int \<Rightarrow> bool" where
  "inbound_enabled inb i = (case inb i of Some x \<Rightarrow> in_Enabled x | None \<Rightarrow> False)"

definition emit_node :: "int \<Rightarrow> string \<times> EffectiveNodeGrant \<Rightarrow> (string \<times> int) list" where
  "emit_node u kg = [(fst kg, u)]"

definition emit_path :: "(int \<rightharpoonup> ProxyPath) \<Rightarrow> (int \<rightharpoonup> Inbound) \<Rightarrow> int \<Rightarrow> string \<times> EffectiveNodeGrant \<Rightarrow> (int \<times> int) list" where
  "emit_path pth inb u kg =
     (case pth (ng_NodeID (snd kg)) of
        Some path \<Rightarrow> if ng_NodeType (snd kg) = AssignableNodeProxyPath \<and> inbound_enabled inb (pp_InboundID path)
                    then [(ng_NodeID (snd kg), u)] else []
      | None \<Rightarrow> [])"

definition emit_inbound :: "(int \<rightharpoonup> ProxyPath) \<Rightarrow> (int \<rightharpoonup> Inbound) \<Rightarrow> int \<Rightarrow> string \<times> EffectiveNodeGrant \<Rightarrow> (int \<times> int) list" where
  "emit_inbound pth inb u kg =
     (if ng_NodeType (snd kg) = AssignableNodeProxyPath then
        (case pth (ng_NodeID (snd kg)) of
           Some path \<Rightarrow> if inbound_enabled inb (pp_InboundID path) then [(pp_InboundID path, u)] else []
         | None \<Rightarrow> [])
      else if ng_NodeType (snd kg) = AssignableNodeInbound \<and> inbound_enabled inb (ng_NodeID (snd kg))
      then [(ng_NodeID (snd kg), u)] else [])"

definition emit_external :: "int \<Rightarrow> string \<times> EffectiveNodeGrant \<Rightarrow> (int \<times> int) list" where
  "emit_external u kg = (if ng_NodeType (snd kg) = AssignableNodeExternalOutbound then [(ng_NodeID (snd kg), u)] else [])"

lemma project_grant_views:
  "es_NodeUsers (project_grant pth inb u kg snap) = append_all (emit_node u kg) (es_NodeUsers snap)"
  "es_ProxyPathUsers (project_grant pth inb u kg snap) = append_all (emit_path pth inb u kg) (es_ProxyPathUsers snap)"
  "es_InboundUsers (project_grant pth inb u kg snap) = append_all (emit_inbound pth inb u kg) (es_InboundUsers snap)"
  "es_ExternalOutboundUsers (project_grant pth inb u kg snap) = append_all (emit_external u kg) (es_ExternalOutboundUsers snap)"
  "es_Users (project_grant pth inb u kg snap) = es_Users snap"
  "es_UserNodes (project_grant pth inb u kg snap) = es_UserNodes snap"
  "es_UserPolicies (project_grant pth inb u kg snap) = es_UserPolicies snap"
  "es_PathInboundIDs (project_grant pth inb u kg snap) = es_PathInboundIDs snap"
  "es_At (project_grant pth inb u kg snap) = es_At snap"
  by (auto simp: project_grant_def emit_node_def emit_path_def emit_inbound_def emit_external_def inbound_enabled_def Let_def
      split: prod.splits option.splits)

lemma fold_project_views:
  "es_NodeUsers (fold (project_grant pth inb u) gs snap) = append_all (concat (map (emit_node u) gs)) (es_NodeUsers snap)"
  "es_ProxyPathUsers (fold (project_grant pth inb u) gs snap) = append_all (concat (map (emit_path pth inb u) gs)) (es_ProxyPathUsers snap)"
  "es_InboundUsers (fold (project_grant pth inb u) gs snap) = append_all (concat (map (emit_inbound pth inb u) gs)) (es_InboundUsers snap)"
  "es_ExternalOutboundUsers (fold (project_grant pth inb u) gs snap) = append_all (concat (map (emit_external u) gs)) (es_ExternalOutboundUsers snap)"
  "es_Users (fold (project_grant pth inb u) gs snap) = es_Users snap"
  "es_UserNodes (fold (project_grant pth inb u) gs snap) = es_UserNodes snap"
  "es_UserPolicies (fold (project_grant pth inb u) gs snap) = es_UserPolicies snap"
  "es_PathInboundIDs (fold (project_grant pth inb u) gs snap) = es_PathInboundIDs snap"
  "es_At (fold (project_grant pth inb u) gs snap) = es_At snap"
  by (induction gs arbitrary: snap) (simp_all add: project_grant_views append_all_append)

text \<open>The grants the loop computes for a user, named for the statements below.\<close>

definition grants_of :: "EffectiveAccessInput \<Rightarrow> time \<Rightarrow> int \<Rightarrow> (string, EffectiveNodeGrant) gomap" where
  "grants_of inp now u =
     user_grants (effective_plan inp now u)
       (case effective_plan inp now u of
          Some p \<Rightarrow> group_append pn_PlanID (filter pn_Enabled (ai_PlanNodes inp)) (sp_ID p) | None \<Rightarrow> [])
       (group_append ne_UserID (filter (exception_in_force now) (ai_Exceptions inp)) u)"

definition policy_of :: "EffectiveAccessInput \<Rightarrow> time \<Rightarrow> User \<Rightarrow> EffectiveUserPolicy" where
  "policy_of inp now user =
     effectiveUserPolicy user (effective_plan inp now (u_ID user))
       (index_by pb_UserID (filter (binding_in_force now) (ai_Bindings inp)) (u_ID user))"

abbreviation path_index :: "EffectiveAccessInput \<Rightarrow> int \<rightharpoonup> ProxyPath" where
  "path_index inp \<equiv> index_by pp_ID (ai_Paths inp)"

abbreviation inbound_index :: "EffectiveAccessInput \<Rightarrow> int \<rightharpoonup> Inbound" where
  "inbound_index inp \<equiv> index_by in_ID (ai_Inbounds inp)"

lemma resolve_user_eq:
  "resolve_user gord inp now u snap =
     fold (project_grant (path_index inp) (inbound_index inp) u) (gord (grants_of inp now u))
       (snap\<lparr>es_UserNodes := (if grants_of inp now u = [] then es_UserNodes snap
                              else AList.update u (grants_of inp now u) (es_UserNodes snap)),
             es_UserPolicies := AList.update u
               (effectiveUserPolicy (the (map_of (es_Users snap) u)) (effective_plan inp now u)
                  (index_by pb_UserID (filter (binding_in_force now) (ai_Bindings inp)) u)) (es_UserPolicies snap)\<rparr>)"
  by (auto simp: resolve_user_def grants_of_def Let_def)

definition emits ::
  "(int \<Rightarrow> string \<times> EffectiveNodeGrant \<Rightarrow> ('k \<times> int) list) \<Rightarrow>
   ((string, EffectiveNodeGrant) gomap \<Rightarrow> (string, EffectiveNodeGrant) gomap) \<Rightarrow>
   EffectiveAccessInput \<Rightarrow> time \<Rightarrow> int list \<Rightarrow> ('k \<times> int) list" where
  "emits emit gord inp now us = concat (map (\<lambda>u. concat (map (emit u) (gord (grants_of inp now u)))) us)"

lemma fold_resolve_views:
  "es_NodeUsers (fold (resolve_user gord inp now) us snap) =
     append_all (emits emit_node gord inp now us) (es_NodeUsers snap)"
  "es_ProxyPathUsers (fold (resolve_user gord inp now) us snap) =
     append_all (emits (emit_path (path_index inp) (inbound_index inp)) gord inp now us) (es_ProxyPathUsers snap)"
  "es_InboundUsers (fold (resolve_user gord inp now) us snap) =
     append_all (emits (emit_inbound (path_index inp) (inbound_index inp)) gord inp now us) (es_InboundUsers snap)"
  "es_ExternalOutboundUsers (fold (resolve_user gord inp now) us snap) =
     append_all (emits emit_external gord inp now us) (es_ExternalOutboundUsers snap)"
  "es_Users (fold (resolve_user gord inp now) us snap) = es_Users snap"
  "es_PathInboundIDs (fold (resolve_user gord inp now) us snap) = es_PathInboundIDs snap"
  "es_At (fold (resolve_user gord inp now) us snap) = es_At snap"
  by (induction us arbitrary: snap)
    (simp_all add: emits_def resolve_user_eq fold_project_views append_all_append)

lemma fold_resolve_UserNodes:
  "map_of (es_UserNodes (fold (resolve_user gord inp now) us snap)) u =
     (if u \<in> set us \<and> grants_of inp now u \<noteq> [] then Some (grants_of inp now u) else map_of (es_UserNodes snap) u)"
  by (induction us arbitrary: snap) (auto simp: resolve_user_eq fold_project_views AList.update_conv')

lemma fold_resolve_UserPolicies:
  "map_of (es_UserPolicies (fold (resolve_user gord inp now) us snap)) u =
     (if u \<in> set us
      then Some (effectiveUserPolicy (the (map_of (es_Users snap) u)) (effective_plan inp now u)
             (index_by pb_UserID (filter (binding_in_force now) (ai_Bindings inp)) u))
      else map_of (es_UserPolicies snap) u)"
  by (induction us arbitrary: snap) (auto simp: resolve_user_eq fold_project_views AList.update_conv')

subsection \<open>What the snapshot promises\<close>

text \<open>
  The specification, written over the input rows: which nodes a user may use, with the priority
  deny exception, allow exception, active plan, default deny; and how a set of users is listed.
\<close>

definition active_user :: "EffectiveAccessInput \<Rightarrow> int \<Rightarrow> bool" where
  "active_user inp u \<longleftrightarrow> (\<exists>x\<in>set (ai_Users inp). u_ID x = u \<and> u_Status x = ''active'')"

definition has_exception :: "string \<Rightarrow> EffectiveAccessInput \<Rightarrow> time \<Rightarrow> int \<Rightarrow> string \<Rightarrow> int \<Rightarrow> bool" where
  "has_exception effect inp now u t n \<longleftrightarrow>
     (\<exists>ex\<in>set (ai_Exceptions inp). exception_in_force now ex \<and> ne_UserID ex = u \<and> ne_Effect ex = effect \<and>
        ne_NodeType ex = t \<and> ne_NodeID ex = n)"

definition in_plan :: "EffectiveAccessInput \<Rightarrow> time \<Rightarrow> int \<Rightarrow> string \<Rightarrow> int \<Rightarrow> bool" where
  "in_plan inp now u t n \<longleftrightarrow>
     (\<exists>p. effective_plan inp now u = Some p \<and>
        (\<exists>pn\<in>set (ai_PlanNodes inp). pn_Enabled pn \<and> pn_PlanID pn = sp_ID p \<and>
           pn_NodeType pn = t \<and> pn_NodeID pn = n))"

definition node_granted :: "EffectiveAccessInput \<Rightarrow> time \<Rightarrow> int \<Rightarrow> string \<Rightarrow> int \<Rightarrow> bool" where
  "node_granted inp now u t n \<longleftrightarrow>
     active_user inp u \<and> \<not> has_exception UserNodeExceptionDeny inp now u t n \<and>
     (has_exception UserNodeExceptionAllow inp now u t n \<or> in_plan inp now u t n)"

definition listed :: "int set \<Rightarrow> int list option" where
  "listed us = (if us = {} then None else Some (sorted_list_of_set us))"

definition snapshot_time :: "time \<Rightarrow> EffectiveAccessInput \<Rightarrow> time" where
  "snapshot_time clock inp = (if IsZero (ai_Now inp) then clock else ai_Now inp)"

lemma grants_of_dom:
  "(map_of (grants_of inp now u) (NodeKeyOf t n) \<noteq> None) \<longleftrightarrow>
     \<not> has_exception UserNodeExceptionDeny inp now u t n \<and>
     (has_exception UserNodeExceptionAllow inp now u t n \<or> in_plan inp now u t n)"
proof -
  have key: "NodeKeyOf t n \<in> exception_key ` set (filter (\<lambda>ex. ne_Effect ex = e)
        (group_append ne_UserID (filter (exception_in_force now) (ai_Exceptions inp)) u)) \<longleftrightarrow>
      has_exception e inp now u t n" for e
    by (auto simp: has_exception_def group_append_filter exception_key_def image_iff)
  have plan: "(\<exists>p. effective_plan inp now u = Some p \<and> NodeKeyOf t n \<in> plan_node_key ` set
        (case effective_plan inp now u of
           Some p \<Rightarrow> group_append pn_PlanID (filter pn_Enabled (ai_PlanNodes inp)) (sp_ID p) | None \<Rightarrow> [])) \<longleftrightarrow>
      in_plan inp now u t n"
    by (auto simp: in_plan_def group_append_filter plan_node_key_def image_iff)
  show ?thesis unfolding grants_of_def user_grants_dom key plan ..
qed

lemma grants_of_mem:
  "(k, g) \<in> set (grants_of inp now u) \<longleftrightarrow> map_of (grants_of inp now u) k = Some g"
  by (simp add: grants_of_def gomap_ok_user_grants)

lemma grants_of_key:
  "map_of (grants_of inp now u) k = Some g \<Longrightarrow> k = NodeKeyOf (ng_NodeType g) (ng_NodeID g)"
  unfolding grants_of_def by (rule user_grants_key)

lemma grants_of_ex:
  "(\<exists>kg\<in>set (grants_of inp now u). ng_NodeType (snd kg) = t \<and> ng_NodeID (snd kg) = n) \<longleftrightarrow>
     map_of (grants_of inp now u) (NodeKeyOf t n) \<noteq> None"
  (is "?L \<longleftrightarrow> ?R")
proof
  assume ?L
  then obtain k g where g: "map_of (grants_of inp now u) k = Some g" "ng_NodeType g = t" "ng_NodeID g = n"
    by (auto simp: grants_of_mem)
  with grants_of_key [OF g(1)] show ?R by simp
next
  assume ?R
  then obtain g where g: "map_of (grants_of inp now u) (NodeKeyOf t n) = Some g" by auto
  then have "NodeKeyOf t n = NodeKeyOf (ng_NodeType g) (ng_NodeID g)"
    by (rule grants_of_key)
  with g show ?L by (auto simp: grants_of_mem intro!: bexI [of _ "(NodeKeyOf t n, g)"])
qed

lemma active_users_fold:
  "fold (\<lambda>u m. if u_Status u = ''active'' then AList.update (u_ID u) u m else m) us m =
   fold (\<lambda>u m. AList.update (u_ID u) u m) (filter (\<lambda>u. u_Status u = ''active'') us) m"
  by (induction us arbitrary: m) auto

lemma active_users_keys:
  "fst ` set (fold (\<lambda>u m. if u_Status u = ''active'' then AList.update (u_ID u) u m else m) (ai_Users inp) []) =
   {u. active_user inp u}"
proof -
  have "u \<in> fst ` set (fold (\<lambda>u m. AList.update (u_ID u) u m) (filter (\<lambda>u. u_Status u = ''active'') (ai_Users inp)) []) \<longleftrightarrow>
      active_user inp u" for u
  proof (cases "index_by u_ID (filter (\<lambda>u. u_Status u = ''active'') (ai_Users inp)) u")
    case None
    then have "\<not> active_user inp u"
      unfolding index_by_None by (auto simp: active_user_def)
    moreover from None have "map_of (fold (\<lambda>u m. AList.update (u_ID u) u m)
        (filter (\<lambda>u. u_Status u = ''active'') (ai_Users inp)) []) u = None"
      by (simp add: fold_update_lookup)
    ultimately show ?thesis by (simp add: map_of_None_notin)
  next
    case (Some x)
    with index_by_Some [OF Some] have "active_user inp u" by (auto simp: active_user_def)
    moreover from Some have "map_of (fold (\<lambda>u m. AList.update (u_ID u) u m)
        (filter (\<lambda>u. u_Status u = ''active'') (ai_Users inp)) []) u \<noteq> None"
      by (simp add: fold_update_lookup)
    ultimately show ?thesis by (simp only: map_of_None_notin not_not)
  qed
  then show ?thesis by (auto simp: active_users_fold)
qed

lemma emits_users:
  assumes gord: "\<And>m. mset (gord m) = mset m" and own: "\<And>v kg k u. (k, u) \<in> set (emit v kg) \<Longrightarrow> u = v"
  shows "{u. (k, u) \<in> set (emits emit gord inp now us)} =
     {u. u \<in> set us \<and> (\<exists>kg\<in>set (grants_of inp now u). (k, u) \<in> set (emit u kg))}"
proof -
  have "set (gord m) = set m" for m using gord [of m] by (rule mset_eq_setD)
  then show ?thesis unfolding emits_def by (simp, blast dest: own)
qed

lemma view_lookup:
  "map_of (sort_compact (append_all ps [])) k = listed {u. (k, u) \<in> set ps}"
proof (cases "k \<in> fst ` set ps")
  case True
  moreover have "set (map snd (filter (\<lambda>p. fst p = k) ps)) = {u. (k, u) \<in> set ps}" by force
  ultimately show ?thesis
    by (auto simp: sort_compact_lookup append_all_lookup listed_def)
next
  case False
  then have "{u. (k, u) \<in> set ps} = {}" by force
  with False show ?thesis by (simp add: sort_compact_lookup append_all_lookup listed_def)
qed

lemma Build_views:
  fixes clock :: time and inp :: EffectiveAccessInput
  assumes uord: "\<And>us. mset (uord us) = mset us" and gord: "\<And>m. mset (gord m) = mset m"
  defines "snap \<equiv> BuildEffectiveAccessSnapshot uord gord clock inp" and "now \<equiv> snapshot_time clock inp"
  shows
  "map_of (es_NodeUsers snap) key = listed {u. active_user inp u \<and> map_of (grants_of inp now u) key \<noteq> None}" (is ?N)
  "map_of (es_ProxyPathUsers snap) i = listed {u. active_user inp u \<and>
     (\<exists>kg\<in>set (grants_of inp now u). (i, u) \<in> set (emit_path (path_index inp) (inbound_index inp) u kg))}" (is ?P)
  "map_of (es_InboundUsers snap) i = listed {u. active_user inp u \<and>
     (\<exists>kg\<in>set (grants_of inp now u). (i, u) \<in> set (emit_inbound (path_index inp) (inbound_index inp) u kg))}" (is ?I)
  "map_of (es_ExternalOutboundUsers snap) i = listed {u. active_user inp u \<and>
     (\<exists>kg\<in>set (grants_of inp now u). (i, u) \<in> set (emit_external u kg))}" (is ?E)
  "map_of (es_UserNodes snap) u =
     (if active_user inp u \<and> grants_of inp now u \<noteq> [] then Some (grants_of inp now u) else None)" (is ?U)
proof -
  let ?users = "fold (\<lambda>u m. if u_Status u = ''active'' then AList.update (u_ID u) u m else m) (ai_Users inp) []"
  have us: "set (uord (map_keys ?users)) = {u. active_user inp u}"
    using mset_eq_setD [OF uord, of "map_keys ?users"] active_users_keys by simp
  note eqs = snap_def now_def BuildEffectiveAccessSnapshot_def snapshot_time_def [symmetric] Let_def
  have path: "(i, u) \<in> set (emit_path pth inb v kg) \<Longrightarrow> u = v" for i u v pth inb kg
    by (auto simp: emit_path_def split: option.splits if_splits)
  have inbound: "(i, u) \<in> set (emit_inbound pth inb v kg) \<Longrightarrow> u = v" for i u v pth inb kg
    by (auto simp: emit_inbound_def split: option.splits if_splits)
  have external: "(i, u) \<in> set (emit_external v kg) \<Longrightarrow> u = v" for i u v kg
    by (auto simp: emit_external_def split: if_splits)
  have node: "(k, u) \<in> set (emit_node v kg) \<Longrightarrow> u = v" for k u v kg
    by (simp add: emit_node_def)
  have key: "(\<exists>kg\<in>set (grants_of inp now v). (key, v) \<in> set (emit_node v kg)) \<longleftrightarrow> map_of (grants_of inp now v) key \<noteq> None" for v
    by (force simp: map_of_None_notin emit_node_def)
  show ?N by (simp only: key [symmetric]) (simp add: eqs fold_resolve_views view_lookup emits_users [OF gord node] us)
  show ?P by (simp add: eqs fold_resolve_views view_lookup emits_users [OF gord path] us)
  show ?I by (simp add: eqs fold_resolve_views view_lookup emits_users [OF gord inbound] us)
  show ?E by (simp add: eqs fold_resolve_views view_lookup emits_users [OF gord external] us)
  show ?U using us by (simp add: eqs fold_resolve_UserNodes)
qed

lemma emit_inbound_mem:
  "(i, u) \<in> set (emit_inbound pth inb u kg) \<longleftrightarrow> inbound_enabled inb i \<and>
     (ng_NodeType (snd kg) = AssignableNodeInbound \<and> ng_NodeID (snd kg) = i \<or>
      ng_NodeType (snd kg) = AssignableNodeProxyPath \<and>
      (\<exists>path. pth (ng_NodeID (snd kg)) = Some path \<and> pp_InboundID path = i))"
  by (cases "pth (ng_NodeID (snd kg))") (auto simp: emit_inbound_def)

lemma emit_path_mem:
  "(i, u) \<in> set (emit_path pth inb u kg) \<longleftrightarrow>
     (\<exists>path. pth i = Some path \<and> inbound_enabled inb (pp_InboundID path)) \<and>
     ng_NodeType (snd kg) = AssignableNodeProxyPath \<and> ng_NodeID (snd kg) = i"
  by (cases "pth (ng_NodeID (snd kg))") (auto simp: emit_path_def)

lemma node_granted_ex:
  "active_user inp u \<Longrightarrow>
   (\<exists>kg\<in>set (grants_of inp now u). ng_NodeType (snd kg) = t \<and> ng_NodeID (snd kg) = n) \<longleftrightarrow> node_granted inp now u t n"
  by (simp only: grants_of_ex grants_of_dom node_granted_def simp_thms)

lemma node_granted_active: "\<not> active_user inp u \<Longrightarrow> \<not> node_granted inp now u t n"
  by (simp add: node_granted_def)

lemma inbound_reach:
  "active_user inp u \<and>
   (\<exists>kg\<in>set (grants_of inp now u). (i, u) \<in> set (emit_inbound (path_index inp) (inbound_index inp) u kg)) \<longleftrightarrow>
     inbound_enabled (inbound_index inp) i \<and>
     (node_granted inp now u AssignableNodeInbound i \<or>
      (\<exists>p path. path_index inp p = Some path \<and> pp_InboundID path = i \<and> node_granted inp now u AssignableNodeProxyPath p))"
proof (cases "active_user inp u")
  case True
  then show ?thesis unfolding emit_inbound_mem node_granted_ex [OF True, symmetric] by blast
qed (simp add: node_granted_active)

lemma path_reach:
  "active_user inp u \<and>
   (\<exists>kg\<in>set (grants_of inp now u). (p, u) \<in> set (emit_path (path_index inp) (inbound_index inp) u kg)) \<longleftrightarrow>
     (\<exists>path. path_index inp p = Some path \<and> inbound_enabled (inbound_index inp) (pp_InboundID path)) \<and>
     node_granted inp now u AssignableNodeProxyPath p"
proof (cases "active_user inp u")
  case True
  then show ?thesis unfolding emit_path_mem node_granted_ex [OF True, symmetric] by blast
qed (simp add: node_granted_active)

lemma external_reach:
  "active_user inp u \<and> (\<exists>kg\<in>set (grants_of inp now u). (e, u) \<in> set (emit_external u kg)) \<longleftrightarrow>
     node_granted inp now u AssignableNodeExternalOutbound e"
proof (cases "active_user inp u")
  case True
  then show ?thesis unfolding node_granted_ex [OF True, symmetric] by (auto simp: emit_external_def)
qed (simp add: node_granted_active)

lemma in_force_unexpired: "exception_in_force now ex \<Longrightarrow> \<not> exception_expired now ex"
  by (simp add: exception_in_force_def split: if_splits)

lemma effective_plan_enabled: "effective_plan inp now u = Some p \<Longrightarrow> sp_Enabled p"
  by (auto simp: effective_plan_def split: option.splits if_splits)

lemma fold_insert_image:
  "fold (\<lambda>x out. if skip x then out else if ok x then insert (f x) out else out) xs S =
   S \<union> f ` set (filter (\<lambda>x. \<not> skip x \<and> ok x) xs)"
  by (induction xs arbitrary: S) auto

lemma UserEffectiveNodeSet_fold:
  "UserEffectiveNodeSet plan planNodes exs now =
     (let live = filter (\<lambda>ex. \<not> exception_expired now ex) exs;
          denied = exception_key ` set (filter (\<lambda>ex. ne_Effect ex = UserNodeExceptionDeny) live)
      in {k. k \<notin> denied \<and>
             (k \<in> exception_key ` set (filter (\<lambda>ex. ne_Effect ex = UserNodeExceptionAllow) live) \<or>
              (\<exists>p. plan = Some p \<and> sp_Enabled p \<and> k \<in> plan_node_key ` set (filter pn_Enabled planNodes)))})"
  by (auto simp: UserEffectiveNodeSet_def Let_def fold_insert_image split: option.splits)

section \<open>Properties\<close>

definition ex_user :: "int \<Rightarrow> User" where
  "ex_user i = \<lparr>u_ID = i, u_Status = ''active'', u_SpeedLimitMbps = 0, u_TrafficLimitBytes = 0,
     u_TrafficResetMode = [], u_TrafficResetDay = 0\<rparr>"

definition ex_exception :: "int \<Rightarrow> string \<Rightarrow> string \<Rightarrow> int \<Rightarrow> UserNodeException" where
  "ex_exception u e t n = \<lparr>ne_ID = 1, ne_UserID = u, ne_NodeType = t, ne_NodeID = n, ne_Effect = e, ne_Reason = [],
     ne_Status = ''active'', ne_StartsAt = None, ne_ExpiresAt = None, ne_CreatedBy = None, ne_CreatedAt = 1\<rparr>"

definition ex_input :: EffectiveAccessInput where
  "ex_input = \<lparr>ai_Users = [ex_user 2, ex_user 1], ai_Bindings = [], ai_Plans = [], ai_PlanNodes = [],
     ai_Exceptions = [ex_exception 1 ''allow'' ''inbound'' 7, ex_exception 2 ''allow'' ''inbound'' 7,
                      ex_exception 2 ''deny'' ''inbound'' 7],
     ai_Paths = [],
     ai_Inbounds = [\<lparr>in_ID = 7, in_ServerID = 1, in_Name = [], in_Protocol = [], in_ListenIP = [], in_Port = 443,
                      in_AdvertisePort = 0, in_Enabled = True\<rparr>],
     ai_Now = 5\<rparr>"

lemmas ex_snapshot_defs = ex_input_def ex_user_def ex_exception_def snapshot_time_def IsZero_def node_granted_def
  active_user_def has_exception_def in_plan_def effective_plan_def exception_in_force_def exception_expired_def
  index_by_def

text \<open>
  C9. Node authorization follows one priority: a node is among the effective nodes of a user in the
  snapshot exactly when the user is active, no deny exception in force names the node, and an allow
  exception in force or the user's enabled plan grants it; anything else is denied. It holds for
  every order in which the run time enumerates the users and the grants.
\<close>

theorem snapshot_node_priority:
  assumes "\<And>us. mset (uord us) = mset us" and "\<And>m. mset (gord m) = mset m"
  shows "NodeKeyOf t n \<in> (case EffectiveNodeKeys (BuildEffectiveAccessSnapshot uord gord clock inp) u of
           Some keys \<Rightarrow> keys | None \<Rightarrow> {}) \<longleftrightarrow>
         node_granted inp (snapshot_time clock inp) u t n"
proof -
  let ?g = "grants_of inp (snapshot_time clock inp) u"
  have "NodeKeyOf t n \<in> fst ` set ?g \<longleftrightarrow> map_of ?g (NodeKeyOf t n) \<noteq> None"
    by (simp only: map_of_None_notin not_not)
  then show ?thesis
    using grants_of_dom [of inp "snapshot_time clock inp" u t n]
    by (auto simp: EffectiveNodeKeys_def Build_views(5) [OF assms] node_granted_def split: if_splits)
qed

theorem snapshot_node_priority_witness:
  "NodeKeyOf ''inbound'' 7 \<notin> (case EffectiveNodeKeys (BuildEffectiveAccessSnapshot rev rev 0 ex_input) 2 of
      Some keys \<Rightarrow> keys | None \<Rightarrow> {}) \<and>
   NodeKeyOf ''inbound'' 7 \<in> (case EffectiveNodeKeys (BuildEffectiveAccessSnapshot rev rev 0 ex_input) 1 of
      Some keys \<Rightarrow> keys | None \<Rightarrow> {})"
  by (subst snapshot_node_priority, simp, simp)+ (simp add: ex_snapshot_defs)

text \<open>
  Every surface agrees on the same relation: the per-inbound, per-path, per-external-outbound and
  per-node lists of the snapshot are the ascending, duplicate-free lists of exactly the users that
  are granted the node (for an inbound: the inbound itself or a path that enters through it, while
  it is enabled), and a list is present only when it is not empty.
\<close>

theorem snapshot_views_agree:
  assumes "\<And>us. mset (uord us) = mset us" and "\<And>m. mset (gord m) = mset m"
  shows "map_of (es_InboundUsers (BuildEffectiveAccessSnapshot uord gord clock inp)) i =
      listed {u. inbound_enabled (inbound_index inp) i \<and>
        (node_granted inp (snapshot_time clock inp) u AssignableNodeInbound i \<or>
         (\<exists>p path. path_index inp p = Some path \<and> pp_InboundID path = i \<and>
            node_granted inp (snapshot_time clock inp) u AssignableNodeProxyPath p))} \<and>
    map_of (es_ProxyPathUsers (BuildEffectiveAccessSnapshot uord gord clock inp)) p =
      listed {u. (\<exists>path. path_index inp p = Some path \<and> inbound_enabled (inbound_index inp) (pp_InboundID path)) \<and>
        node_granted inp (snapshot_time clock inp) u AssignableNodeProxyPath p} \<and>
    map_of (es_ExternalOutboundUsers (BuildEffectiveAccessSnapshot uord gord clock inp)) e =
      listed {u. node_granted inp (snapshot_time clock inp) u AssignableNodeExternalOutbound e} \<and>
    map_of (es_NodeUsers (BuildEffectiveAccessSnapshot uord gord clock inp)) (NodeKeyOf t n) =
      listed {u. node_granted inp (snapshot_time clock inp) u t n}"
  (is "?I \<and> ?P \<and> ?E \<and> ?N")
proof (intro conjI)
  show ?I unfolding Build_views(3) [OF assms]
    by (simp only: inbound_reach)
  show ?P unfolding Build_views(2) [OF assms]
    by (simp only: path_reach)
  show ?E unfolding Build_views(4) [OF assms]
    by (simp only: external_reach)
  show ?N unfolding Build_views(1) [OF assms] grants_of_dom node_granted_def ..
qed

theorem snapshot_views_agree_witness:
  "map_of (es_InboundUsers (BuildEffectiveAccessSnapshot rev rev 0 ex_input)) 7 = Some [1]"
proof -
  have "map_of (es_InboundUsers (BuildEffectiveAccessSnapshot rev rev 0 ex_input)) 7 = listed {1}"
    using snapshot_views_agree [THEN conjunct1, of rev rev 0 ex_input 7, OF mset_rev mset_rev]
    by (simp add: ex_snapshot_defs inbound_enabled_def conj_disj_distribR ex_disj_distrib cong: conj_cong)
  then show ?thesis by (simp add: listed_def)
qed

text \<open>
  C24. The per-user node set that previews use is the same relation: for an active user whose
  exceptions are all active and started, it is the set of effective node keys of the snapshot.
\<close>

theorem node_set_matches_snapshot:
  assumes "\<And>us. mset (uord us) = mset us" and "\<And>m. mset (gord m) = mset m"
    and "active_user inp u"
    and settled: "list_all (\<lambda>ex. ne_UserID ex \<noteq> u \<or> exception_in_force (snapshot_time clock inp) ex \<or>
           exception_expired (snapshot_time clock inp) ex) (ai_Exceptions inp)"
  shows "(case EffectiveNodeKeys (BuildEffectiveAccessSnapshot uord gord clock inp) u of
            Some keys \<Rightarrow> keys | None \<Rightarrow> {}) =
         UserEffectiveNodeSet (effective_plan inp (snapshot_time clock inp) u)
           (case effective_plan inp (snapshot_time clock inp) u of
              Some p \<Rightarrow> filter (\<lambda>pn. pn_PlanID pn = sp_ID p) (ai_PlanNodes inp) | None \<Rightarrow> [])
           (filter (\<lambda>ex. ne_UserID ex = u) (ai_Exceptions inp)) (snapshot_time clock inp)"
proof -
  let ?now = "snapshot_time clock inp"
  have keys: "(case EffectiveNodeKeys (BuildEffectiveAccessSnapshot uord gord clock inp) u of
      Some keys \<Rightarrow> keys | None \<Rightarrow> {}) = {k. map_of (grants_of inp ?now u) k \<noteq> None}"
    using assms(3) by (auto simp: EffectiveNodeKeys_def Build_views(5) [OF assms(1,2)] map_of_None_notin)
  have exs: "group_append ne_UserID (filter (exception_in_force ?now) (ai_Exceptions inp)) u =
      filter (\<lambda>ex. \<not> exception_expired ?now ex) (filter (\<lambda>ex. ne_UserID ex = u) (ai_Exceptions inp))"
    using settled by (auto simp: group_append_filter list_all_iff dest: in_force_unexpired intro!: filter_cong)
  show ?thesis
    unfolding keys grants_of_def user_grants_dom exs UserEffectiveNodeSet_fold Let_def
    by (cases "effective_plan inp ?now u")
      (simp_all add: group_append_filter effective_plan_enabled conj_commute)
qed

theorem node_set_matches_snapshot_witness:
  "(case EffectiveNodeKeys (BuildEffectiveAccessSnapshot rev rev 0 ex_input) 1 of
      Some keys \<Rightarrow> keys | None \<Rightarrow> {}) = {NodeKeyOf ''inbound'' 7}"
  by (subst node_set_matches_snapshot)
    (simp_all add: ex_snapshot_defs UserEffectiveNodeSet_def exception_key_def)

text \<open>
  Limits have one precedence: a non-zero speed or traffic limit of the user overrides the plan's,
  which overrides the default of none; the reset rule follows the traffic limit that is in effect; a
  negative limit counts as none, a blank mode as monthly and a day below one as the first.
\<close>

theorem user_policy_precedence:
  "effectiveUserPolicy user plan binding =
     (let plan_traffic = (u_TrafficLimitBytes user = 0 \<and> plan \<noteq> None);
          mode = (if plan_traffic then sp_TrafficResetMode (the plan) else u_TrafficResetMode user);
          day = (if plan_traffic then sp_TrafficResetDay (the plan) else u_TrafficResetDay user)
      in \<lparr>up_SpeedLimitMbps = max 0 (if u_SpeedLimitMbps user \<noteq> 0 then u_SpeedLimitMbps user
                               else case plan of Some p \<Rightarrow> sp_SpeedLimitMbps p | None \<Rightarrow> 0),
          up_TrafficLimitBytes = max 0 (if u_TrafficLimitBytes user \<noteq> 0 then u_TrafficLimitBytes user
                               else case plan of Some p \<Rightarrow> sp_TrafficLimitBytes p | None \<Rightarrow> 0),
          up_TrafficResetMode = (if TrimSpace mode = [] then ''monthly'' else mode),
          up_TrafficResetDay = max 1 day,
          up_TrafficResetAnchor =
            (if plan_traffic then case Option.bind binding pb_TrafficResetAnchorAt of Some t \<Rightarrow> t | None \<Rightarrow> 0 else 0),
          up_TrafficResetHourAligned = (plan_traffic \<and> (\<exists>b. binding = Some b \<and> pb_TrafficResetHourAligned b)),
          up_Source = (if u_SpeedLimitMbps user = 0 \<and> u_TrafficLimitBytes user = 0
                       then if plan = None then ''default'' else ''plan'' else ''user_override'')\<rparr>)"
  by (cases plan; cases binding) (auto simp: effectiveUserPolicy_def Let_def max_def)

text \<open>
  Node keys are a faithful encoding: different nodes have different keys, and parsing the key of a
  node with a positive 64-bit identifier and a type without a colon gives the node back.
\<close>

theorem node_key_roundtrip:
  assumes "0 < n" and "n < 2 ^ 63" and "CHR '':'' \<notin> set t"
  shows "ParseNodeKey (NodeKeyOf t n) = Some (t, n) \<and> (\<forall>t' n'. NodeKeyOf t' n' = NodeKeyOf t n \<longrightarrow> t' = t \<and> n' = n)"
proof -
  have "ParseInt64 (FormatInt n) = Some n" using assms(1,2) by (intro ParseInt64_FormatInt) simp_all
  then have "ParseNodeKey (NodeKeyOf t n) = Some (t, n)"
    using assms(1,3) by (simp add: ParseNodeKey_def NodeKeyOf_def split_colon_append)
  then show ?thesis by simp
qed

theorem node_key_roundtrip_witness:
  "ParseNodeKey (NodeKeyOf AssignableNodeProxyPath 42) = Some (AssignableNodeProxyPath, 42)"
  using node_key_roundtrip [of 42 AssignableNodeProxyPath] by simp

end
