(* ===== verification/Access_Projection.thy ===== *)
theory Access_Projection
  imports Access_Snapshot
begin

text \<open>
  The projections of a snapshot (the second half of \<open>internal/core/access_snapshot.go\<close>) and the
  membership difference of two projections (\<open>internal/core/assignable_nodes.go\<close>): the binding lists
  config generation reads, the serializable projection of an access change, its classification as
  grant, revoke or migration, and the union that the prepare phase deploys.

  A nil map reads as the empty map, and the enumeration order of a map is the order of its list.
\<close>

section \<open>Definitions\<close>

record InboundUser =
  iu_ID :: int
  iu_InboundID :: int
  iu_UserID :: int
  iu_Enabled :: bool
  iu_CreatedAt :: time
  iu_UpdatedAt :: time

record ProxyPathUser =
  pu_ProxyPathID :: int
  pu_InboundID :: int
  pu_UserID :: int
  pu_Enabled :: bool

definition InboundUserBindings :: "EffectiveAccessSnapshot \<Rightarrow> InboundUser list" where
  "InboundUserBindings s =
     sort_key (\<lambda>b. (iu_InboundID b, iu_UserID b))
       (concat (map (\<lambda>(inboundID, userIDs).
          map (\<lambda>userID. \<lparr>iu_ID = 0, iu_InboundID = inboundID, iu_UserID = userID, iu_Enabled = True,
              iu_CreatedAt = 0, iu_UpdatedAt = 0\<rparr>) userIDs)
        (es_InboundUsers s)))"

definition ProxyPathUserBindings :: "EffectiveAccessSnapshot \<Rightarrow> ProxyPathUser list" where
  "ProxyPathUserBindings s =
     sort_key (\<lambda>b. (pu_ProxyPathID b, pu_UserID b))
       (concat (map (\<lambda>(pathID, userIDs).
          map (\<lambda>userID. \<lparr>pu_ProxyPathID = pathID,
              pu_InboundID = (case map_of (es_PathInboundIDs s) pathID of Some i \<Rightarrow> i | None \<Rightarrow> 0),
              pu_UserID = userID, pu_Enabled = True\<rparr>) userIDs)
        (es_ProxyPathUsers s)))"

record UserLimitPolicy =
  lp_SpeedLimitMbps :: int
  lp_TrafficLimitBytes :: int
  lp_TrafficResetMode :: string
  lp_TrafficResetDay :: int
  lp_TrafficResetAnchor :: time
  lp_TrafficResetHourAligned :: bool

definition UserLimitPolicyMap :: "EffectiveAccessSnapshot \<Rightarrow> (int, UserLimitPolicy) gomap" where
  "UserLimitPolicyMap s =
     fold (\<lambda>(userID, policy) out. AList.update userID
       \<lparr>lp_SpeedLimitMbps = up_SpeedLimitMbps policy, lp_TrafficLimitBytes = up_TrafficLimitBytes policy,
        lp_TrafficResetMode = up_TrafficResetMode policy, lp_TrafficResetDay = up_TrafficResetDay policy,
        lp_TrafficResetAnchor = up_TrafficResetAnchor policy,
        lp_TrafficResetHourAligned = up_TrafficResetHourAligned policy\<rparr> out) (es_UserPolicies s) []"

record AccessProjection =
  ap_InboundUsers :: user_lists
  ap_ProxyPathUsers :: user_lists
  ap_UserPolicies :: "(int, EffectiveUserPolicy) gomap"
  ap_PathInboundIDs :: "(int, int) gomap"

record AccessScope =
  as_InboundUsers :: user_lists
  as_ProxyPathUsers :: user_lists

definition cloneUserIDMap :: "user_lists \<Rightarrow> user_lists" where
  "cloneUserIDMap m = fold (\<lambda>(key, list). AList.update key list) m []"

definition cloneInt64Map :: "(int, int) gomap \<Rightarrow> (int, int) gomap" where
  "cloneInt64Map m = fold (\<lambda>(key, val). AList.update key val) m []"

fun containsInt64 :: "int list \<Rightarrow> int \<Rightarrow> bool" where
  "containsInt64 [] i = False"
| "containsInt64 (v # list) i = (if v = i then True else containsInt64 list i)"

definition Projection :: "EffectiveAccessSnapshot \<Rightarrow> AccessProjection" where
  "Projection s =
     \<lparr>ap_InboundUsers = cloneUserIDMap (es_InboundUsers s),
      ap_ProxyPathUsers = cloneUserIDMap (es_ProxyPathUsers s),
      ap_UserPolicies = es_UserPolicies s,
      ap_PathInboundIDs = cloneInt64Map (es_PathInboundIDs s)\<rparr>"

definition ProjectionScope :: "AccessProjection \<Rightarrow> AccessScope" where
  "ProjectionScope p =
     \<lparr>as_InboundUsers = cloneUserIDMap (ap_InboundUsers p),
      as_ProxyPathUsers = cloneUserIDMap (ap_ProxyPathUsers p)\<rparr>"

text \<open>The two loops of the closure \<open>compare\<close>, on the captured flags \<open>added\<close> and \<open>removed\<close>.\<close>

definition scan_missing :: "user_lists \<Rightarrow> user_lists \<Rightarrow> bool \<Rightarrow> bool" where
  "scan_missing others m flag =
     fold (\<lambda>(node, users) flag.
       fold (\<lambda>userID flag. if \<not> containsInt64 (lookup_list others node) userID then True else flag) users flag) m flag"

definition compare_scopes :: "user_lists \<Rightarrow> user_lists \<Rightarrow> bool \<times> bool \<Rightarrow> bool \<times> bool" where
  "compare_scopes old current flags =
     (scan_missing old current (fst flags), scan_missing current old (snd flags))"

definition ClassifyProjectionChange :: "AccessProjection \<Rightarrow> AccessProjection \<Rightarrow> string" where
  "ClassifyProjectionChange before after =
     (let flags = compare_scopes (ap_InboundUsers before) (ap_InboundUsers after) (False, False);
          (added, removed) = compare_scopes (ap_ProxyPathUsers before) (ap_ProxyPathUsers after) flags
      in if removed \<and> added then AccessChangeKindMigration
         else if removed then AccessChangeKindRevoke
         else AccessChangeKindGrant)"

definition merge_users :: "int list \<Rightarrow> int list \<Rightarrow> int list" where
  "merge_users base list =
     sort (fold (\<lambda>userID merged. if \<not> containsInt64 merged userID then merged @ [userID] else merged) list base)"

definition merge_lists :: "user_lists \<Rightarrow> user_lists \<Rightarrow> user_lists" where
  "merge_lists a b = fold (\<lambda>(key, list) out. AList.update key (merge_users (lookup_list out key) list) out) b a"

definition MergeProjections :: "AccessProjection \<Rightarrow> AccessProjection \<Rightarrow> AccessProjection" where
  "MergeProjections a b =
     \<lparr>ap_InboundUsers = merge_lists (cloneUserIDMap (ap_InboundUsers a)) (ap_InboundUsers b),
      ap_ProxyPathUsers = merge_lists (cloneUserIDMap (ap_ProxyPathUsers a)) (ap_ProxyPathUsers b),
      ap_UserPolicies =
        fold (\<lambda>(userID, policy). AList.update userID policy) (ap_UserPolicies b)
          (fold (\<lambda>(userID, policy). AList.update userID policy) (ap_UserPolicies a) []),
      ap_PathInboundIDs =
        fold (\<lambda>(pathID, inboundID). AList.update pathID inboundID) (ap_PathInboundIDs b)
          (cloneInt64Map (ap_PathInboundIDs a))\<rparr>"

definition ProjectionSnapshot :: "time \<Rightarrow> AccessProjection \<Rightarrow> User list \<Rightarrow> EffectiveAccessSnapshot" where
  "ProjectionSnapshot clock projection users =
     \<lparr>es_At = clock, es_Users = fold (\<lambda>user m. AList.update (u_ID user) user m) users [], es_UserNodes = [],
      es_InboundUsers = cloneUserIDMap (ap_InboundUsers projection),
      es_ProxyPathUsers = cloneUserIDMap (ap_ProxyPathUsers projection),
      es_ExternalOutboundUsers = [], es_NodeUsers = [],
      es_UserPolicies = ap_UserPolicies projection,
      es_PathInboundIDs = cloneInt64Map (ap_PathInboundIDs projection)\<rparr>"

text \<open>The multiset comparison of two user lists, with the counting map \<open>seen\<close>.\<close>

fun take_seen :: "(int \<Rightarrow> nat) \<Rightarrow> int list \<Rightarrow> bool" where
  "take_seen seen [] = True"
| "take_seen seen (i # right) = (if seen i = 0 then False else take_seen (seen(i := seen i - 1)) right)"

definition sameInt64Set :: "int list \<Rightarrow> int list \<Rightarrow> bool" where
  "sameInt64Set left right =
     (if length left \<noteq> length right then False
      else take_seen (fold (\<lambda>i seen. seen(i := seen i + 1)) left (\<lambda>_. 0)) right)"

definition NodeKeysFromAccessProjection :: "AccessProjection \<Rightarrow> string set" where
  "NodeKeysFromAccessProjection projection =
     (let keys = fold (\<lambda>(inboundID, users) keys.
            if inboundID > 0 \<and> length users > 0 then insert (NodeKeyOf AssignableNodeInbound inboundID) keys else keys)
            (ap_InboundUsers projection) {}
      in fold (\<lambda>(pathID, users) keys.
            if pathID > 0 \<and> length users > 0 then insert (NodeKeyOf AssignableNodeProxyPath pathID) keys else keys)
            (ap_ProxyPathUsers projection) keys)"

definition membership_differs :: "AccessProjection \<Rightarrow> AccessProjection \<Rightarrow> string \<Rightarrow> bool" where
  "membership_differs before after key =
     (case ParseNodeKey key of
        None \<Rightarrow> False
      | Some (nodeType, nodeID) \<Rightarrow>
          if nodeType = AssignableNodeInbound then
            \<not> sameInt64Set (lookup_list (ap_InboundUsers before) nodeID) (lookup_list (ap_InboundUsers after) nodeID)
          else if nodeType = AssignableNodeProxyPath then
            \<not> sameInt64Set (lookup_list (ap_ProxyPathUsers before) nodeID) (lookup_list (ap_ProxyPathUsers after) nodeID)
          else False)"

definition AccessProjectionMembershipDiffKeys :: "AccessProjection \<Rightarrow> AccessProjection \<Rightarrow> string set" where
  "AccessProjectionMembershipDiffKeys before after =
     Set.filter (membership_differs before after)
       (NodeKeysFromAccessProjection before \<union> NodeKeysFromAccessProjection after)"

section \<open>Lemmas\<close>

lemma containsInt64_iff [simp]: "containsInt64 l i \<longleftrightarrow> i \<in> set l"
  by (induction l) auto

lemma cloneUserIDMap_id: "gomap_ok m \<Longrightarrow> cloneUserIDMap m = m"
  by (simp add: cloneUserIDMap_def fold_update_copy)

lemma cloneInt64Map_id: "gomap_ok m \<Longrightarrow> cloneInt64Map m = m"
  by (simp add: cloneInt64Map_def fold_update_copy)

lemma lookup_list_mem: "gomap_ok m \<Longrightarrow> (k, l) \<in> set m \<Longrightarrow> lookup_list m k = l"
  by (simp add: lookup_list_def)

lemma lookup_list_entry: "lookup_list m k \<noteq> [] \<Longrightarrow> (k, lookup_list m k) \<in> set m"
  by (auto simp: lookup_list_def split: option.splits dest: map_of_mem)

text \<open>Some user of some node of \<open>m\<close> is not a user of that node in \<open>m'\<close>.\<close>

definition loses :: "user_lists \<Rightarrow> user_lists \<Rightarrow> bool" where
  "loses m m' \<longleftrightarrow> (\<exists>node. \<not> set (lookup_list m node) \<subseteq> set (lookup_list m' node))"

definition revokes :: "AccessProjection \<Rightarrow> AccessProjection \<Rightarrow> bool" where
  "revokes a b \<longleftrightarrow> loses (ap_InboundUsers a) (ap_InboundUsers b) \<or> loses (ap_ProxyPathUsers a) (ap_ProxyPathUsers b)"

definition maps_ok :: "AccessProjection \<Rightarrow> bool" where
  "maps_ok p \<longleftrightarrow> gomap_ok (ap_InboundUsers p) \<and> gomap_ok (ap_ProxyPathUsers p) \<and>
     gomap_ok (ap_UserPolicies p) \<and> gomap_ok (ap_PathInboundIDs p)"

lemma scan_users: "fold (\<lambda>u flag. if \<not> containsInt64 l u then True else flag) us flag \<longleftrightarrow> flag \<or> \<not> set us \<subseteq> set l"
  by (induction us arbitrary: flag) auto

lemma scan_missing_iff: "scan_missing others m flag \<longleftrightarrow> flag \<or> (\<exists>(node, us)\<in>set m. \<not> set us \<subseteq> set (lookup_list others node))"
  unfolding scan_missing_def scan_users
  by (induction m arbitrary: flag) (auto simp: case_prod_unfold)

lemma scan_missing_loses: "gomap_ok m \<Longrightarrow> scan_missing others m flag \<longleftrightarrow> flag \<or> loses m others"
proof -
  assume ok: "gomap_ok m"
  have "(\<exists>(node, us)\<in>set m. \<not> set us \<subseteq> set (lookup_list others node)) \<longleftrightarrow> loses m others"
    (is "?L \<longleftrightarrow> ?R")
  proof
    assume ?L
    then obtain node us where "(node, us) \<in> set m" and bad: "\<not> set us \<subseteq> set (lookup_list others node)" by auto
    with ok have "lookup_list m node = us" by (simp add: lookup_list_mem)
    with bad show ?R by (auto simp: loses_def)
  next
    assume ?R
    then obtain node where bad: "\<not> set (lookup_list m node) \<subseteq> set (lookup_list others node)" by (auto simp: loses_def)
    then have "(node, lookup_list m node) \<in> set m" by (intro lookup_list_entry) auto
    with bad show ?L by (intro bexI [of _ "(node, lookup_list m node)"]) simp_all
  qed
  then show ?thesis by (simp add: scan_missing_iff)
qed

lemma Classify_iff:
  assumes "maps_ok a" and "maps_ok b"
  shows "ClassifyProjectionChange a b =
     (if revokes a b then if revokes b a then AccessChangeKindMigration else AccessChangeKindRevoke
      else AccessChangeKindGrant)"
  using assms by (simp add: ClassifyProjectionChange_def compare_scopes_def Let_def scan_missing_loses revokes_def maps_ok_def)

lemma merge_users_fold:
  "set (fold (\<lambda>u merged. if \<not> containsInt64 merged u then merged @ [u] else merged) l base) = set base \<union> set l"
  by (induction l arbitrary: base) auto

lemma merge_users_set [simp]: "set (merge_users base l) = set base \<union> set l"
  by (simp only: merge_users_def set_sort merge_users_fold)

lemma merge_users_distinct: "distinct base \<Longrightarrow> distinct (merge_users base l)"
  unfolding merge_users_def distinct_sort by (induction l arbitrary: base) auto

lemma merge_users_eq: "distinct base \<Longrightarrow> merge_users base l = sorted_list_of_set (set base \<union> set l)"
  using merge_users_distinct [of base l]
  by (intro sorted_distinct_set_unique) (simp_all add: merge_users_def [of base l, THEN arg_cong [where f = sorted]])

lemma lookup_update: "lookup_list (AList.update k l m) n = (if n = k then l else lookup_list m n)"
  by (simp add: lookup_list_def AList.update_conv')

lemma merge_lists_lookup:
  "gomap_ok b \<Longrightarrow> lookup_list (merge_lists a b) n =
     (case map_of b n of Some l \<Rightarrow> merge_users (lookup_list a n) l | None \<Rightarrow> lookup_list a n)"
proof (induction b arbitrary: a)
  case Nil
  then show ?case by (simp add: merge_lists_def)
next
  case (Cons p b)
  obtain k l where p: "p = (k, l)" by (cases p)
  with Cons.prems have fresh: "map_of b k = None" by (simp add: map_of_None_notin)
  have "merge_lists a (p # b) = merge_lists (AList.update k (merge_users (lookup_list a k) l) a) b"
    by (simp add: p merge_lists_def)
  with Cons fresh p show ?case by (auto simp: lookup_update split: option.splits)
qed

lemma gomap_ok_merge_lists: "gomap_ok a \<Longrightarrow> gomap_ok (merge_lists a b)"
  unfolding merge_lists_def by (induction b arbitrary: a) auto

lemma merge_lists_set:
  "gomap_ok b \<Longrightarrow> set (lookup_list (merge_lists a b) n) = set (lookup_list a n) \<union> set (lookup_list b n)"
  by (cases "map_of b n") (simp_all add: merge_lists_lookup lookup_list_def [of b])

lemma gomap_ok_fold_pairs: "gomap_ok a \<Longrightarrow> gomap_ok (fold (\<lambda>(k, v). AList.update k v) b a)"
  by (induction b arbitrary: a) auto

lemma fold_pairs_lookup:
  "gomap_ok b \<Longrightarrow> map_of (fold (\<lambda>(k, v). AList.update k v) b a) k = (case map_of b k of Some v \<Rightarrow> Some v | None \<Rightarrow> map_of a k)"
proof (induction b arbitrary: a)
  case (Cons p b)
  then show ?case
    by (cases p) (auto simp: AList.update_conv' map_of_None_notin image_iff split: option.splits dest: map_of_mem)
qed simp

lemma maps_ok_merge: "maps_ok a \<Longrightarrow> maps_ok b \<Longrightarrow> maps_ok (MergeProjections a b)"
  by (simp add: maps_ok_def MergeProjections_def cloneUserIDMap_id cloneInt64Map_id gomap_ok_merge_lists gomap_ok_fold_pairs)

lemma loses_merge:
  assumes "gomap_ok a" and "gomap_ok b"
  shows "\<not> loses a (merge_lists a b)" and "\<not> loses b (merge_lists a b)" and "loses (merge_lists a b) b \<longleftrightarrow> loses a b"
  using assms by (auto simp: loses_def merge_lists_set)

lemma revokes_merge:
  assumes "maps_ok a" and "maps_ok b"
  shows "\<not> revokes a (MergeProjections a b)" and "\<not> revokes b (MergeProjections a b)"
    and "revokes (MergeProjections a b) b \<longleftrightarrow> revokes a b"
  using assms by (simp_all add: revokes_def MergeProjections_def maps_ok_def cloneUserIDMap_id loses_merge)

lemma take_seen_iff: "take_seen seen l \<longleftrightarrow> (\<forall>i. count (mset l) i \<le> seen i)"
proof (induction seen l rule: take_seen.induct)
  case (2 seen i l)
  show ?case
  proof (cases "seen i = 0")
    case True
    then have "\<not> count (mset (i # l)) i \<le> seen i" by simp
    with True show ?thesis by auto
  next
    case False
    with 2 [OF False] have "take_seen seen (i # l) \<longleftrightarrow> (\<forall>j. count (mset l) j \<le> (seen(i := seen i - 1)) j)"
      by (simp del: fun_upd_apply)
    also have "\<dots> \<longleftrightarrow> (\<forall>j. count (mset (i # l)) j \<le> seen j)"
      by (rule iff_allI) (use False in auto)
    finally show ?thesis .
  qed
qed simp

lemma seen_count: "fold (\<lambda>i seen. seen(i := Suc (seen i))) l f i = f i + count (mset l) i"
  for f :: "int \<Rightarrow> nat"
  by (induction l arbitrary: f) auto

lemma sameInt64Set_iff: "sameInt64Set l r \<longleftrightarrow> mset l = mset r"
proof
  assume "sameInt64Set l r"
  then have len: "length l = length r" and "\<forall>i. count (mset r) i \<le> count (mset l) i"
    by (auto simp: sameInt64Set_def take_seen_iff seen_count split: if_splits)
  then have "mset r \<subseteq># mset l" by (simp add: subseteq_mset_def)
  with len show "mset l = mset r"
    using mset_subset_size [of "mset r" "mset l"]
    by (cases "mset r = mset l") (simp_all add: subset_mset.less_le)
next
  assume "mset l = mset r"
  then have "length l = length r" by (rule mset_eq_length)
  with \<open>mset l = mset r\<close> show "sameInt64Set l r" by (simp add: sameInt64Set_def take_seen_iff seen_count)
qed

lemma inbound_keys_fold:
  "fold (\<lambda>(i, users) keys. if i > 0 \<and> users \<noteq> [] then insert (NodeKeyOf t i) keys else keys) m keys =
     keys \<union> {NodeKeyOf t i |i users. (i, users) \<in> set m \<and> 0 < i \<and> users \<noteq> []}"
  by (induction m arbitrary: keys) (auto simp: case_prod_unfold)

lemma NodeKeys_mem:
  assumes "maps_ok p" and "0 < n"
  shows "NodeKeyOf t n \<in> NodeKeysFromAccessProjection p \<longleftrightarrow>
     t = AssignableNodeInbound \<and> lookup_list (ap_InboundUsers p) n \<noteq> [] \<or>
     t = AssignableNodeProxyPath \<and> lookup_list (ap_ProxyPathUsers p) n \<noteq> []"
proof -
  have "(\<exists>users. (n, users) \<in> set m \<and> users \<noteq> []) \<longleftrightarrow> lookup_list m n \<noteq> []" if "gomap_ok m" for m :: user_lists
    using that lookup_list_entry [of m n] by (auto simp: lookup_list_mem)
  with assms show ?thesis
    unfolding NodeKeysFromAccessProjection_def Let_def length_greater_0_conv inbound_keys_fold
    by (auto simp: maps_ok_def)
qed

lemma distinct_same: "distinct l \<Longrightarrow> distinct r \<Longrightarrow> sameInt64Set l r \<longleftrightarrow> set l = set r"
  by (simp add: sameInt64Set_iff set_eq_iff_mset_eq_distinct)

text \<open>Every user list of a projection is free of duplicates, as the snapshot makes them.\<close>

definition lists_distinct :: "AccessProjection \<Rightarrow> bool" where
  "lists_distinct p \<longleftrightarrow> list_all (distinct \<circ> snd) (ap_InboundUsers p) \<and> list_all (distinct \<circ> snd) (ap_ProxyPathUsers p)"

lemma lookup_distinct: "list_all (distinct \<circ> snd) m \<Longrightarrow> distinct (lookup_list m n)"
  by (auto simp: lookup_list_def list_all_iff split: option.splits dest!: map_of_mem)

definition node_users :: "AccessProjection \<Rightarrow> string \<Rightarrow> int \<Rightarrow> int set" where
  "node_users p t n =
     (if t = AssignableNodeInbound then set (lookup_list (ap_InboundUsers p) n)
      else if t = AssignableNodeProxyPath then set (lookup_list (ap_ProxyPathUsers p) n) else {})"

lemma bindings_keys:
  "set (concat (map (\<lambda>(k, us). map (f k) us) m)) = {f k u |k u. \<exists>us. (k, us) \<in> set m \<and> u \<in> set us}"
  by force

lemma Merge_fields:
  assumes "maps_ok a"
  shows "ap_InboundUsers (MergeProjections a b) = merge_lists (ap_InboundUsers a) (ap_InboundUsers b)"
    and "ap_ProxyPathUsers (MergeProjections a b) = merge_lists (ap_ProxyPathUsers a) (ap_ProxyPathUsers b)"
    and "ap_UserPolicies (MergeProjections a b) = fold (\<lambda>(k, v). AList.update k v) (ap_UserPolicies b) (ap_UserPolicies a)"
    and "ap_PathInboundIDs (MergeProjections a b) = fold (\<lambda>(k, v). AList.update k v) (ap_PathInboundIDs b) (ap_PathInboundIDs a)"
  using assms by (simp_all add: maps_ok_def MergeProjections_def cloneUserIDMap_id cloneInt64Map_id fold_update_copy)

lemma distinct_pairs:
  "gomap_ok m \<Longrightarrow> list_all (distinct \<circ> snd) m \<Longrightarrow> distinct (concat (map (\<lambda>(k, us). map (Pair k) us) m))"
proof (induction m)
  case (Cons p m)
  obtain k us where p: "p = (k, us)" by (cases p)
  have "k \<notin> fst ` set m" using Cons.prems p by simp
  then have "set (map (Pair k) us) \<inter> set (concat (map (\<lambda>(k, us). map (Pair k) us) m)) = {}"
    by force
  with Cons p show ?case by (simp add: distinct_map inj_on_def)
qed simp

lemma Build_inbound_lists:
  "gomap_ok (es_InboundUsers (BuildEffectiveAccessSnapshot uord gord clock inp))" (is "gomap_ok ?m")
  "list_all (distinct \<circ> snd) (es_InboundUsers (BuildEffectiveAccessSnapshot uord gord clock inp))"
proof -
  obtain ps where m: "?m = sort_compact (append_all ps [])"
    by (simp add: BuildEffectiveAccessSnapshot_def Let_def fold_resolve_views)
  show "gomap_ok ?m" by (simp add: m gomap_ok_append_all)
  have "distinct (compactSortedUserIDs (sort l))" for l
    by (simp add: compactSortedUserIDs_eq remdups_adj_sorted_distinct)
  then show "list_all (distinct \<circ> snd) ?m" by (simp add: m sort_compact_def list_all_iff case_prod_unfold)
qed

lemma finite_active: "finite {u. active_user inp u \<and> P u}"
proof -
  have "{u. active_user inp u \<and> P u} \<subseteq> u_ID ` set (ai_Users inp)" by (auto simp: active_user_def)
  then show ?thesis by (rule finite_subset) simp
qed

lemma listed_mem: "finite S \<Longrightarrow> (\<exists>us. listed S = Some us \<and> u \<in> set us) \<longleftrightarrow> u \<in> S"
  by (auto simp: listed_def)

lemma InboundUserBindings_keys:
  "map (\<lambda>b. (iu_InboundID b, iu_UserID b)) (InboundUserBindings s) =
     sort (concat (map (\<lambda>(k, us). map (Pair k) us) (es_InboundUsers s)))"
proof -
  have "map (\<lambda>b. (iu_InboundID b, iu_UserID b)) (InboundUserBindings s) =
      sort (map (\<lambda>b. (iu_InboundID b, iu_UserID b)) (concat (map (\<lambda>(inboundID, userIDs).
          map (\<lambda>userID. \<lparr>iu_ID = 0, iu_InboundID = inboundID, iu_UserID = userID, iu_Enabled = True,
              iu_CreatedAt = 0, iu_UpdatedAt = 0\<rparr>) userIDs) (es_InboundUsers s))))"
    unfolding InboundUserBindings_def
    by (rule properties_for_sort [symmetric]) (simp_all add: sorted_sort_key)
  then show ?thesis by (simp add: map_concat comp_def case_prod_unfold)
qed

section \<open>Properties\<close>

text \<open>
  C22. The classification of an access change is exact: it is a revoke or a migration exactly when some
  user loses some node, a migration exactly when some user also gains one, and a grant otherwise.
\<close>

theorem classify_exact:
  assumes "maps_ok before" and "maps_ok after"
  shows "ClassifyProjectionChange before after =
     (if revokes before after
      then if revokes after before then AccessChangeKindMigration else AccessChangeKindRevoke
      else AccessChangeKindGrant)"
  using assms by (rule Classify_iff)

definition ex_projection :: "user_lists \<Rightarrow> AccessProjection" where
  "ex_projection m = \<lparr>ap_InboundUsers = m, ap_ProxyPathUsers = [], ap_UserPolicies = [], ap_PathInboundIDs = []\<rparr>"

theorem classify_exact_witness:
  "ClassifyProjectionChange (ex_projection [(7, [1, 2])]) (ex_projection [(7, [2])]) = AccessChangeKindRevoke"
proof -
  have "loses [(7, [1, 2])] [(7, [2])]"
    unfolding loses_def by (rule exI [of _ 7]) (simp add: lookup_list_def)
  then have "revokes (ex_projection [(7, [1, 2])]) (ex_projection [(7, [2])])"
    by (simp add: revokes_def ex_projection_def)
  moreover have "\<not> revokes (ex_projection [(7, [2])]) (ex_projection [(7, [1, 2])])"
    by (simp add: revokes_def loses_def ex_projection_def lookup_list_def)
  moreover have "maps_ok (ex_projection [(7, us)])" for us by (simp add: maps_ok_def ex_projection_def)
  ultimately show ?thesis by (simp add: classify_exact)
qed

lemma merge_node_users:
  assumes "maps_ok a" and "maps_ok b"
  shows "node_users (MergeProjections a b) t n = node_users a t n \<union> node_users b t n"
  using assms(2) by (simp add: node_users_def Merge_fields [OF assms(1)] merge_lists_set maps_ok_def)

lemma revokes_nodes: "revokes a b \<longleftrightarrow> (\<exists>t n. \<not> node_users a t n \<subseteq> node_users b t n)"
proof
  assume "revokes a b"
  then consider n where "\<not> node_users a AssignableNodeInbound n \<subseteq> node_users b AssignableNodeInbound n"
    | n where "\<not> node_users a AssignableNodeProxyPath n \<subseteq> node_users b AssignableNodeProxyPath n"
    unfolding revokes_def loses_def by (simp add: node_users_def) metis
  then show "\<exists>t n. \<not> node_users a t n \<subseteq> node_users b t n" by cases (intro exI, assumption)+
next
  assume "\<exists>t n. \<not> node_users a t n \<subseteq> node_users b t n"
  then obtain t n where d: "\<not> node_users a t n \<subseteq> node_users b t n" by (elim exE)
  consider "t = AssignableNodeInbound" | "t \<noteq> AssignableNodeInbound" "t = AssignableNodeProxyPath"
    | "t \<noteq> AssignableNodeInbound" "t \<noteq> AssignableNodeProxyPath" by blast
  then show "revokes a b"
  proof cases
    case 1
    from d have "loses (ap_InboundUsers a) (ap_InboundUsers b)" unfolding node_users_def loses_def if_P [OF 1] by (rule exI)
    then show ?thesis by (simp add: revokes_def)
  next
    case 2
    from d have "loses (ap_ProxyPathUsers a) (ap_ProxyPathUsers b)"
      unfolding node_users_def loses_def if_not_P [OF 2(1)] if_P [OF 2(2)] by (rule exI)
    then show ?thesis by (simp add: revokes_def)
  next
    case 3
    with d show ?thesis by (simp add: node_users_def)
  qed
qed

text \<open>
  C10. The two phases of an access change each go one way. The users of a node in the projection that the first phase
  deploys are those of the old and of the new projection together, so the first phase takes no user off a node and the
  second, from the union to the new projection, puts none on one. The classification agrees: the first phase is a
  grant, and the second a revocation exactly when the whole change takes a user off a node.
\<close>

theorem prepare_then_finalize:
  assumes "maps_ok old" and "maps_ok new"
  shows "node_users (MergeProjections old new) t n = node_users old t n \<union> node_users new t n \<and>
    ClassifyProjectionChange old (MergeProjections old new) = AccessChangeKindGrant \<and>
    ClassifyProjectionChange (MergeProjections old new) new =
      (if \<exists>t n. \<not> node_users old t n \<subseteq> node_users new t n then AccessChangeKindRevoke else AccessChangeKindGrant)"
  unfolding revokes_nodes [symmetric]
  using revokes_merge [OF assms] merge_node_users [OF assms] by (simp add: Classify_iff assms maps_ok_merge)

theorem prepare_then_finalize_witness:
  "node_users (MergeProjections (ex_projection [(7, [1])]) (ex_projection [(8, [1])])) AssignableNodeInbound 7 = {1} \<and>
   ClassifyProjectionChange (ex_projection [(7, [1])]) (MergeProjections (ex_projection [(7, [1])]) (ex_projection [(8, [1])])) =
     AccessChangeKindGrant"
  using prepare_then_finalize [of "ex_projection [(7, [1])]" "ex_projection [(8, [1])]" AssignableNodeInbound 7]
  by (simp add: maps_ok_def ex_projection_def node_users_def lookup_list_def)

text \<open>
  The union is exact: a node's list in the merged projection holds the users of either side, a
  list that both sides contribute to is ascending and free of duplicates, and the policy of a user
  and the inbound of a path come from the new side wherever it has one.
\<close>

theorem merge_is_union:
  assumes "maps_ok a" and "maps_ok b" and "lists_distinct a"
  shows "node_users (MergeProjections a b) t n = node_users a t n \<union> node_users b t n \<and>
    (case map_of (ap_InboundUsers b) n of
       Some l \<Rightarrow> lookup_list (ap_InboundUsers (MergeProjections a b)) n =
                 sorted_list_of_set (set (lookup_list (ap_InboundUsers a) n) \<union> set l)
     | None \<Rightarrow> lookup_list (ap_InboundUsers (MergeProjections a b)) n = lookup_list (ap_InboundUsers a) n) \<and>
    map_of (ap_UserPolicies (MergeProjections a b)) u =
      (case map_of (ap_UserPolicies b) u of Some v \<Rightarrow> Some v | None \<Rightarrow> map_of (ap_UserPolicies a) u) \<and>
    map_of (ap_PathInboundIDs (MergeProjections a b)) p =
      (case map_of (ap_PathInboundIDs b) p of Some v \<Rightarrow> Some v | None \<Rightarrow> map_of (ap_PathInboundIDs a) p)"
proof (intro conjI)
  have ok: "gomap_ok (ap_InboundUsers b)" "gomap_ok (ap_ProxyPathUsers b)" "gomap_ok (ap_UserPolicies b)"
    "gomap_ok (ap_PathInboundIDs b)" using assms(2) by (simp_all add: maps_ok_def)
  note merge = Merge_fields [OF assms(1)]
  show "node_users (MergeProjections a b) t n = node_users a t n \<union> node_users b t n"
    by (rule merge_node_users [OF assms(1,2)])
  have "distinct (lookup_list (ap_InboundUsers a) n)" using assms(3) by (simp add: lists_distinct_def lookup_distinct)
  then show "case map_of (ap_InboundUsers b) n of
       Some l \<Rightarrow> lookup_list (ap_InboundUsers (MergeProjections a b)) n =
                 sorted_list_of_set (set (lookup_list (ap_InboundUsers a) n) \<union> set l)
     | None \<Rightarrow> lookup_list (ap_InboundUsers (MergeProjections a b)) n = lookup_list (ap_InboundUsers a) n"
    by (cases "map_of (ap_InboundUsers b) n") (simp_all add: merge merge_lists_lookup ok merge_users_eq)
  show "map_of (ap_UserPolicies (MergeProjections a b)) u =
      (case map_of (ap_UserPolicies b) u of Some v \<Rightarrow> Some v | None \<Rightarrow> map_of (ap_UserPolicies a) u)"
    by (simp add: merge fold_pairs_lookup ok)
  show "map_of (ap_PathInboundIDs (MergeProjections a b)) p =
      (case map_of (ap_PathInboundIDs b) p of Some v \<Rightarrow> Some v | None \<Rightarrow> map_of (ap_PathInboundIDs a) p)"
    by (simp add: merge fold_pairs_lookup ok)
qed

theorem merge_is_union_witness:
  "node_users (MergeProjections (ex_projection [(7, [3, 1])]) (ex_projection [(7, [2, 3])])) AssignableNodeInbound 7 = {1, 2, 3}"
  using merge_is_union [of "ex_projection [(7, [3, 1])]" "ex_projection [(7, [2, 3])]" AssignableNodeInbound 7]
  by (auto simp: maps_ok_def lists_distinct_def ex_projection_def node_users_def lookup_list_def)

text \<open>
  The membership difference finds exactly the nodes whose user sets differ, so an access sync
  driven by it touches every changed node and no unchanged one.
\<close>

theorem membership_diff_exact:
  assumes "maps_ok a" and "maps_ok b" and "lists_distinct a" and "lists_distinct b" and "0 < n" and "n < 2 ^ 63"
    and "CHR '':'' \<notin> set t"
  shows "NodeKeyOf t n \<in> AccessProjectionMembershipDiffKeys a b \<longleftrightarrow> node_users a t n \<noteq> node_users b t n"
proof -
  have "ParseInt64 (FormatInt n) = Some n" using assms(5,6) by (intro ParseInt64_FormatInt) simp_all
  then have "ParseNodeKey (NodeKeyOf t n) = Some (t, n)"
    using assms(5,7) by (simp add: ParseNodeKey_def NodeKeyOf_def split_colon_append)
  then show ?thesis
    using assms(3,4)
    by (auto simp: AccessProjectionMembershipDiffKeys_def membership_differs_def NodeKeys_mem [OF assms(1) \<open>0 < n\<close>]
        NodeKeys_mem [OF assms(2) \<open>0 < n\<close>] distinct_same lookup_distinct lists_distinct_def node_users_def)
qed

theorem membership_diff_exact_witness:
  "NodeKeyOf AssignableNodeInbound 7 \<in>
     AccessProjectionMembershipDiffKeys (ex_projection [(7, [1, 2])]) (ex_projection [(7, [2])])"
  by (subst membership_diff_exact)
    (auto simp: maps_ok_def lists_distinct_def ex_projection_def node_users_def lookup_list_def)

text \<open>
  The binding list that config generation reads is the grant relation: it is strictly ascending by
  inbound and user, so no credential is listed twice, and it has a pair exactly when the inbound is
  enabled and the user is granted it directly or through a path that enters there.
\<close>

theorem inbound_bindings_exact:
  assumes "\<And>us. mset (uord us) = mset us" and "\<And>m. mset (gord m) = mset m"
  shows "sorted_wrt (<) (map (\<lambda>b. (iu_InboundID b, iu_UserID b))
           (InboundUserBindings (BuildEffectiveAccessSnapshot uord gord clock inp))) \<and>
    set (map (\<lambda>b. (iu_InboundID b, iu_UserID b)) (InboundUserBindings (BuildEffectiveAccessSnapshot uord gord clock inp))) =
      {(i, u). inbound_enabled (inbound_index inp) i \<and>
        (node_granted inp (snapshot_time clock inp) u AssignableNodeInbound i \<or>
         (\<exists>p path. path_index inp p = Some path \<and> pp_InboundID path = i \<and>
            node_granted inp (snapshot_time clock inp) u AssignableNodeProxyPath p))}"
    (is "?sorted \<and> ?set = ?granted")
proof
  let ?m = "es_InboundUsers (BuildEffectiveAccessSnapshot uord gord clock inp)"
  note lists = Build_inbound_lists [of uord gord clock inp]
  show ?sorted
    unfolding InboundUserBindings_keys strict_sorted_iff by (simp add: distinct_pairs [OF lists])
  have "(i, u) \<in> ?set \<longleftrightarrow> (i, u) \<in> ?granted" for i u
  proof -
    have "(i, u) \<in> ?set \<longleftrightarrow> (\<exists>us. map_of ?m i = Some us \<and> u \<in> set us)"
      using lists(1) by (auto simp: InboundUserBindings_keys)
    also have "\<dots> \<longleftrightarrow> active_user inp u \<and> (\<exists>kg\<in>set (grants_of inp (snapshot_time clock inp) u).
        (i, u) \<in> set (emit_inbound (path_index inp) (inbound_index inp) u kg))"
      by (simp only: Build_views(3) [OF assms] listed_mem mem_Collect_eq finite_active)
    finally show ?thesis unfolding inbound_reach by simp
  qed
  then show "?set = ?granted" by (intro set_eqI) (simp only: split_paired_all)
qed

theorem inbound_bindings_exact_witness:
  "(7, 1) \<in> set (map (\<lambda>b. (iu_InboundID b, iu_UserID b))
     (InboundUserBindings (BuildEffectiveAccessSnapshot rev rev 0 ex_input)))"
  unfolding inbound_bindings_exact [OF mset_rev mset_rev, THEN conjunct2]
  by (simp add: ex_snapshot_defs inbound_enabled_def)

end
