(* ===== verification/Authorization_Ledger.thy ===== *)
theory Authorization_Ledger
  imports Oboard_Prelude
begin

text \<open>
  The durable authorization ledger of \<open>internal/store/authorization_states.go\<close>: the rows of the
  tables \<open>authorization_states\<close> and \<open>authorization_denials\<close> and the operations on them. Each operation
  is one transaction, so it is a function from the two tables to a result and the new tables; a
  rollback returns the tables it was given. Failures of the database driver are not modelled, and
  neither is the deletion of a server, which drops its rows.

  The clock reading an operation takes with \<open>time.Now\<close> is its argument \<open>ts\<close>. Timestamps are stored
  as text, so a comparison in SQL is \<open>sql_time_less\<close>.
\<close>

section \<open>The tables\<close>

abbreviation AuthorizationPendingDelivering :: string where "AuthorizationPendingDelivering \<equiv> ''delivering''"
abbreviation AuthorizationPendingAwaitingConfirm :: string where
  "AuthorizationPendingAwaitingConfirm \<equiv> ''awaiting_confirmation''"

record AuthorizationState =
  st_ServerID :: int
  st_DesiredRevision :: int
  st_DesiredDigest :: string
  st_DesiredKeys :: "string list"
  st_EvaluatedRoutingRevision :: int
  st_IssuedSequence :: int
  st_LastIssuedExpiresAt :: "time option"
  st_DeliveredRevision :: int
  st_DeliveredSequence :: int
  st_DeliveredMessageID :: string
  st_DeliveredAt :: "time option"
  st_ConfirmedRevision :: int
  st_ConfirmedSequence :: int
  st_ConfirmedDigest :: string
  st_ConfirmedBootID :: string
  st_ConfirmedAt :: "time option"
  st_PendingReason :: string
  st_LastError :: string
  st_Retryable :: bool
  st_UpdatedAt :: time

definition State_Confirmed :: "AuthorizationState \<Rightarrow> bool" where
  "State_Confirmed s \<longleftrightarrow> st_DesiredRevision s > 0 \<and> st_ConfirmedRevision s \<ge> st_DesiredRevision s"

record AuthorizationDenial =
  dn_ServerID :: int
  dn_CredentialID :: string
  dn_DenyRevision :: int
  dn_LeaseBoundUntil :: time
  dn_ConfirmedAt :: "time option"
  dn_CreatedAt :: time

record ledger =
  lg_states :: "(int, AuthorizationState) gomap"
  lg_denials :: "(int \<times> string, AuthorizationDenial) gomap"

text \<open>The column defaults of the table.\<close>

definition default_state :: "int \<Rightarrow> time \<Rightarrow> AuthorizationState" where
  "default_state serverID ts =
     \<lparr>st_ServerID = serverID, st_DesiredRevision = 0, st_DesiredDigest = [], st_DesiredKeys = [],
      st_EvaluatedRoutingRevision = 0, st_IssuedSequence = 0, st_LastIssuedExpiresAt = None,
      st_DeliveredRevision = 0, st_DeliveredSequence = 0, st_DeliveredMessageID = [], st_DeliveredAt = None,
      st_ConfirmedRevision = 0, st_ConfirmedSequence = 0, st_ConfirmedDigest = [], st_ConfirmedBootID = [],
      st_ConfirmedAt = None, st_PendingReason = [], st_LastError = [], st_Retryable = True, st_UpdatedAt = ts\<rparr>"

text \<open>\<open>insert or ignore\<close>, and \<open>update ... where server_id=?\<close>.\<close>

definition ensure_row :: "int \<Rightarrow> time \<Rightarrow> ledger \<Rightarrow> ledger" where
  "ensure_row serverID ts lg =
     (case map_of (lg_states lg) serverID of
        Some _ \<Rightarrow> lg
      | None \<Rightarrow> lg\<lparr>lg_states := AList.update serverID (default_state serverID ts) (lg_states lg)\<rparr>)"

definition update_row :: "int \<Rightarrow> (AuthorizationState \<Rightarrow> AuthorizationState) \<Rightarrow> ledger \<Rightarrow> ledger" where
  "update_row serverID f lg =
     (case map_of (lg_states lg) serverID of
        Some s \<Rightarrow> lg\<lparr>lg_states := AList.update serverID (f s) (lg_states lg)\<rparr>
      | None \<Rightarrow> lg)"

section \<open>Desired state\<close>

record AuthorizationDesiredEvaluation =
  ev_State :: AuthorizationState
  ev_Changed :: bool
  ev_DeniedKeys :: "string list"

text \<open>The upsert of one denial.\<close>

definition upsert_denial :: "int \<Rightarrow> int \<Rightarrow> time \<Rightarrow> time \<Rightarrow> string \<Rightarrow> ledger \<Rightarrow> ledger" where
  "upsert_denial serverID nextRevision bound ts key lg =
     lg\<lparr>lg_denials := AList.update (serverID, key)
       (case map_of (lg_denials lg) (serverID, key) of
          None \<Rightarrow> \<lparr>dn_ServerID = serverID, dn_CredentialID = key, dn_DenyRevision = nextRevision,
                   dn_LeaseBoundUntil = bound, dn_ConfirmedAt = None, dn_CreatedAt = ts\<rparr>
        | Some d \<Rightarrow> d\<lparr>dn_DenyRevision := nextRevision,
                      dn_LeaseBoundUntil :=
                        (if sql_time_less (dn_LeaseBoundUntil d) bound then bound else dn_LeaseBoundUntil d),
                      dn_ConfirmedAt := None\<rparr>) (lg_denials lg)\<rparr>"

definition denied_keys :: "AuthorizationState \<Rightarrow> string list \<Rightarrow> string list" where
  "denied_keys current sorted_keys = sort (remdups (filter (\<lambda>key. key \<notin> set sorted_keys) (st_DesiredKeys current)))"

definition denial_bound :: "AuthorizationState \<Rightarrow> time \<Rightarrow> time" where
  "denial_bound current now =
     (case st_LastIssuedExpiresAt current of Some e \<Rightarrow> if now < e then e else now | None \<Rightarrow> now)"

definition with_desired :: "int \<Rightarrow> string \<Rightarrow> string list \<Rightarrow> int \<Rightarrow> AuthorizationState \<Rightarrow> AuthorizationState" where
  "with_desired revision digest keys routingRevision s =
     s\<lparr>st_DesiredRevision := revision, st_DesiredDigest := digest, st_DesiredKeys := keys,
       st_EvaluatedRoutingRevision := routingRevision,
       st_PendingReason := (if st_PendingReason s = [] then AuthorizationPendingDelivering else st_PendingReason s)\<rparr>"

text \<open>The branch that the evaluation takes when the desired state changes.\<close>

definition advance_desired ::
  "int \<Rightarrow> int \<Rightarrow> string \<Rightarrow> string list \<Rightarrow> time \<Rightarrow> AuthorizationState \<Rightarrow> ledger \<Rightarrow> AuthorizationDesiredEvaluation \<times> ledger" where
  "advance_desired serverID routingRevision digest sorted_keys now current lg =
     (let nextRevision = st_DesiredRevision current + 1;
          bound = denial_bound current now;
          denied = denied_keys current sorted_keys;
          lg = fold (upsert_denial serverID nextRevision bound now) denied lg;
          lg = update_row serverID (\<lambda>s. (with_desired nextRevision digest sorted_keys routingRevision s)\<lparr>st_UpdatedAt := now\<rparr>) lg
      in (\<lparr>ev_State = with_desired nextRevision digest sorted_keys routingRevision current,
           ev_Changed = True, ev_DeniedKeys = denied\<rparr>, lg))"

definition EvaluateAuthorizationDesired ::
  "ledger \<Rightarrow> int \<Rightarrow> int \<Rightarrow> string \<Rightarrow> string list \<Rightarrow> time \<Rightarrow> AuthorizationDesiredEvaluation result \<times> ledger" where
  "EvaluateAuthorizationDesired lg serverID routingRevision digest keys now =
     (if serverID \<le> 0 then (Inl ''server id must be positive'', lg)
      else
        (let sorted_keys = sort keys;
             tx = ensure_row serverID now lg;
             current = the (map_of (lg_states tx) serverID);
             out = \<lparr>ev_State = current, ev_Changed = False, ev_DeniedKeys = []\<rparr>
         in if st_DesiredDigest current = digest \<and> st_DesiredRevision current > 0 then
              (if st_EvaluatedRoutingRevision current = routingRevision then (Inr out, lg)
               else (Inr (out\<lparr>ev_State := current\<lparr>st_EvaluatedRoutingRevision := routingRevision\<rparr>\<rparr>),
                     update_row serverID
                       (\<lambda>s. s\<lparr>st_EvaluatedRoutingRevision := routingRevision, st_UpdatedAt := now\<rparr>) tx))
            else
              (let (out, tx) = advance_desired serverID routingRevision digest sorted_keys now current tx
               in (Inr out, tx))))"

section \<open>Leases\<close>

definition issue_lease :: "time \<Rightarrow> time \<Rightarrow> AuthorizationState \<Rightarrow> AuthorizationState" where
  "issue_lease expiresAt ts s =
     s\<lparr>st_IssuedSequence := st_IssuedSequence s + 1,
       st_LastIssuedExpiresAt :=
         (case st_LastIssuedExpiresAt s of
            None \<Rightarrow> Some expiresAt
          | Some e \<Rightarrow> if sql_time_less e expiresAt then Some expiresAt else Some e),
       st_UpdatedAt := ts\<rparr>"

definition IssueAuthorizationSequence :: "ledger \<Rightarrow> int \<Rightarrow> int \<Rightarrow> time \<Rightarrow> time \<Rightarrow> int result \<times> ledger" where
  "IssueAuthorizationSequence lg serverID revision expiresAt ts =
     (if serverID \<le> 0 \<or> revision \<le> 0 then (Inl ''server id and authorization revision must be positive'', lg)
      else
        (let lg = ensure_row serverID ts lg;
             lg = update_row serverID (issue_lease expiresAt ts) lg
         in (Inr (st_IssuedSequence (the (map_of (lg_states lg) serverID))), lg)))"

definition EvaluateAuthorizationDesiredWithSequence ::
  "ledger \<Rightarrow> int \<Rightarrow> int \<Rightarrow> string \<Rightarrow> string list \<Rightarrow> time \<Rightarrow> time \<Rightarrow>
   (AuthorizationDesiredEvaluation \<times> int) result \<times> ledger" where
  "EvaluateAuthorizationDesiredWithSequence lg serverID routingRevision digest keys now expiresAt =
     (if serverID \<le> 0 then (Inl ''server id must be positive'', lg)
      else
        (let sorted_keys = sort keys;
             tx = ensure_row serverID now lg;
             current = the (map_of (lg_states tx) serverID);
             out = \<lparr>ev_State = current, ev_Changed = False, ev_DeniedKeys = []\<rparr>;
             (out, tx) =
               (if st_DesiredDigest current \<noteq> digest \<or> st_DesiredRevision current \<le> 0 then
                  (let nextRevision = st_DesiredRevision current + 1;
                       bound = (case st_LastIssuedExpiresAt current of Some e \<Rightarrow> if now < e then e else now | None \<Rightarrow> now);
                       denied = sort (fold removeAll sorted_keys (remdups (st_DesiredKeys current)));
                       tx = fold (upsert_denial serverID nextRevision bound now) denied tx;
                       tx = update_row serverID (\<lambda>s. s\<lparr>st_DesiredRevision := nextRevision, st_DesiredDigest := digest, st_DesiredKeys := sorted_keys,
                              st_EvaluatedRoutingRevision := routingRevision,
                              st_PendingReason := (if st_PendingReason s = [] then AuthorizationPendingDelivering else st_PendingReason s),
                              st_UpdatedAt := now\<rparr>) tx
                   in (\<lparr>ev_State = current\<lparr>st_DesiredRevision := nextRevision, st_DesiredDigest := digest, st_DesiredKeys := sorted_keys,
                          st_EvaluatedRoutingRevision := routingRevision,
                          st_PendingReason := (if st_PendingReason current = [] then AuthorizationPendingDelivering else st_PendingReason current)\<rparr>,
                        ev_Changed = True, ev_DeniedKeys = denied\<rparr>, tx))
                else if st_EvaluatedRoutingRevision current \<noteq> routingRevision then
                  (out\<lparr>ev_State := current\<lparr>st_EvaluatedRoutingRevision := routingRevision\<rparr>\<rparr>,
                   update_row serverID
                     (\<lambda>s. s\<lparr>st_EvaluatedRoutingRevision := routingRevision, st_UpdatedAt := now\<rparr>) tx)
                else (out, tx));
             tx = update_row serverID (issue_lease expiresAt now) tx;
             sequence = st_IssuedSequence (the (map_of (lg_states tx) serverID));
             out = out\<lparr>ev_State := (ev_State out)\<lparr>st_IssuedSequence := sequence\<rparr>\<rparr>
         in (Inr (out, sequence), tx)))"

section \<open>Delivery and confirmation\<close>

definition RecordAuthorizationDelivery ::
  "ledger \<Rightarrow> int \<Rightarrow> int \<Rightarrow> int \<Rightarrow> string \<Rightarrow> time \<Rightarrow> unit result \<times> ledger" where
  "RecordAuthorizationDelivery lg serverID revision sequence messageID ts =
     (if serverID \<le> 0 then (Inl ''server id must be positive'', lg)
      else (Inr (), update_row serverID (\<lambda>s.
        s\<lparr>st_DeliveredRevision := revision, st_DeliveredSequence := sequence,
          st_DeliveredMessageID := TrimSpace messageID, st_DeliveredAt := Some ts,
          st_PendingReason := (if st_ConfirmedRevision s \<ge> st_DesiredRevision s then []
                               else AuthorizationPendingAwaitingConfirm),
          st_LastError := [], st_Retryable := True, st_UpdatedAt := ts\<rparr>) lg))"

definition confirm_row :: "int \<Rightarrow> int \<Rightarrow> string \<Rightarrow> string \<Rightarrow> time \<Rightarrow> AuthorizationState \<Rightarrow> AuthorizationState" where
  "confirm_row revision sequence digest bootID ts s =
     s\<lparr>st_ConfirmedRevision := revision, st_ConfirmedSequence := sequence,
       st_ConfirmedDigest := TrimSpace digest, st_ConfirmedBootID := TrimSpace bootID, st_ConfirmedAt := Some ts,
       st_PendingReason := (if st_DesiredRevision s \<le> revision then [] else st_PendingReason s),
       st_LastError := (if st_DesiredRevision s \<le> revision then [] else st_LastError s),
       st_UpdatedAt := ts\<rparr>"

definition confirm_denials :: "int \<Rightarrow> int \<Rightarrow> time \<Rightarrow> ledger \<Rightarrow> ledger" where
  "confirm_denials serverID revision ts lg =
     lg\<lparr>lg_denials := map (\<lambda>(k, d).
       (k, if fst k = serverID \<and> dn_ConfirmedAt d = None \<and> dn_DenyRevision d \<le> revision
           then d\<lparr>dn_ConfirmedAt := Some ts\<rparr> else d)) (lg_denials lg)\<rparr>"

definition RecordAuthorizationConfirmation ::
  "ledger \<Rightarrow> int \<Rightarrow> int \<Rightarrow> int \<Rightarrow> string \<Rightarrow> string \<Rightarrow> time \<Rightarrow> bool \<times> ledger" where
  "RecordAuthorizationConfirmation lg serverID revision sequence digest bootID ts =
     (if serverID \<le> 0 \<or> revision \<le> 0 then (False, lg)
      else
        (let lg = ensure_row serverID ts lg;
             s = the (map_of (lg_states lg) serverID)
         in if st_ConfirmedRevision s < revision \<or> st_ConfirmedRevision s = revision \<and> st_ConfirmedSequence s < sequence
            then (True, confirm_denials serverID revision ts
                          (update_row serverID (confirm_row revision sequence digest bootID ts) lg))
            else (False, lg)))"

definition RestateAuthorizationConfirmation ::
  "ledger \<Rightarrow> int \<Rightarrow> int \<Rightarrow> int \<Rightarrow> string \<Rightarrow> string \<Rightarrow> time \<Rightarrow> time \<Rightarrow> bool \<times> ledger" where
  "RestateAuthorizationConfirmation lg serverID revision sequence digest bootID ts ts' =
     (let boot = TrimSpace bootID in
      if serverID \<le> 0 \<or> revision \<le> 0 \<or> boot = [] then
        RecordAuthorizationConfirmation lg serverID revision sequence digest bootID ts'
      else
        (case map_of (lg_states lg) serverID of
           Some s \<Rightarrow>
             if st_ConfirmedBootID s \<noteq> [] \<and> st_ConfirmedBootID s \<noteq> boot \<and> st_ConfirmedRevision s > revision
             then (True, update_row serverID (\<lambda>s.
                     s\<lparr>st_ConfirmedRevision := revision, st_ConfirmedSequence := sequence,
                       st_ConfirmedDigest := TrimSpace digest, st_ConfirmedBootID := boot,
                       st_ConfirmedAt := Some ts, st_PendingReason := [], st_LastError := [],
                       st_UpdatedAt := ts\<rparr>) lg)
             else RecordAuthorizationConfirmation lg serverID revision sequence digest bootID ts'
         | None \<Rightarrow> RecordAuthorizationConfirmation lg serverID revision sequence digest bootID ts'))"

definition ForceAuthorizationResync :: "ledger \<Rightarrow> int \<Rightarrow> time \<Rightarrow> unit result \<times> ledger" where
  "ForceAuthorizationResync lg serverID ts =
     (if serverID \<le> 0 then (Inl ''server id must be positive'', lg)
      else (Inr (), update_row serverID (\<lambda>s.
        s\<lparr>st_DesiredDigest := [], st_EvaluatedRoutingRevision := 0, st_ConfirmedRevision := 0,
          st_ConfirmedSequence := 0, st_ConfirmedDigest := [], st_ConfirmedBootID := [], st_ConfirmedAt := None,
          st_PendingReason := AuthorizationPendingDelivering, st_LastError := [], st_Retryable := True,
          st_UpdatedAt := ts\<rparr>) (ensure_row serverID ts lg)))"

definition MarkAuthorizationPending :: "ledger \<Rightarrow> int \<Rightarrow> string \<Rightarrow> string \<Rightarrow> bool \<Rightarrow> time \<Rightarrow> unit result \<times> ledger" where
  "MarkAuthorizationPending lg serverID reason lastError retryable ts =
     (if serverID \<le> 0 then (Inl ''server id must be positive'', lg)
      else
        (let lastError = (if length lastError > 2000 then take 2000 lastError else lastError)
         in (Inr (), update_row serverID (\<lambda>s.
               s\<lparr>st_PendingReason := TrimSpace reason, st_LastError := TrimSpace lastError,
                 st_Retryable := retryable, st_UpdatedAt := ts\<rparr>) (ensure_row serverID ts lg))))"

section \<open>Reading the ledger\<close>

text \<open>A server without a row reads as the zero state, whose time is zero.\<close>

definition Store_AuthorizationState :: "ledger \<Rightarrow> int \<Rightarrow> AuthorizationState" where
  "Store_AuthorizationState lg serverID =
     (case map_of (lg_states lg) serverID of Some s \<Rightarrow> s | None \<Rightarrow> default_state serverID 0)"

definition ListAuthorizationStates :: "ledger \<Rightarrow> AuthorizationState list" where
  "ListAuthorizationStates lg = map snd (sort_key fst (lg_states lg))"

text \<open>The \<open>servers\<close> table: identifiers with the agent identity, empty when not enrolled.\<close>

definition EnrolledServerIDs :: "(int, string) gomap \<Rightarrow> int list" where
  "EnrolledServerIDs servers = sort (map fst (filter (\<lambda>(i, agent). agent \<noteq> []) servers))"

definition StaleAuthorizationServerIDs :: "ledger \<Rightarrow> (int, string) gomap \<Rightarrow> int \<Rightarrow> int list" where
  "StaleAuthorizationServerIDs lg servers routingRevision =
     sort (map fst (filter (\<lambda>(i, agent). agent \<noteq> [] \<and>
       (case map_of (lg_states lg) i of
          None \<Rightarrow> True
        | Some s \<Rightarrow> st_EvaluatedRoutingRevision s < routingRevision \<or>
                    st_ConfirmedRevision s < st_DesiredRevision s)) servers))"

definition ListAuthorizationDenials :: "ledger \<Rightarrow> int \<Rightarrow> AuthorizationDenial list" where
  "ListAuthorizationDenials lg serverID =
     map snd (sort_key (\<lambda>(k, d). snd k) (filter (\<lambda>(k, d). fst k = serverID) (lg_denials lg)))"

definition PendingAuthorizationDenials :: "ledger \<Rightarrow> int \<Rightarrow> AuthorizationDenial list" where
  "PendingAuthorizationDenials lg serverID =
     map snd (sort_key (\<lambda>(k, d). snd k)
       (filter (\<lambda>(k, d). fst k = serverID \<and> dn_ConfirmedAt d = None) (lg_denials lg)))"

definition PruneAuthorizationDenials :: "ledger \<Rightarrow> time \<Rightarrow> nat \<times> ledger" where
  "PruneAuthorizationDenials lg now =
     (let gone = (\<lambda>(k, d). dn_ConfirmedAt d \<noteq> None \<and> sql_time_less (dn_LeaseBoundUntil d) now)
      in (length (filter gone (lg_denials lg)), lg\<lparr>lg_denials := filter (\<lambda>x. \<not> gone x) (lg_denials lg)\<rparr>))"

section \<open>The ledger as a transition system\<close>

text \<open>
  The operations interleave in any order and with any arguments. Next to the tables the state keeps
  what the outside world holds: every lease that was issued (the server, the credential keys it
  admits, its expiry) and the times at which denials were pruned.
\<close>

record world =
  w_ledger :: ledger
  w_leases :: "(int \<times> string list \<times> time) list"
  w_prunes :: "time list"

definition initial_world :: world where
  "initial_world = \<lparr>w_ledger = \<lparr>lg_states = [], lg_denials = []\<rparr>, w_leases = [], w_prunes = []\<rparr>"

inductive ledger_step :: "world \<Rightarrow> world \<Rightarrow> bool" where
  evaluate: "ledger_step w (w\<lparr>w_ledger := snd (EvaluateAuthorizationDesired (w_ledger w) serverID routingRevision digest keys now)\<rparr>)"
| evaluate_with_sequence:
    "EvaluateAuthorizationDesiredWithSequence (w_ledger w) serverID routingRevision digest keys now expiresAt = (Inr (out, sequence), lg) \<Longrightarrow>
     ledger_step w (w\<lparr>w_ledger := lg, w_leases := (serverID, st_DesiredKeys (ev_State out), expiresAt) # w_leases w\<rparr>)"
| issue:
    "IssueAuthorizationSequence (w_ledger w) serverID revision expiresAt ts = (Inr sequence, lg) \<Longrightarrow>
     ledger_step w (w\<lparr>w_ledger := lg, w_leases := (serverID, st_DesiredKeys (Store_AuthorizationState lg serverID), expiresAt) # w_leases w\<rparr>)"
| deliver: "ledger_step w (w\<lparr>w_ledger := snd (RecordAuthorizationDelivery (w_ledger w) serverID revision sequence messageID ts)\<rparr>)"
| confirm: "ledger_step w (w\<lparr>w_ledger := snd (RecordAuthorizationConfirmation (w_ledger w) serverID revision sequence digest bootID ts)\<rparr>)"
| restate: "ledger_step w (w\<lparr>w_ledger := snd (RestateAuthorizationConfirmation (w_ledger w) serverID revision sequence digest bootID ts ts')\<rparr>)"
| resync: "ledger_step w (w\<lparr>w_ledger := snd (ForceAuthorizationResync (w_ledger w) serverID ts)\<rparr>)"
| mark: "ledger_step w (w\<lparr>w_ledger := snd (MarkAuthorizationPending (w_ledger w) serverID reason lastError retryable ts)\<rparr>)"
| prune: "ledger_step w (w\<lparr>w_ledger := snd (PruneAuthorizationDenials (w_ledger w) now), w_prunes := now # w_prunes w\<rparr>)"

inductive ledger_reachable :: "world \<Rightarrow> bool" where
  start: "ledger_reachable initial_world"
| step: "ledger_reachable w \<Longrightarrow> ledger_step w w' \<Longrightarrow> ledger_reachable w'"

section \<open>Lemmas\<close>

text \<open>What the safety argument observes of the tables.\<close>

definition last_of :: "ledger \<Rightarrow> int \<Rightarrow> time option" where
  "last_of lg s = Option.bind (map_of (lg_states lg) s) st_LastIssuedExpiresAt"

definition keys_of :: "ledger \<Rightarrow> int \<Rightarrow> string set" where
  "keys_of lg s = set (st_DesiredKeys (Store_AuthorizationState lg s))"

definition bound_of :: "ledger \<Rightarrow> int \<Rightarrow> string \<Rightarrow> time option" where
  "bound_of lg s k = map_option dn_LeaseBoundUntil (map_of (lg_denials lg) (s, k))"

text \<open>
  The tables only grow in authority bounds: an issued expiry and a denial bound never move to an
  earlier second, and a key that leaves the desired set gets a denial that covers the last lease.
\<close>

definition grows :: "ledger \<Rightarrow> ledger \<Rightarrow> bool" where
  "grows lg lg' \<longleftrightarrow>
     (\<forall>s x. last_of lg s = Some x \<longrightarrow> (\<exists>y. last_of lg' s = Some y \<and> x div second \<le> y div second)) \<and>
     (\<forall>s k b. bound_of lg s k = Some b \<longrightarrow> (\<exists>c. bound_of lg' s k = Some c \<and> b div second \<le> c div second)) \<and>
     (\<forall>s k. k \<in> keys_of lg s \<longrightarrow> k \<in> keys_of lg' s \<or>
        (\<exists>c. bound_of lg' s k = Some c \<and> (\<forall>x. last_of lg s = Some x \<longrightarrow> x div second \<le> c div second)))"

lemma growsI:
  assumes "\<And>s x. last_of lg s = Some x \<Longrightarrow> \<exists>y. last_of lg' s = Some y \<and> x div second \<le> y div second"
    and "\<And>s k b. bound_of lg s k = Some b \<Longrightarrow> \<exists>c. bound_of lg' s k = Some c \<and> b div second \<le> c div second"
    and "\<And>s k. k \<in> keys_of lg s \<Longrightarrow> k \<notin> keys_of lg' s \<Longrightarrow>
        \<exists>c. bound_of lg' s k = Some c \<and> (\<forall>x. last_of lg s = Some x \<longrightarrow> x div second \<le> c div second)"
  shows "grows lg lg'"
  unfolding grows_def by (intro conjI allI impI assms(1,2); blast intro: assms(3))

lemma grows_last: "grows lg lg' \<Longrightarrow> last_of lg s = Some x \<Longrightarrow> \<exists>y. last_of lg' s = Some y \<and> x div second \<le> y div second"
  unfolding grows_def by blast

lemma grows_bound: "grows lg lg' \<Longrightarrow> bound_of lg s k = Some b \<Longrightarrow> \<exists>c. bound_of lg' s k = Some c \<and> b div second \<le> c div second"
  unfolding grows_def by blast

lemma grows_keys:
  "grows lg lg' \<Longrightarrow> k \<in> keys_of lg s \<Longrightarrow> k \<notin> keys_of lg' s \<Longrightarrow>
   \<exists>c. bound_of lg' s k = Some c \<and> (\<forall>x. last_of lg s = Some x \<longrightarrow> x div second \<le> c div second)"
  unfolding grows_def by blast

lemma grows_refl [simp, intro]: "grows lg lg"
  by (rule growsI) auto

lemma grows_trans:
  assumes 1: "grows a b" and 2: "grows b c"
  shows "grows a c"
proof (rule growsI)
  fix s x assume "last_of a s = Some x"
  from grows_last [OF 1 this] obtain y where y: "last_of b s = Some y" "x div second \<le> y div second" by blast
  with grows_last [OF 2 y(1)] show "\<exists>z. last_of c s = Some z \<and> x div second \<le> z div second" by force
next
  fix s k x assume "bound_of a s k = Some x"
  from grows_bound [OF 1 this] obtain y where y: "bound_of b s k = Some y" "x div second \<le> y div second" by blast
  with grows_bound [OF 2 y(1)] show "\<exists>z. bound_of c s k = Some z \<and> x div second \<le> z div second" by force
next
  fix s k assume k: "k \<in> keys_of a s" and k': "k \<notin> keys_of c s"
  show "\<exists>d. bound_of c s k = Some d \<and> (\<forall>x. last_of a s = Some x \<longrightarrow> x div second \<le> d div second)"
  proof (cases "k \<in> keys_of b s")
    case True
    from grows_keys [OF 2 True k'] obtain d where d: "bound_of c s k = Some d"
      "\<forall>x. last_of b s = Some x \<longrightarrow> x div second \<le> d div second" by blast
    then show ?thesis using grows_last [OF 1] by force
  next
    case False
    from grows_keys [OF 1 k False] obtain d where d: "bound_of b s k = Some d"
      "\<forall>x. last_of a s = Some x \<longrightarrow> x div second \<le> d div second" by blast
    with grows_bound [OF 2 d(1)] show ?thesis by force
  qed
qed

lemma ensure_row_view [simp]:
  "last_of (ensure_row i ts lg) = last_of lg" "keys_of (ensure_row i ts lg) = keys_of lg"
  "lg_denials (ensure_row i ts lg) = lg_denials lg" "bound_of (ensure_row i ts lg) = bound_of lg"
  by (auto simp: ensure_row_def last_of_def keys_of_def bound_of_def Store_AuthorizationState_def default_state_def
      AList.update_conv' fun_eq_iff split: option.splits)

lemma ensure_row_Some: "\<exists>s. map_of (lg_states (ensure_row i ts lg)) i = Some s"
  by (auto simp: ensure_row_def AList.update_conv' split: option.splits)

lemma update_row_denials [simp]: "lg_denials (update_row i f lg) = lg_denials lg"
  by (simp add: update_row_def split: option.splits)

lemma update_row_lookup:
  "map_of (lg_states (update_row i f lg)) j =
     (if j = i then map_option f (map_of (lg_states lg) j) else map_of (lg_states lg) j)"
  by (auto simp: update_row_def AList.update_conv' split: option.splits)

lemma last_of_update:
  "last_of (update_row i f lg) j =
     (if j = i then Option.bind (map_of (lg_states lg) i) (\<lambda>s. st_LastIssuedExpiresAt (f s)) else last_of lg j)"
  by (cases "map_of (lg_states lg) i") (simp_all add: last_of_def update_row_lookup)

lemma keys_of_update:
  "keys_of (update_row i f lg) j =
     (case map_of (lg_states lg) i of Some s \<Rightarrow> if j = i then set (st_DesiredKeys (f s)) else keys_of lg j | None \<Rightarrow> keys_of lg j)"
  by (cases "map_of (lg_states lg) i") (auto simp: keys_of_def Store_AuthorizationState_def update_row_lookup)

lemma bound_of_update [simp]: "bound_of (update_row i f lg) = bound_of lg"
  by (simp add: bound_of_def fun_eq_iff)

lemma keys_of_update_keep:
  assumes "\<And>s. st_DesiredKeys (f s) = st_DesiredKeys s"
  shows "keys_of (update_row i f lg) = keys_of lg"
  by (rule ext) (simp add: keys_of_update assms split: option.splits, simp add: keys_of_def Store_AuthorizationState_def)

lemma update_row_keep:
  assumes "\<And>s. st_LastIssuedExpiresAt (f s) = st_LastIssuedExpiresAt s" and "\<And>s. st_DesiredKeys (f s) = st_DesiredKeys s"
  shows "grows lg (update_row i f lg)"
proof -
  have "last_of (update_row i f lg) = last_of lg"
    by (rule ext) (simp add: last_of_update assms, simp add: last_of_def)
  moreover have "keys_of (update_row i f lg) = keys_of lg" using assms(2) by (rule keys_of_update_keep)
  ultimately show ?thesis by (simp add: grows_def)
qed

lemma grows_ensure [simp]: "grows (ensure_row i ts lg) lg' \<longleftrightarrow> grows lg lg'"
  by (simp add: grows_def)

lemma grows_ensure_row [simp]: "grows lg (ensure_row i ts lg)"
  by (rule growsI) auto

lemma issue_lease_fields [simp]: "st_DesiredKeys (issue_lease e ts s) = st_DesiredKeys s"
  by (simp add: issue_lease_def)

lemma issue_lease_grows: "grows lg (update_row i (issue_lease e ts) lg)"
proof (rule growsI)
  fix s x assume x: "last_of lg s = Some x"
  show "\<exists>y. last_of (update_row i (issue_lease e ts) lg) s = Some y \<and> x div second \<le> y div second"
  proof (cases "s = i")
    case True
    with x obtain r where "map_of (lg_states lg) i = Some r" "st_LastIssuedExpiresAt r = Some x"
      by (auto simp: last_of_def bind_eq_Some_conv)
    with True show ?thesis by (auto simp: last_of_update issue_lease_def dest: sql_time_less_seconds)
  qed (use x in \<open>simp add: last_of_update\<close>)
qed (auto simp: keys_of_update_keep)

lemma issue_lease_last:
  assumes "map_of (lg_states lg) i = Some s"
  shows "\<exists>y. last_of (update_row i (issue_lease e ts) lg) i = Some y \<and> e div second \<le> y div second"
  using assms
  by (cases "st_LastIssuedExpiresAt s")
    (auto simp: last_of_update issue_lease_def dest: not_sql_time_less_seconds)

text \<open>The denials of a change.\<close>

lemma upsert_denial_states [simp]: "lg_states (upsert_denial i r b ts k lg) = lg_states lg"
  by (simp add: upsert_denial_def)

lemma upsert_denial_bound:
  "bound_of (upsert_denial i r b ts k lg) s k' =
     (if s = i \<and> k' = k then
        Some (case bound_of lg s k of None \<Rightarrow> b | Some c \<Rightarrow> if sql_time_less c b then b else c)
      else bound_of lg s k')"
  by (auto simp: upsert_denial_def bound_of_def AList.update_conv' split: option.splits)

lemma upserts_states [simp]: "lg_states (fold (upsert_denial i r b ts) ks lg) = lg_states lg"
  by (induction ks arbitrary: lg) simp_all

lemma upserts_view [simp]:
  "last_of (fold (upsert_denial i r b ts) ks lg) = last_of lg" "keys_of (fold (upsert_denial i r b ts) ks lg) = keys_of lg"
  by (simp_all add: last_of_def keys_of_def Store_AuthorizationState_def fun_eq_iff)

lemma upserts_bound_mono:
  "bound_of lg s k = Some c \<Longrightarrow> \<exists>d. bound_of (fold (upsert_denial i r b ts) ks lg) s k = Some d \<and> c div second \<le> d div second"
proof (induction ks arbitrary: lg c)
  case (Cons a ks)
  have "\<exists>c'. bound_of (upsert_denial i r b ts a lg) s k = Some c' \<and> c div second \<le> c' div second"
    using Cons.prems by (auto simp: upsert_denial_bound dest: sql_time_less_seconds)
  then obtain c' where "bound_of (upsert_denial i r b ts a lg) s k = Some c'" "c div second \<le> c' div second" by blast
  with Cons.IH [of "upsert_denial i r b ts a lg" c'] show ?case by force
qed simp

lemma upserts_bound_new:
  "k \<in> set ks \<Longrightarrow> \<exists>d. bound_of (fold (upsert_denial i r b ts) ks lg) i k = Some d \<and> b div second \<le> d div second"
proof (induction ks arbitrary: lg)
  case (Cons a ks)
  show ?case
  proof (cases "k = a")
    case True
    have "\<exists>c. bound_of (upsert_denial i r b ts a lg) i k = Some c \<and> b div second \<le> c div second"
      by (auto simp: upsert_denial_bound True dest: not_sql_time_less_seconds split: option.splits)
    then obtain c where c: "bound_of (upsert_denial i r b ts a lg) i k = Some c" "b div second \<le> c div second" by blast
    from upserts_bound_mono [OF c(1), of i r b ts ks] c(2) show ?thesis by force
  next
    case False
    with Cons show ?thesis by simp
  qed
qed simp

lemma denial_bound_last: "st_LastIssuedExpiresAt s = Some x \<Longrightarrow> x div second \<le> denial_bound s now div second"
  by (auto simp: denial_bound_def second_def intro: zdiv_mono1)

lemma advance_desired_grows:
  assumes row: "map_of (lg_states lg) i = Some current"
  shows "grows lg (snd (advance_desired i rr dg ks now current lg))"
proof -
  let ?r = "st_DesiredRevision current + 1"
  let ?f = "\<lambda>s. (with_desired ?r dg ks rr s)\<lparr>st_UpdatedAt := now\<rparr>"
  let ?lg = "fold (upsert_denial i ?r (denial_bound current now) now) (denied_keys current ks) lg"
  have eq: "snd (advance_desired i rr dg ks now current lg) = update_row i ?f ?lg"
    by (simp add: advance_desired_def Let_def)
  show ?thesis unfolding eq
  proof (rule growsI)
    fix s x assume "last_of lg s = Some x"
    then show "\<exists>y. last_of (update_row i ?f ?lg) s = Some y \<and> x div second \<le> y div second"
      by (auto simp: last_of_update row with_desired_def) (simp add: last_of_def row)
  next
    fix s k b assume "bound_of lg s k = Some b"
    then show "\<exists>c. bound_of (update_row i ?f ?lg) s k = Some c \<and> b div second \<le> c div second"
      by (simp add: upserts_bound_mono)
  next
    fix s k assume k: "k \<in> keys_of lg s" and k': "k \<notin> keys_of (update_row i ?f ?lg) s"
    then have "s = i" by (auto simp: keys_of_update row split: if_splits)
    with k k' have "k \<in> set (denied_keys current ks)"
      by (simp add: keys_of_update row with_desired_def denied_keys_def) (simp add: keys_of_def Store_AuthorizationState_def row)
    from upserts_bound_new [OF this, of i ?r "denial_bound current now" now lg] \<open>s = i\<close>
    show "\<exists>c. bound_of (update_row i ?f ?lg) s k = Some c \<and> (\<forall>x. last_of lg s = Some x \<longrightarrow> x div second \<le> c div second)"
      using denial_bound_last [of current _ now] by (force simp: last_of_def row)
  qed
qed

subsection \<open>Every operation grows the ledger\<close>

lemma Evaluate_grows: "grows lg (snd (EvaluateAuthorizationDesired lg i rr dg keys now))"
proof (cases "i \<le> 0")
  case False
  obtain r where r: "map_of (lg_states (ensure_row i now lg)) i = Some r" using ensure_row_Some by blast
  have "grows lg (update_row i (\<lambda>s. s\<lparr>st_EvaluatedRoutingRevision := rr, st_UpdatedAt := now\<rparr>) (ensure_row i now lg))"
    by (rule grows_ensure [THEN iffD1]) (rule update_row_keep, simp_all)
  moreover have "grows lg (snd (advance_desired i rr dg (sort keys) now r (ensure_row i now lg)))"
    by (rule grows_ensure [THEN iffD1]) (rule advance_desired_grows [OF r])
  ultimately show ?thesis
    using False by (simp add: EvaluateAuthorizationDesired_def Let_def r case_prod_unfold)
qed (simp add: EvaluateAuthorizationDesired_def)

text \<open>Written out a second time in the source, the branch is the same: taking the keys out of the previous set one by one
  leaves those that are not among them.\<close>

lemma fold_removeAll: "fold removeAll ks xs = filter (\<lambda>key. key \<notin> set ks) xs"
  by (induction ks arbitrary: xs) (auto simp: removeAll_filter_not_eq intro: filter_cong)

lemma EvaluateAuthorizationDesiredWithSequence_alt:
  "EvaluateAuthorizationDesiredWithSequence lg serverID routingRevision digest keys now expiresAt =
     (if serverID \<le> 0 then (Inl ''server id must be positive'', lg)
      else
        (let sorted_keys = sort keys;
             tx = ensure_row serverID now lg;
             current = the (map_of (lg_states tx) serverID);
             out = \<lparr>ev_State = current, ev_Changed = False, ev_DeniedKeys = []\<rparr>;
             (out, tx) =
               (if st_DesiredDigest current \<noteq> digest \<or> st_DesiredRevision current \<le> 0 then
                  advance_desired serverID routingRevision digest sorted_keys now current tx
                else if st_EvaluatedRoutingRevision current \<noteq> routingRevision then
                  (out\<lparr>ev_State := current\<lparr>st_EvaluatedRoutingRevision := routingRevision\<rparr>\<rparr>,
                   update_row serverID
                     (\<lambda>s. s\<lparr>st_EvaluatedRoutingRevision := routingRevision, st_UpdatedAt := now\<rparr>) tx)
                else (out, tx));
             tx = update_row serverID (issue_lease expiresAt now) tx;
             sequence = st_IssuedSequence (the (map_of (lg_states tx) serverID));
             out = out\<lparr>ev_State := (ev_State out)\<lparr>st_IssuedSequence := sequence\<rparr>\<rparr>
         in (Inr (out, sequence), tx)))"
  unfolding EvaluateAuthorizationDesiredWithSequence_def advance_desired_def denied_keys_def denial_bound_def with_desired_def
    fold_removeAll remdups_filter Let_def by (simp cong: option.case_cong if_cong)

lemma EvaluateWithSequence_result:
  assumes "EvaluateAuthorizationDesiredWithSequence lg i rr dg keys now e = (Inr (out, sequence), lg')"
  shows "grows lg lg'" and "set (st_DesiredKeys (ev_State out)) = keys_of lg' i"
    and "\<exists>y. last_of lg' i = Some y \<and> e div second \<le> y div second"
proof -
  have i: "\<not> i \<le> 0" using assms by (auto simp: EvaluateAuthorizationDesiredWithSequence_alt)
  obtain r where r: "map_of (lg_states (ensure_row i now lg)) i = Some r" using ensure_row_Some by blast
  let ?tx = "ensure_row i now lg"
  let ?f = "\<lambda>s. s\<lparr>st_EvaluatedRoutingRevision := rr, st_UpdatedAt := now\<rparr>"
  consider (advance) "st_DesiredDigest r \<noteq> dg \<or> st_DesiredRevision r \<le> 0"
    | (watermark) "\<not> (st_DesiredDigest r \<noteq> dg \<or> st_DesiredRevision r \<le> 0)" "st_EvaluatedRoutingRevision r \<noteq> rr"
    | (same) "\<not> (st_DesiredDigest r \<noteq> dg \<or> st_DesiredRevision r \<le> 0)" "st_EvaluatedRoutingRevision r = rr" by blast
  then obtain tx s where lg': "lg' = update_row i (issue_lease e now) tx" and tx: "grows lg tx"
    and s: "map_of (lg_states tx) i = Some s" "st_DesiredKeys s = st_DesiredKeys (ev_State out)"
  proof cases
    case advance
    let ?a = "advance_desired i rr dg (sort keys) now r ?tx"
    have "lg' = update_row i (issue_lease e now) (snd ?a)" "st_DesiredKeys (ev_State out) = st_DesiredKeys (ev_State (fst ?a))"
      using assms i advance by (auto simp: EvaluateAuthorizationDesiredWithSequence_alt Let_def r case_prod_unfold)
    moreover have "grows lg (snd ?a)"
      by (rule grows_ensure [THEN iffD1]) (rule advance_desired_grows [OF r])
    moreover have "\<exists>s. map_of (lg_states (snd ?a)) i = Some s \<and> st_DesiredKeys s = st_DesiredKeys (ev_State (fst ?a))"
      by (simp add: advance_desired_def Let_def update_row_lookup r with_desired_def)
    ultimately show ?thesis using that by metis
  next
    case watermark
    have "lg' = update_row i (issue_lease e now) (update_row i ?f ?tx)" "st_DesiredKeys (ev_State out) = st_DesiredKeys r"
      using assms i watermark by (auto simp: EvaluateAuthorizationDesiredWithSequence_alt Let_def r case_prod_unfold)
    moreover have "grows lg (update_row i ?f ?tx)"
      by (rule grows_ensure [THEN iffD1]) (rule update_row_keep, simp_all)
    ultimately show ?thesis using that [of "update_row i ?f ?tx" "?f r"] by (simp add: update_row_lookup r)
  next
    case same
    have "lg' = update_row i (issue_lease e now) ?tx" "st_DesiredKeys (ev_State out) = st_DesiredKeys r"
      using assms i same by (auto simp: EvaluateAuthorizationDesiredWithSequence_alt Let_def r case_prod_unfold)
    moreover have "grows lg ?tx" by simp
    ultimately show ?thesis using that [of ?tx r] by (simp add: r)
  qed
  show "grows lg lg'" unfolding lg' using tx issue_lease_grows by (rule grows_trans)
  show "set (st_DesiredKeys (ev_State out)) = keys_of lg' i" unfolding lg'
    by (simp add: keys_of_update_keep) (simp add: keys_of_def Store_AuthorizationState_def s)
  show "\<exists>y. last_of lg' i = Some y \<and> e div second \<le> y div second" unfolding lg' by (rule issue_lease_last [OF s(1)])
qed

lemma Issue_result:
  assumes "IssueAuthorizationSequence lg i rv e ts = (Inr sequence, lg')"
  shows "grows lg lg'" and "\<exists>y. last_of lg' i = Some y \<and> e div second \<le> y div second"
proof -
  have lg': "lg' = update_row i (issue_lease e ts) (ensure_row i ts lg)"
    using assms by (auto simp: IssueAuthorizationSequence_def Let_def split: if_splits)
  show "grows lg lg'" unfolding lg' by (rule grows_ensure [THEN iffD1, OF issue_lease_grows])
  obtain r where r: "map_of (lg_states (ensure_row i ts lg)) i = Some r" using ensure_row_Some by blast
  show "\<exists>y. last_of lg' i = Some y \<and> e div second \<le> y div second" unfolding lg' by (rule issue_lease_last [OF r])
qed

lemma confirm_denials_view [simp]: "lg_states (confirm_denials i r ts lg) = lg_states lg"
  "bound_of (confirm_denials i r ts lg) = bound_of lg"
proof -
  have "map_option dn_LeaseBoundUntil (map_of (lg_denials (confirm_denials i r ts lg)) k) =
      map_option dn_LeaseBoundUntil (map_of (lg_denials lg) k)" for k
    by (cases "map_of (lg_denials lg) k") (simp_all add: confirm_denials_def map_of_map_key)
  then show "bound_of (confirm_denials i r ts lg) = bound_of lg" by (simp add: bound_of_def fun_eq_iff)
qed (simp add: confirm_denials_def)

lemma confirm_denials_grows: "grows lg lg' \<Longrightarrow> grows lg (confirm_denials i r ts lg')"
  by (simp add: grows_def last_of_def keys_of_def Store_AuthorizationState_def)

lemma Confirmation_grows: "grows lg (snd (RecordAuthorizationConfirmation lg i rv sq dg boot ts))"
proof -
  have "grows lg (update_row i (confirm_row rv sq dg boot ts) (ensure_row i ts lg))"
    by (rule grows_ensure [THEN iffD1]) (rule update_row_keep, simp_all add: confirm_row_def)
  moreover have "grows lg (ensure_row i ts lg)" by simp
  ultimately show ?thesis
    by (simp add: RecordAuthorizationConfirmation_def Let_def confirm_denials_grows)
qed

lemma Restate_grows: "grows lg (snd (RestateAuthorizationConfirmation lg i rv sq dg boot ts ts'))"
  by (auto simp: RestateAuthorizationConfirmation_def Let_def Confirmation_grows
      intro!: update_row_keep split: option.splits)

lemma Delivery_grows: "grows lg (snd (RecordAuthorizationDelivery lg i rv sq mid ts))"
  by (auto simp: RecordAuthorizationDelivery_def intro!: update_row_keep)

lemma Resync_grows: "grows lg (snd (ForceAuthorizationResync lg i ts))"
  by (auto simp: ForceAuthorizationResync_def intro!: grows_ensure [THEN iffD1, of i ts lg] update_row_keep)

lemma Mark_grows: "grows lg (snd (MarkAuthorizationPending lg i rs le rt ts))"
  by (auto simp: MarkAuthorizationPending_def Let_def intro!: grows_ensure [THEN iffD1, of i ts lg] update_row_keep)

subsection \<open>Revoked credentials stay denied\<close>

text \<open>
  A credential of an issued lease is accounted for: it is still desired, or a denial holds it until
  the second the lease ends, or denials were pruned in or after that second.
\<close>

definition accounted :: "world \<Rightarrow> int \<Rightarrow> string \<Rightarrow> time \<Rightarrow> bool" where
  "accounted w serverID key expiry \<longleftrightarrow>
     key \<in> keys_of (w_ledger w) serverID \<or>
     (\<exists>b. bound_of (w_ledger w) serverID key = Some b \<and> expiry div second \<le> b div second) \<or>
     (\<exists>p\<in>set (w_prunes w). expiry div second \<le> p div second)"

definition ledger_inv :: "world \<Rightarrow> bool" where
  "ledger_inv w \<longleftrightarrow>
     gomap_ok (lg_denials (w_ledger w)) \<and>
     (\<forall>(s, ks, e)\<in>set (w_leases w).
        (\<exists>y. last_of (w_ledger w) s = Some y \<and> e div second \<le> y div second) \<and>
        (\<forall>k\<in>set ks. accounted w s k e))"

lemma grows_inv:
  assumes inv: "ledger_inv w" and g: "grows (w_ledger w) lg" and ok: "gomap_ok (lg_denials lg)"
  shows "ledger_inv (w\<lparr>w_ledger := lg\<rparr>)"
  unfolding ledger_inv_def
proof (intro conjI ballI, goal_cases)
  case 1
  then show ?case using ok by simp
next
  case (2 lease)
  obtain s ks e where l: "lease = (s, ks, e)" by (cases lease)
  have lease: "(s, ks, e) \<in> set (w_leases w)" using 2 l by simp
  with inv obtain y where y: "last_of (w_ledger w) s = Some y" "e div second \<le> y div second"
    by (auto simp: ledger_inv_def)
  from grows_last [OF g y(1)] y(2) have "\<exists>y. last_of lg s = Some y \<and> e div second \<le> y div second" by force
  moreover have "accounted (w\<lparr>w_ledger := lg\<rparr>) s k e" if k: "k \<in> set ks" for k
  proof -
    from inv lease k have "accounted w s k e" by (auto simp: ledger_inv_def)
    then consider (key) "k \<in> keys_of (w_ledger w) s"
      | (bound) b where "bound_of (w_ledger w) s k = Some b" "e div second \<le> b div second"
      | (prune) "\<exists>p\<in>set (w_prunes w). e div second \<le> p div second"
      unfolding accounted_def by blast
    then show ?thesis
    proof cases
      case key
      show ?thesis
      proof (cases "k \<in> keys_of lg s")
        case False
        from grows_keys [OF g key False] y show ?thesis by (force simp: accounted_def)
      qed (simp add: accounted_def)
    next
      case bound
      from grows_bound [OF g bound(1)] bound(2) show ?thesis by (force simp: accounted_def)
    qed (simp add: accounted_def)
  qed
  ultimately show ?case by (simp add: l)
qed

lemma add_lease_inv:
  assumes "ledger_inv w" and "\<exists>y. last_of (w_ledger w) s = Some y \<and> e div second \<le> y div second"
    and "set ks \<subseteq> keys_of (w_ledger w) s"
  shows "ledger_inv (w\<lparr>w_leases := (s, ks, e) # w_leases w\<rparr>)"
  using assms by (auto simp: ledger_inv_def accounted_def)

lemma gomap_ok_upserts: "gomap_ok (lg_denials lg) \<Longrightarrow> gomap_ok (lg_denials (fold (upsert_denial i r b ts) ks lg))"
  by (induction ks arbitrary: lg) (auto simp: upsert_denial_def)

lemma gomap_ok_denials:
  assumes "gomap_ok (lg_denials lg)"
  shows "gomap_ok (lg_denials (snd (EvaluateAuthorizationDesired lg i rr dg keys now)))"
    and "gomap_ok (lg_denials (snd (EvaluateAuthorizationDesiredWithSequence lg i rr dg keys now e)))"
    and "gomap_ok (lg_denials (snd (IssueAuthorizationSequence lg i rv e ts)))"
    and "gomap_ok (lg_denials (snd (RecordAuthorizationDelivery lg i rv sq mid ts)))"
    and "gomap_ok (lg_denials (snd (RecordAuthorizationConfirmation lg i rv sq dg boot ts)))"
    and "gomap_ok (lg_denials (snd (RestateAuthorizationConfirmation lg i rv sq dg boot ts ts')))"
    and "gomap_ok (lg_denials (snd (ForceAuthorizationResync lg i ts)))"
    and "gomap_ok (lg_denials (snd (MarkAuthorizationPending lg i rs le rt ts)))"
    and "gomap_ok (lg_denials (snd (PruneAuthorizationDenials lg now)))"
proof -
  have adv: "gomap_ok (lg_denials (snd (advance_desired i rr dg ks now c (ensure_row i now lg))))" for rr dg ks now c
    using assms by (simp add: advance_desired_def Let_def gomap_ok_upserts)
  show "gomap_ok (lg_denials (snd (EvaluateAuthorizationDesired lg i rr dg keys now)))"
    using assms adv by (simp add: EvaluateAuthorizationDesired_def Let_def case_prod_unfold)
  show "gomap_ok (lg_denials (snd (EvaluateAuthorizationDesiredWithSequence lg i rr dg keys now e)))"
    using assms adv by (simp add: EvaluateAuthorizationDesiredWithSequence_alt Let_def case_prod_unfold)
  show "gomap_ok (lg_denials (snd (IssueAuthorizationSequence lg i rv e ts)))"
    using assms by (simp add: IssueAuthorizationSequence_def Let_def)
  show "gomap_ok (lg_denials (snd (RecordAuthorizationDelivery lg i rv sq mid ts)))"
    using assms by (simp add: RecordAuthorizationDelivery_def)
  show conf: "gomap_ok (lg_denials (snd (RecordAuthorizationConfirmation lg i rv sq dg boot ts)))" for ts
    using assms by (simp add: RecordAuthorizationConfirmation_def Let_def confirm_denials_def case_prod_unfold comp_def)
  show "gomap_ok (lg_denials (snd (RestateAuthorizationConfirmation lg i rv sq dg boot ts ts')))"
    using assms conf by (simp add: RestateAuthorizationConfirmation_def Let_def split: option.splits)
  show "gomap_ok (lg_denials (snd (ForceAuthorizationResync lg i ts)))"
    using assms by (simp add: ForceAuthorizationResync_def)
  show "gomap_ok (lg_denials (snd (MarkAuthorizationPending lg i rs le rt ts)))"
    using assms by (simp add: MarkAuthorizationPending_def Let_def)
  show "gomap_ok (lg_denials (snd (PruneAuthorizationDenials lg now)))"
    using assms by (simp add: PruneAuthorizationDenials_def Let_def gomap_ok_filter)
qed

lemma prune_bound:
  assumes "gomap_ok (lg_denials lg)" and "bound_of lg s k = Some b"
  shows "bound_of (snd (PruneAuthorizationDenials lg now)) s k = Some b \<or> b div second \<le> now div second"
proof -
  from assms(2) obtain d where d: "map_of (lg_denials lg) (s, k) = Some d" "dn_LeaseBoundUntil d = b"
    by (auto simp: bound_of_def)
  show ?thesis
  proof (cases "dn_ConfirmedAt d \<noteq> None \<and> sql_time_less b now")
    case True
    then show ?thesis by (simp add: sql_time_less_seconds)
  next
    case False
    then have "((s, k), d) \<in> set (lg_denials (snd (PruneAuthorizationDenials lg now)))"
      using map_of_mem [OF d(1)] d(2) by (auto simp: PruneAuthorizationDenials_def Let_def)
    then have "map_of (lg_denials (snd (PruneAuthorizationDenials lg now))) (s, k) = Some d"
      by (intro map_of_is_SomeI gomap_ok_denials(9) assms(1))
    with d(2) show ?thesis by (simp add: bound_of_def)
  qed
qed

lemma prune_inv:
  assumes inv: "ledger_inv w"
  shows "ledger_inv (w\<lparr>w_ledger := snd (PruneAuthorizationDenials (w_ledger w) now), w_prunes := now # w_prunes w\<rparr>)"
proof -
  let ?lg = "snd (PruneAuthorizationDenials (w_ledger w) now)"
  have view: "last_of ?lg = last_of (w_ledger w)" "keys_of ?lg = keys_of (w_ledger w)"
    by (simp_all add: PruneAuthorizationDenials_def Let_def last_of_def keys_of_def Store_AuthorizationState_def fun_eq_iff)
  have ok: "gomap_ok (lg_denials (w_ledger w))" using inv by (simp add: ledger_inv_def)
  have "accounted (w\<lparr>w_ledger := ?lg, w_prunes := now # w_prunes w\<rparr>) s k e" if "accounted w s k e" for s k e
  proof -
    from that consider (key) "k \<in> keys_of (w_ledger w) s"
      | (bound) b where "bound_of (w_ledger w) s k = Some b" "e div second \<le> b div second"
      | (prune) "\<exists>p\<in>set (w_prunes w). e div second \<le> p div second"
      unfolding accounted_def by blast
    then show ?thesis
    proof cases
      case bound
      from prune_bound [OF ok bound(1), of now] bound(2) show ?thesis by (force simp: accounted_def)
    qed (simp_all add: accounted_def view)
  qed
  with inv gomap_ok_denials(9) [OF ok] show ?thesis by (force simp: ledger_inv_def view)
qed

lemma ledger_inv_ok: "ledger_inv w \<Longrightarrow> gomap_ok (lg_denials (w_ledger w))"
  by (simp add: ledger_inv_def)

lemma ledger_step_inv: "ledger_step w w' \<Longrightarrow> ledger_inv w \<Longrightarrow> ledger_inv w'"
proof (induction rule: ledger_step.induct)
  case (evaluate_with_sequence w i rr dg keys now e out sequence lg)
  then have ok: "gomap_ok (lg_denials lg)"
    using gomap_ok_denials(2) [of "w_ledger w" i rr dg keys now e] by (simp add: ledger_inv_def)
  note res = EvaluateWithSequence_result [OF evaluate_with_sequence(1)]
  from add_lease_inv [OF grows_inv [OF evaluate_with_sequence(2) res(1) ok], of i e "st_DesiredKeys (ev_State out)"]
  show ?case using res(2,3) by simp
next
  case (issue w i rv e ts sequence lg)
  then have ok: "gomap_ok (lg_denials lg)"
    using gomap_ok_denials(3) [of "w_ledger w" i rv e ts] by (simp add: ledger_inv_def)
  note res = Issue_result [OF issue(1)]
  from add_lease_inv [OF grows_inv [OF issue(2) res(1) ok], of i e "st_DesiredKeys (Store_AuthorizationState lg i)"]
  show ?case using res(2) by (simp add: keys_of_def)
next
  case (prune w now)
  then show ?case by (rule prune_inv)
qed (auto intro!: grows_inv gomap_ok_denials Evaluate_grows Delivery_grows Confirmation_grows
    Restate_grows Resync_grows Mark_grows dest: ledger_inv_ok)

lemma ledger_reachable_inv: "ledger_reachable w \<Longrightarrow> ledger_inv w"
  by (induction rule: ledger_reachable.induct)
    (simp add: ledger_inv_def initial_world_def, blast intro: ledger_step_inv)

subsection \<open>Confirmation\<close>

lemma confirm_denials_lookup:
  "map_of (lg_denials (confirm_denials i r ts lg)) (s, k) =
     map_option (\<lambda>d. if s = i \<and> dn_ConfirmedAt d = None \<and> dn_DenyRevision d \<le> r then d\<lparr>dn_ConfirmedAt := Some ts\<rparr> else d)
       (map_of (lg_denials lg) (s, k))"
  by (simp add: confirm_denials_def map_of_map_key)

definition watermark :: "ledger \<Rightarrow> int \<Rightarrow> int \<times> int" where
  "watermark lg i = (st_ConfirmedRevision (Store_AuthorizationState lg i), st_ConfirmedSequence (Store_AuthorizationState lg i))"

lemma watermark_ensure [simp]: "watermark (ensure_row i ts lg) j = watermark lg j"
  by (auto simp: watermark_def Store_AuthorizationState_def ensure_row_def default_state_def AList.update_conv'
      split: option.splits)

lemma Store_state_row: "map_of (lg_states lg) i = Some s \<Longrightarrow> Store_AuthorizationState lg i = s"
  by (simp add: Store_AuthorizationState_def)

lemma ensure_row_present: "map_of (lg_states lg) i = Some s \<Longrightarrow> ensure_row i ts lg = lg"
  by (simp add: ensure_row_def)

lemma ensure_row_desired:
  assumes "map_of (lg_states (ensure_row i ts lg)) i = Some s" and "0 < st_DesiredRevision s"
  shows "ensure_row i ts lg = lg"
  using assms by (auto simp: ensure_row_def default_state_def AList.update_conv' split: option.splits)

lemma advance_desired_row:
  "map_of (lg_states lg) i = Some r \<Longrightarrow>
   map_of (lg_states (snd (advance_desired i rr dg ks now r lg))) i =
     Some ((with_desired (st_DesiredRevision r + 1) dg ks rr r)\<lparr>st_UpdatedAt := now\<rparr>)"
  by (simp add: advance_desired_def Let_def update_row_lookup)

lemma advance_desired_out:
  "fst (advance_desired i rr dg ks now r lg) =
     \<lparr>ev_State = with_desired (st_DesiredRevision r + 1) dg ks rr r, ev_Changed = True, ev_DeniedKeys = denied_keys r ks\<rparr>"
  by (simp add: advance_desired_def Let_def)

text \<open>The evaluation by cases on the stored row, which exists once the transaction has begun.\<close>

lemma Evaluate_cases:
  assumes i: "0 < i" and r: "map_of (lg_states (ensure_row i now lg)) i = Some r"
  shows "EvaluateAuthorizationDesired lg i rr dg keys now =
    (if st_DesiredDigest r = dg \<and> st_DesiredRevision r > 0 then
       (Inr \<lparr>ev_State = r\<lparr>st_EvaluatedRoutingRevision := rr\<rparr>, ev_Changed = False, ev_DeniedKeys = []\<rparr>,
        if st_EvaluatedRoutingRevision r = rr then lg
        else update_row i (\<lambda>s. s\<lparr>st_EvaluatedRoutingRevision := rr, st_UpdatedAt := now\<rparr>) lg)
     else (Inr (fst (advance_desired i rr dg (sort keys) now r (ensure_row i now lg))),
           snd (advance_desired i rr dg (sort keys) now r (ensure_row i now lg))))"
proof (cases "0 < st_DesiredRevision r")
  case True
  then have tx: "ensure_row i now lg = lg" by (rule ensure_row_desired [OF r])
  with r have "map_of (lg_states lg) i = Some r" by simp
  with i True tx show ?thesis by (auto simp: EvaluateAuthorizationDesired_def Let_def case_prod_unfold)
next
  case False
  with i r show ?thesis by (simp add: EvaluateAuthorizationDesired_def Let_def case_prod_unfold)
qed

lemma EvaluateWithSequence_cases:
  assumes i: "0 < i" and r: "map_of (lg_states (ensure_row i now lg)) i = Some r"
  shows "EvaluateAuthorizationDesiredWithSequence lg i rr dg keys now e =
    (case EvaluateAuthorizationDesired lg i rr dg keys now of
       (Inl err, tx) \<Rightarrow> (Inl err, tx)
     | (Inr out, tx) \<Rightarrow>
         (let tx' = update_row i (issue_lease e now) tx;
              sequence = st_IssuedSequence (the (map_of (lg_states tx') i))
          in (Inr (out\<lparr>ev_State := (ev_State out)\<lparr>st_IssuedSequence := sequence\<rparr>\<rparr>, sequence), tx')))"
proof (cases "0 < st_DesiredRevision r")
  case True
  then have tx: "ensure_row i now lg = lg" by (rule ensure_row_desired [OF r])
  with r have "map_of (lg_states lg) i = Some r" by simp
  with i True tx show ?thesis
    by (auto simp: Evaluate_cases [OF assms] EvaluateAuthorizationDesiredWithSequence_alt Let_def case_prod_unfold)
next
  case False
  with i r show ?thesis
    by (simp add: Evaluate_cases [OF assms] EvaluateAuthorizationDesiredWithSequence_alt Let_def case_prod_unfold)
qed

lemma upserts_other:
  "s \<noteq> i \<or> k \<notin> set ks \<Longrightarrow>
   map_of (lg_denials (fold (upsert_denial i r b ts) ks lg)) (s, k) = map_of (lg_denials lg) (s, k)"
  by (induction ks arbitrary: lg) (auto simp: upsert_denial_def AList.update_conv')

lemma upserts_open:
  assumes "k \<in> set ks"
  shows "\<exists>d. map_of (lg_denials (fold (upsert_denial i r b ts) ks lg)) (i, k) = Some d \<and>
     dn_DenyRevision d = r \<and> dn_ConfirmedAt d = None"
  using assms
proof (induction ks arbitrary: lg)
  case (Cons a ks)
  show ?case
  proof (cases "k \<in> set ks")
    case True
    then show ?thesis using Cons.IH by simp
  next
    case False
    with Cons.prems have "k = a" by simp
    moreover have "\<exists>d. map_of (lg_denials (upsert_denial i r b ts a lg)) (i, a) = Some d \<and>
        dn_DenyRevision d = r \<and> dn_ConfirmedAt d = None"
      by (simp add: upsert_denial_def AList.update_conv' split: option.splits)
    ultimately show ?thesis using False by (simp add: upserts_other)
  qed
qed simp

lemma denied_keys_eq: "denied_keys s ks = sorted_list_of_set (set (st_DesiredKeys s) - set ks)"
proof -
  have "set (denied_keys s ks) = set (st_DesiredKeys s) - set ks" by (auto simp: denied_keys_def)
  moreover have "distinct (denied_keys s ks)" "sorted (denied_keys s ks)" by (simp_all add: denied_keys_def)
  ultimately show ?thesis by (intro sorted_distinct_set_unique) simp_all
qed

lemma ensure_row_state:
  "map_of (lg_states (ensure_row i ts lg)) i = Some r \<Longrightarrow>
   st_DesiredKeys r = st_DesiredKeys (Store_AuthorizationState lg i) \<and>
   st_DesiredDigest r = st_DesiredDigest (Store_AuthorizationState lg i) \<and>
   st_DesiredRevision r = st_DesiredRevision (Store_AuthorizationState lg i)"
  by (auto simp: ensure_row_def Store_AuthorizationState_def default_state_def AList.update_conv' split: option.splits)

section \<open>Properties\<close>

text \<open>
  C1. Revoke safety of the ledger: in every reachable state, whatever the interleaving of evaluations,
  lease issues, deliveries, confirmations, restatements, resyncs and prunes, a credential that some
  issued lease admits is still desired, or is held by a denial that lasts until the second in which
  the lease ends, or has been pruned no earlier than that second. No revoke is lost while a lease
  that admits the credential can be live, up to the second to which SQL compares timestamps.
\<close>

theorem revoked_credential_stays_denied:
  assumes "ledger_reachable w" and "(serverID, keys, expiresAt) \<in> set (w_leases w)" and "key \<in> set keys"
  shows "key \<in> set (st_DesiredKeys (Store_AuthorizationState (w_ledger w) serverID)) \<or>
    (\<exists>d. map_of (lg_denials (w_ledger w)) (serverID, key) = Some d \<and> expiresAt < dn_LeaseBoundUntil d + second) \<or>
    (\<exists>p\<in>set (w_prunes w). expiresAt < p + second)"
proof -
  have sec: "a < b + second" if "a div second \<le> b div second" for a b
  proof -
    have "a = a div second * second + a mod second" by simp
    moreover have "a mod second < second" by (simp add: second_def)
    moreover have "a div second * second \<le> b div second * second" using that by (simp add: second_def)
    moreover have "b div second * second \<le> b" by (simp add: second_def)
    ultimately show ?thesis by linarith
  qed
  have "accounted w serverID key expiresAt"
    using ledger_reachable_inv [OF assms(1)] assms(2,3) by (auto simp: ledger_inv_def)
  then show ?thesis
    unfolding accounted_def keys_of_def by (auto simp: bound_of_def intro: sec)
qed

definition ex_issued :: ledger where
  "ex_issued = snd (EvaluateAuthorizationDesiredWithSequence (w_ledger initial_world) 1 1 ''d1'' [''a''] 0 (100 * second))"

definition ex_world :: world where
  "ex_world = \<lparr>w_ledger = snd (EvaluateAuthorizationDesired ex_issued 1 2 ''d2'' [] second),
     w_leases = [(1, [''a''], 100 * second)], w_prunes = []\<rparr>"

lemmas ex_ledger_eval = ex_world_def ex_issued_def initial_world_def EvaluateAuthorizationDesired_def
  EvaluateAuthorizationDesiredWithSequence_alt ensure_row_def update_row_def default_state_def advance_desired_def
  with_desired_def issue_lease_def denied_keys_def denial_bound_def upsert_denial_def Store_AuthorizationState_def Let_def second_def

lemma ex_world_reachable: "ledger_reachable ex_world"
proof -
  have "ledger_step initial_world
      (initial_world\<lparr>w_ledger := ex_issued, w_leases := (1, [''a''], 100 * second) # w_leases initial_world\<rparr>)"
    using ledger_step.evaluate_with_sequence [of initial_world 1 1 "''d1''" "[''a'']" 0 "100 * second"]
    by (simp add: ex_ledger_eval)
  note 1 = ledger_reachable.step [OF ledger_reachable.start this]
  let ?w = "initial_world\<lparr>w_ledger := ex_issued, w_leases := (1, [''a''], 100 * second) # w_leases initial_world\<rparr>"
  have eq: "ex_world = ?w\<lparr>w_ledger := snd (EvaluateAuthorizationDesired (w_ledger ?w) 1 2 ''d2'' [] second)\<rparr>"
    by (simp add: ex_world_def initial_world_def)
  show ?thesis unfolding eq by (rule ledger_reachable.step [OF 1 ledger_step.evaluate])
qed

theorem revoked_credential_stays_denied_witness:
  "\<exists>d. map_of (lg_denials (w_ledger ex_world)) (1, ''a'') = Some d \<and> 100 * second < dn_LeaseBoundUntil d + second"
  using revoked_credential_stays_denied [OF ex_world_reachable, of 1 "[''a'']" "100 * second" "''a''"]
  by (simp add: ex_ledger_eval)

text \<open>
  C20. The combined transaction is the two it replaces: evaluating the desired state with a sequence
  gives the same tables, the same evaluation (but for the sequence it carries) and the same sequence
  as evaluating first and then issuing a sequence for the resulting revision at the same instant.
\<close>

theorem evaluate_with_sequence_equivalent:
  assumes "st_DesiredRevision (Store_AuthorizationState lg serverID) \<ge> 0"
  shows "EvaluateAuthorizationDesiredWithSequence lg serverID routingRevision digest keys now expiresAt =
     (case EvaluateAuthorizationDesired lg serverID routingRevision digest keys now of
        (Inl err, lg') \<Rightarrow> (Inl err, lg')
      | (Inr out, lg') \<Rightarrow>
          (case IssueAuthorizationSequence lg' serverID (st_DesiredRevision (ev_State out)) expiresAt now of
             (Inl err, lg'') \<Rightarrow> (Inl err, lg'')
           | (Inr sequence, lg'') \<Rightarrow>
               (Inr (out\<lparr>ev_State := (ev_State out)\<lparr>st_IssuedSequence := sequence\<rparr>\<rparr>, sequence), lg'')))"
proof (cases "serverID \<le> 0")
  case True
  then show ?thesis by (simp add: EvaluateAuthorizationDesiredWithSequence_alt EvaluateAuthorizationDesired_def)
next
  case False
  obtain r where r: "map_of (lg_states (ensure_row serverID now lg)) serverID = Some r" using ensure_row_Some by blast
  have pos: "0 \<le> st_DesiredRevision r"
    using assms r by (auto simp: ensure_row_def Store_AuthorizationState_def default_state_def AList.update_conv'
        split: option.splits)
  have i: "0 < serverID" using False by simp
  have "\<exists>out tx s. EvaluateAuthorizationDesired lg serverID routingRevision digest keys now = (Inr out, tx) \<and>
      map_of (lg_states tx) serverID = Some s \<and> 0 < st_DesiredRevision (ev_State out)"
  proof (cases "st_DesiredDigest r = digest \<and> st_DesiredRevision r > 0")
    case True
    then have "map_of (lg_states lg) serverID = Some r" using r ensure_row_desired [OF r] by simp
    with True show ?thesis by (simp add: Evaluate_cases [OF i r] update_row_lookup)
  next
    case no: False
    then show ?thesis using pos
      by (simp add: Evaluate_cases [OF i r] advance_desired_out advance_desired_row [OF r] with_desired_def)
  qed
  then obtain out tx s where ev: "EvaluateAuthorizationDesired lg serverID routingRevision digest keys now = (Inr out, tx)"
    and s: "map_of (lg_states tx) serverID = Some s" and out: "0 < st_DesiredRevision (ev_State out)" by blast
  from False out have "IssueAuthorizationSequence tx serverID (st_DesiredRevision (ev_State out)) expiresAt now =
      (Inr (st_IssuedSequence (the (map_of (lg_states (update_row serverID (issue_lease expiresAt now) tx)) serverID))),
       update_row serverID (issue_lease expiresAt now) tx)"
    by (simp add: IssueAuthorizationSequence_def Let_def ensure_row_present [OF s])
  then show ?thesis by (simp add: EvaluateWithSequence_cases [OF i r] ev Let_def)
qed

theorem evaluate_with_sequence_equivalent_witness:
  "fst (EvaluateAuthorizationDesiredWithSequence ex_issued 1 3 ''d3'' [''b''] second (50 * second)) =
     (case EvaluateAuthorizationDesired ex_issued 1 3 ''d3'' [''b''] second of
        (Inl err, lg') \<Rightarrow> Inl err
      | (Inr out, lg') \<Rightarrow> Inr (out\<lparr>ev_State := (ev_State out)\<lparr>st_IssuedSequence := 2\<rparr>\<rparr>, 2))"
proof -
  have "st_DesiredRevision (Store_AuthorizationState ex_issued 1) \<ge> 0" by (simp add: ex_ledger_eval)
  from evaluate_with_sequence_equivalent [OF this, of 3 "''d3''" "[''b'']" second "50 * second"] show ?thesis
    by (simp add: ex_ledger_eval IssueAuthorizationSequence_def)
qed

text \<open>
  C21. An acknowledgement only moves the confirmed watermark forward: it is applied exactly when its
  revision and sequence are above the confirmed pair, then the pair becomes the acknowledged one and
  exactly the open denials of the server at or below the revision become confirmed; a late or
  repeated acknowledgement changes neither.
\<close>

theorem confirmation_moves_forward:
  "(case RecordAuthorizationConfirmation lg serverID revision sequence digest bootID ts of (applied, lg') \<Rightarrow>
      (applied \<longleftrightarrow> 0 < serverID \<and> 0 < revision \<and> watermark lg serverID < (revision, sequence)) \<and>
      watermark lg' serverID = (if applied then (revision, sequence) else watermark lg serverID) \<and>
      map_of (lg_denials lg') (other, key) =
        map_option (\<lambda>d. if applied \<and> other = serverID \<and> dn_ConfirmedAt d = None \<and> dn_DenyRevision d \<le> revision
                         then d\<lparr>dn_ConfirmedAt := Some ts\<rparr> else d) (map_of (lg_denials lg) (other, key)))"
proof (cases "serverID \<le> 0 \<or> revision \<le> 0")
  case True
  then show ?thesis by (auto simp: RecordAuthorizationConfirmation_def option.map_ident)
next
  case False
  obtain s where s: "map_of (lg_states (ensure_row serverID ts lg)) serverID = Some s" using ensure_row_Some by blast
  have w: "watermark lg serverID = (st_ConfirmedRevision s, st_ConfirmedSequence s)"
    using watermark_ensure [of serverID ts lg serverID] by (simp add: watermark_def Store_state_row [OF s])
  have less: "watermark lg serverID < (revision, sequence) \<longleftrightarrow>
      st_ConfirmedRevision s < revision \<or> st_ConfirmedRevision s = revision \<and> st_ConfirmedSequence s < sequence"
    by (auto simp: w)
  have new: "watermark (confirm_denials serverID revision ts
        (update_row serverID (confirm_row revision sequence digest bootID ts) (ensure_row serverID ts lg))) serverID = (revision, sequence)"
    by (simp add: watermark_def Store_AuthorizationState_def update_row_lookup s confirm_row_def)
  from False show ?thesis
    unfolding less by (simp add: RecordAuthorizationConfirmation_def Let_def s new confirm_denials_lookup option.map_ident)
qed

text \<open>
  The desired revision is semantic: an evaluation with the stored digest leaves revision, keys and
  denials alone; any other evaluation advances the revision by exactly one, stores the sorted keys,
  reports exactly the keys that left the set, ascending, and leaves each of them with an open denial
  at the new revision, and no other denial is touched.
\<close>

theorem evaluate_desired_semantics:
  assumes "0 < serverID" and "EvaluateAuthorizationDesired lg serverID routingRevision digest keys now = (res, lg')"
  shows "(let old = Store_AuthorizationState lg serverID; new = Store_AuthorizationState lg' serverID in
    if st_DesiredDigest old = digest \<and> 0 < st_DesiredRevision old then
      st_DesiredRevision new = st_DesiredRevision old \<and> st_DesiredKeys new = st_DesiredKeys old \<and>
      lg_denials lg' = lg_denials lg \<and> st_EvaluatedRoutingRevision new = routingRevision
    else
      (\<exists>out. res = Inr out \<and> ev_Changed out \<and>
         ev_DeniedKeys out = sorted_list_of_set (set (st_DesiredKeys old) - set keys)) \<and>
      st_DesiredRevision new = st_DesiredRevision old + 1 \<and> st_DesiredDigest new = digest \<and>
      st_DesiredKeys new = sort keys \<and>
      (if key \<in> set (st_DesiredKeys old) - set keys
       then \<exists>d. map_of (lg_denials lg') (serverID, key) = Some d \<and>
              dn_DenyRevision d = st_DesiredRevision new \<and> dn_ConfirmedAt d = None
       else map_of (lg_denials lg') (serverID, key) = map_of (lg_denials lg) (serverID, key)))"
proof -
  obtain r where r: "map_of (lg_states (ensure_row serverID now lg)) serverID = Some r" using ensure_row_Some by blast
  note old = ensure_row_state [OF r]
  show ?thesis
  proof (cases "st_DesiredDigest r = digest \<and> 0 < st_DesiredRevision r")
    case True
    then have "map_of (lg_states lg) serverID = Some r" using r ensure_row_desired [OF r] by simp
    with True assms(2) show ?thesis
      by (auto simp: Evaluate_cases [OF assms(1) r] Let_def Store_AuthorizationState_def update_row_lookup split: if_splits)
  next
    case False
    let ?tx = "ensure_row serverID now lg"
    let ?ks = "denied_keys r (sort keys)"
    have lg': "lg' = snd (advance_desired serverID routingRevision digest (sort keys) now r ?tx)"
      and res: "res = Inr (fst (advance_desired serverID routingRevision digest (sort keys) now r ?tx))"
      using assms(2) False by (auto simp: Evaluate_cases [OF assms(1) r])
    have den: "lg_denials lg' = lg_denials (fold (upsert_denial serverID (st_DesiredRevision r + 1) (denial_bound r now) now) ?ks ?tx)"
      by (simp add: lg' advance_desired_def Let_def)
    have new: "Store_AuthorizationState lg' serverID =
        (with_desired (st_DesiredRevision r + 1) digest (sort keys) routingRevision r)\<lparr>st_UpdatedAt := now\<rparr>"
      using advance_desired_row [OF r] by (simp add: lg' Store_AuthorizationState_def)
    have keys: "?ks = sorted_list_of_set (set (st_DesiredKeys r) - set keys)" by (simp add: denied_keys_eq)
    then have "set ?ks = set (st_DesiredKeys r) - set keys" by simp
    then show ?thesis
      using False upserts_open [of key ?ks] upserts_other [of serverID serverID key ?ks]
      unfolding Let_def old [THEN conjunct1, symmetric] old [THEN conjunct2, THEN conjunct1, symmetric]
        old [THEN conjunct2, THEN conjunct2, symmetric] new den
      by (simp add: res advance_desired_out keys with_desired_def)
  qed
qed

theorem evaluate_desired_semantics_witness:
  "\<exists>d. map_of (lg_denials (snd (EvaluateAuthorizationDesired ex_issued 1 2 ''d2'' [''b''] second))) (1, ''a'') = Some d \<and>
     dn_DenyRevision d = 2 \<and> dn_ConfirmedAt d = None"
  using evaluate_desired_semantics [of 1 ex_issued 2 "''d2''" "[''b'']" second
      "fst (EvaluateAuthorizationDesired ex_issued 1 2 ''d2'' [''b''] second)"
      "snd (EvaluateAuthorizationDesired ex_issued 1 2 ''d2'' [''b''] second)" "''a''"]
  by (simp add: ex_ledger_eval)

text \<open>
  A forced resync is a redelivery, not a change: the next evaluation with the same key set and any
  non-empty digest advances the revision by one, denies nothing, leaves every denial as it is, and
  the server counts as unconfirmed until it acknowledges the new revision.
\<close>

theorem resync_redelivers:
  assumes "0 < serverID" and "digest \<noteq> []" and "0 \<le> st_DesiredRevision (Store_AuthorizationState lg serverID)"
    and "set keys = set (st_DesiredKeys (Store_AuthorizationState lg serverID))"
    and "EvaluateAuthorizationDesired (snd (ForceAuthorizationResync lg serverID ts)) serverID routingRevision digest keys now = (res, lg')"
  shows "st_DesiredRevision (Store_AuthorizationState lg' serverID) =
      st_DesiredRevision (Store_AuthorizationState lg serverID) + 1 \<and>
    (\<exists>out. res = Inr out \<and> ev_Changed out \<and> ev_DeniedKeys out = []) \<and>
    lg_denials lg' = lg_denials lg \<and> \<not> State_Confirmed (Store_AuthorizationState lg' serverID)"
proof -
  let ?lg = "snd (ForceAuthorizationResync lg serverID ts)"
  obtain s where s: "map_of (lg_states (ensure_row serverID ts lg)) serverID = Some s" using ensure_row_Some by blast
  note old = ensure_row_state [OF s]
  obtain r where row: "map_of (lg_states ?lg) serverID = Some r"
    and r: "st_DesiredDigest r = []" "st_ConfirmedRevision r = 0" "st_DesiredRevision r = st_DesiredRevision s"
      "st_DesiredKeys r = st_DesiredKeys s"
    using assms(1) s by (simp add: ForceAuthorizationResync_def update_row_lookup)
  have tx: "ensure_row serverID now ?lg = ?lg" using row by (rule ensure_row_present)
  have none: "denied_keys r (sort keys) = []" using assms(4) old r(4) by (simp add: denied_keys_eq)
  have "EvaluateAuthorizationDesired ?lg serverID routingRevision digest keys now =
      (Inr (fst (advance_desired serverID routingRevision digest (sort keys) now r ?lg)),
       snd (advance_desired serverID routingRevision digest (sort keys) now r ?lg))"
    using Evaluate_cases [OF assms(1), of now ?lg r routingRevision digest keys] row assms(2) r(1) by (simp add: tx)
  then have res: "res = Inr (fst (advance_desired serverID routingRevision digest (sort keys) now r ?lg))"
    and lg': "lg' = snd (advance_desired serverID routingRevision digest (sort keys) now r ?lg)"
    using assms(5) by simp_all
  have new: "Store_AuthorizationState lg' serverID =
      (with_desired (st_DesiredRevision r + 1) digest (sort keys) routingRevision r)\<lparr>st_UpdatedAt := now\<rparr>"
    using advance_desired_row [OF row] by (simp add: lg' Store_AuthorizationState_def)
  have "lg_denials lg' = lg_denials lg"
    using assms(1) by (simp add: lg' advance_desired_def Let_def none ForceAuthorizationResync_def)
  then show ?thesis
    using assms(3) old r(2,3) by (simp add: new res advance_desired_out none with_desired_def State_Confirmed_def)
qed

theorem resync_redelivers_witness:
  "st_DesiredRevision (Store_AuthorizationState (snd (EvaluateAuthorizationDesired
     (snd (ForceAuthorizationResync ex_issued 1 second)) 1 1 ''d1'' [''a''] second)) 1) = 2"
proof -
  have "st_DesiredRevision (Store_AuthorizationState ex_issued 1) = 1"
    and "st_DesiredKeys (Store_AuthorizationState ex_issued 1) = [''a'']" by (simp_all add: ex_ledger_eval)
  then show ?thesis
    using resync_redelivers [of 1 "''d1''" ex_issued "[''a'']", OF _ _ _ _ surjective_pairing] by simp
qed

end
