(* ===== verification/Access_Sync.thy ===== *)
theory Access_Sync
  imports Authorization_Ledger
begin

text \<open>
  The reconciliation rounds that deliver authorization to agents: the summary rows of the ledgers
  (\<open>internal/store/access_sync_candidates.go\<close>), the hints that name the servers a round must look at
  (\<open>internal/controller/access_sync_hints.go\<close>) and the plan of a round with the two checks that no
  time boundary has passed (\<open>internal/controller/access_sync_round.go\<close>). The hint set is guarded by a
  mutex, so each of its operations is one step. The worker pool that runs a plan is not modelled.
\<close>

section \<open>Candidates\<close>

record AccessSyncCandidate =
  sc_ServerID :: int
  sc_DesiredRevision :: int
  sc_ConfirmedRevision :: int
  sc_EvaluatedRoutingRevision :: int
  sc_PendingReason :: string
  sc_Retryable :: bool

definition Candidate_Confirmed :: "AccessSyncCandidate \<Rightarrow> bool" where
  "Candidate_Confirmed c \<longleftrightarrow> sc_DesiredRevision c > 0 \<and> sc_ConfirmedRevision c \<ge> sc_DesiredRevision c"

definition Settled :: "AccessSyncCandidate \<Rightarrow> int \<Rightarrow> bool" where
  "Settled c routingRevision \<longleftrightarrow> Candidate_Confirmed c \<and> sc_EvaluatedRoutingRevision c = routingRevision"

definition ListAuthorizationSyncCandidates :: "ledger \<Rightarrow> (int, string) gomap \<Rightarrow> AccessSyncCandidate list" where
  "ListAuthorizationSyncCandidates lg servers =
     map (\<lambda>i. case map_of (lg_states lg) i of
                Some s \<Rightarrow> \<lparr>sc_ServerID = i, sc_DesiredRevision = st_DesiredRevision s,
                          sc_ConfirmedRevision = st_ConfirmedRevision s,
                          sc_EvaluatedRoutingRevision = st_EvaluatedRoutingRevision s,
                          sc_PendingReason = st_PendingReason s, sc_Retryable = st_Retryable s\<rparr>
              | None \<Rightarrow> \<lparr>sc_ServerID = i, sc_DesiredRevision = 0, sc_ConfirmedRevision = 0,
                        sc_EvaluatedRoutingRevision = 0, sc_PendingReason = [], sc_Retryable = True\<rparr>)
       (EnrolledServerIDs servers)"

section \<open>Hints\<close>

abbreviation accessSyncReasonRecovery :: string where "accessSyncReasonRecovery \<equiv> ''recovery''"
abbreviation accessSyncReasonChange :: string where "accessSyncReasonChange \<equiv> ''change''"
abbreviation accessSyncReasonDeadline :: string where "accessSyncReasonDeadline \<equiv> ''deadline''"
abbreviation accessSyncReasonRevoke :: string where "accessSyncReasonRevoke \<equiv> ''revoke''"
abbreviation accessSyncReasonReconnect :: string where "accessSyncReasonReconnect \<equiv> ''reconnect''"

definition accessSyncPriority :: "string \<Rightarrow> int" where
  "accessSyncPriority reason =
     (if reason = accessSyncReasonRevoke then 40
      else if reason = accessSyncReasonReconnect then 30
      else if reason = accessSyncReasonDeadline then 20
      else if reason = accessSyncReasonChange then 10
      else 0)"

definition accessSyncForces :: "string \<Rightarrow> bool" where
  "accessSyncForces reason \<longleftrightarrow> reason = accessSyncReasonReconnect \<or> reason = accessSyncReasonRevoke"

record accessSyncHint =
  sh_ServerID :: int
  sh_Reason :: string
  sh_Priority :: int
  sh_Force :: bool

type_synonym accessSyncHintSet = "(int, accessSyncHint) gomap"

text \<open>One iteration of the loop of \<open>note\<close>.\<close>

definition merge_hint :: "string \<Rightarrow> int \<Rightarrow> accessSyncHintSet \<Rightarrow> accessSyncHintSet" where
  "merge_hint reason serverID pending =
     (let priority = accessSyncPriority reason; force = accessSyncForces reason in
      if serverID \<le> 0 then pending
      else
        (case map_of pending serverID of
           None \<Rightarrow> AList.update serverID
                     \<lparr>sh_ServerID = serverID, sh_Reason = reason, sh_Priority = priority, sh_Force = force\<rparr> pending
         | Some existing \<Rightarrow>
             (let existing = (if priority > sh_Priority existing
                              then existing\<lparr>sh_Reason := reason, sh_Priority := priority\<rparr> else existing);
                  existing = existing\<lparr>sh_Force := sh_Force existing \<or> force\<rparr>
              in AList.update serverID existing pending)))"

definition hints_note :: "string \<Rightarrow> int list \<Rightarrow> accessSyncHintSet \<Rightarrow> accessSyncHintSet" where
  "hints_note reason serverIDs pending = fold (merge_hint reason) serverIDs pending"

definition hints_drain :: "accessSyncHintSet \<Rightarrow> accessSyncHint list \<times> accessSyncHintSet" where
  "hints_drain pending = (sort_key (\<lambda>h. (- sh_Priority h, sh_ServerID h)) (map snd pending), [])"

definition hints_size :: "accessSyncHintSet \<Rightarrow> nat" where
  "hints_size pending = length pending"

section \<open>The plan of a round\<close>

record accessSyncWork =
  aw_serverID :: int
  aw_force :: bool

record accessSyncPlan =
  pl_work :: "accessSyncWork list"
  pl_skipped :: nat

definition add_order :: "int \<Rightarrow> int set \<times> int list \<Rightarrow> int set \<times> int list" where
  "add_order serverID acc =
     (case acc of (seen, order) \<Rightarrow>
        if serverID \<notin> seen then (insert serverID seen, order @ [serverID]) else (seen, order))"

definition plan_server ::
  "(int \<rightharpoonup> AccessSyncCandidate) \<Rightarrow> int set \<Rightarrow> int \<Rightarrow> (int \<Rightarrow> bool) \<Rightarrow> int \<Rightarrow> accessSyncPlan \<Rightarrow> accessSyncPlan" where
  "plan_server byID forced routingRevision settled serverID plan =
     (if serverID \<in> forced then plan\<lparr>pl_work := pl_work plan @ [\<lparr>aw_serverID = serverID, aw_force = True\<rparr>]\<rparr>
      else
        (let ledgerSettled = (case byID serverID of Some candidate \<Rightarrow> Settled candidate routingRevision | None \<Rightarrow> False)
         in if ledgerSettled \<and> settled serverID then plan\<lparr>pl_skipped := pl_skipped plan + 1\<rparr>
            else plan\<lparr>pl_work := pl_work plan @ [\<lparr>aw_serverID = serverID, aw_force = ledgerSettled\<rparr>]\<rparr>))"

definition planAccessSyncRound ::
  "AccessSyncCandidate list \<Rightarrow> int \<Rightarrow> accessSyncHint list \<Rightarrow> (int \<Rightarrow> bool) \<Rightarrow> accessSyncPlan" where
  "planAccessSyncRound candidates routingRevision hints settled =
     (let forced = set (map sh_ServerID (filter sh_Force hints));
          (seen, order) = fold (\<lambda>hint. add_order (sh_ServerID hint)) hints ({}, []);
          byID = index_by sc_ServerID candidates;
          (seen, order) = fold (\<lambda>candidate. add_order (sc_ServerID candidate)) candidates (seen, order)
      in fold (plan_server byID forced routingRevision settled) order \<lparr>pl_work = [], pl_skipped = 0\<rparr>)"

text \<open>
  The lease state of a server: whether a lease was issued, the projection it came from and the first
  boundary that could change it. Projections are compared by identity, here an opaque value.
\<close>

record lease_state =
  ls_lease :: bool
  ls_projection :: nat
  ls_nextBoundary :: time

definition authorizationTimeBoundarySettled ::
  "(int \<rightharpoonup> lease_state) \<Rightarrow> nat option \<Rightarrow> int \<Rightarrow> time \<Rightarrow> bool" where
  "authorizationTimeBoundarySettled servers projection serverID now =
     (case projection of
        None \<Rightarrow> False
      | Some p \<Rightarrow>
          (case servers serverID of
             None \<Rightarrow> False
           | Some state \<Rightarrow>
               if \<not> ls_lease state \<or> ls_projection state \<noteq> p then False
               else if IsZero (ls_nextBoundary state) then True
               else now < ls_nextBoundary state))"

type_synonym runtimeUsersSettledCache = "int \<rightharpoonup> int"

definition markRuntimeUsersEvaluated :: "int \<Rightarrow> int \<Rightarrow> runtimeUsersSettledCache \<Rightarrow> runtimeUsersSettledCache" where
  "markRuntimeUsersEvaluated serverID generation servers = servers(serverID \<mapsto> generation)"

definition runtimeUsersTimeBoundarySettled :: "runtimeUsersSettledCache \<Rightarrow> int \<Rightarrow> int \<Rightarrow> bool" where
  "runtimeUsersTimeBoundarySettled servers serverID generation =
     (case servers serverID of Some recorded \<Rightarrow> recorded = generation | None \<Rightarrow> False)"

definition forgetRuntimeUsersSettled :: "int \<Rightarrow> runtimeUsersSettledCache \<Rightarrow> runtimeUsersSettledCache" where
  "forgetRuntimeUsersSettled serverID servers = servers(serverID := None)"

section \<open>Lemmas\<close>

subsection \<open>Merging hints\<close>

lemma merge_hint_lookup:
  "map_of (merge_hint reason i pending) s =
     (if s = i \<and> 0 < i then
        Some (case map_of pending s of
                None \<Rightarrow> \<lparr>sh_ServerID = i, sh_Reason = reason, sh_Priority = accessSyncPriority reason, sh_Force = accessSyncForces reason\<rparr>
              | Some h \<Rightarrow> h\<lparr>sh_Reason := (if accessSyncPriority reason > sh_Priority h then reason else sh_Reason h),
                            sh_Priority := max (sh_Priority h) (accessSyncPriority reason),
                            sh_Force := (sh_Force h \<or> accessSyncForces reason)\<rparr>)
      else map_of pending s)"
  by (auto simp: merge_hint_def Let_def AList.update_conv' max_def split: option.splits)

lemma gomap_ok_merge_hint: "gomap_ok pending \<Longrightarrow> gomap_ok (merge_hint reason i pending)"
  by (simp add: merge_hint_def Let_def split: option.splits)

text \<open>The notes one after the other, flattened to the pairs of a reason and a server.\<close>

definition note_all :: "(string \<times> int list) list \<Rightarrow> accessSyncHintSet \<Rightarrow> accessSyncHintSet" where
  "note_all ns pending = fold (\<lambda>(reason, ids). hints_note reason ids) ns pending"

definition noted :: "(string \<times> int list) list \<Rightarrow> (string \<times> int) list" where
  "noted ns = concat (map (\<lambda>(reason, ids). map (Pair reason) ids) ns)"

lemma note_all_flat: "note_all ns pending = fold (\<lambda>(reason, i). merge_hint reason i) (noted ns) pending"
proof -
  have "hints_note reason ids pending = fold (\<lambda>(reason, i). merge_hint reason i) (map (Pair reason) ids) pending"
    for reason ids pending by (induction ids arbitrary: pending) (simp_all add: hints_note_def)
  then show ?thesis
    by (induction ns arbitrary: pending) (auto simp: note_all_def noted_def)
qed

text \<open>The strongest of the notes of one server.\<close>

definition hint_ok :: "(string \<times> int) list \<Rightarrow> int \<Rightarrow> accessSyncHint option \<Rightarrow> bool" where
  "hint_ok ps s h =
     (let reasons = map fst (filter (\<lambda>p. snd p = s) ps) in
      case h of
        None \<Rightarrow> s \<le> 0 \<or> reasons = []
      | Some h \<Rightarrow> 0 < s \<and> sh_ServerID h = s \<and> sh_Reason h \<in> set reasons \<and>
          sh_Priority h = accessSyncPriority (sh_Reason h) \<and>
          list_all (\<lambda>r. accessSyncPriority r \<le> sh_Priority h) reasons \<and>
          sh_Force h = list_ex accessSyncForces reasons)"

lemma merge_all_ok: "hint_ok ps s (map_of (fold (\<lambda>(reason, i). merge_hint reason i) ps []) s)"
proof (induction ps rule: rev_induct)
  case Nil
  then show ?case by (simp add: hint_ok_def)
next
  case (snoc p ps)
  obtain reason i where p: "p = (reason, i)" by (cases p)
  show ?case
  proof (cases "s = i \<and> 0 < i")
    case False
    with snoc show ?thesis by (auto simp: p merge_hint_lookup hint_ok_def Let_def split: option.splits)
  next
    case True
    with snoc show ?thesis
      by (cases "map_of (fold (\<lambda>(reason, i). merge_hint reason i) ps []) s")
        (auto simp: p merge_hint_lookup hint_ok_def Let_def max_def list_all_iff list_ex_iff split: if_splits)
  qed
qed

lemma gomap_ok_merge_all: "gomap_ok pending \<Longrightarrow> gomap_ok (fold (\<lambda>(reason, i). merge_hint reason i) ps pending)"
  by (induction ps arbitrary: pending) (auto simp: gomap_ok_merge_hint)

subsection \<open>Planning\<close>

text \<open>The first occurrence of every element, in order.\<close>

definition first_occurrences :: "'a list \<Rightarrow> 'a list" where
  "first_occurrences xs = rev (remdups (rev xs))"

lemma add_order_fold: "fold add_order xs ({}, []) = (set xs, first_occurrences xs)"
  by (induction xs rule: rev_induct) (auto simp: add_order_def first_occurrences_def)

lemma set_first_occurrences [simp]: "set (first_occurrences xs) = set xs"
  and distinct_first_occurrences [simp]: "distinct (first_occurrences xs)"
  by (simp_all add: first_occurrences_def)

definition ledger_settled :: "AccessSyncCandidate list \<Rightarrow> int \<Rightarrow> int \<Rightarrow> bool" where
  "ledger_settled candidates routingRevision s =
     (case index_by sc_ServerID candidates s of Some c \<Rightarrow> Settled c routingRevision | None \<Rightarrow> False)"

definition must_run :: "AccessSyncCandidate list \<Rightarrow> int \<Rightarrow> accessSyncHint list \<Rightarrow> (int \<Rightarrow> bool) \<Rightarrow> int \<Rightarrow> bool" where
  "must_run candidates routingRevision hints settled s \<longleftrightarrow>
     list_ex (\<lambda>h. sh_Force h \<and> sh_ServerID h = s) hints \<or> \<not> ledger_settled candidates routingRevision s \<or> \<not> settled s"

lemma plan_fold:
  "fold (plan_server byID forced rr settled) order p =
     p\<lparr>pl_work := pl_work p @ map (\<lambda>s. \<lparr>aw_serverID = s, aw_force = (s \<in> forced \<or>
            (case byID s of Some c \<Rightarrow> Settled c rr | None \<Rightarrow> False))\<rparr>)
          (filter (\<lambda>s. s \<in> forced \<or> \<not> (case byID s of Some c \<Rightarrow> Settled c rr | None \<Rightarrow> False) \<or> \<not> settled s) order),
       pl_skipped := pl_skipped p + length (filter (\<lambda>s. \<not> (s \<in> forced \<or>
          \<not> (case byID s of Some c \<Rightarrow> Settled c rr | None \<Rightarrow> False) \<or> \<not> settled s)) order)\<rparr>"
  by (induction order arbitrary: p) (simp_all add: plan_server_def Let_def)

lemma fold_map_order: "fold (\<lambda>x. add_order (f x)) xs acc = fold add_order (map f xs) acc"
  by (simp add: fold_map comp_def)

lemma plan_eq:
  "planAccessSyncRound candidates rr hints settled =
     (let order = first_occurrences (map sh_ServerID hints @ map sc_ServerID candidates);
          forced = (\<lambda>s. list_ex (\<lambda>h. sh_Force h \<and> sh_ServerID h = s) hints)
      in \<lparr>pl_work = map (\<lambda>s. \<lparr>aw_serverID = s, aw_force = (forced s \<or> ledger_settled candidates rr s)\<rparr>)
            (filter (must_run candidates rr hints settled) order),
          pl_skipped = length (filter (\<lambda>s. \<not> must_run candidates rr hints settled s) order)\<rparr>)"
proof -
  have forced: "s \<in> set (map sh_ServerID (filter sh_Force hints)) \<longleftrightarrow> list_ex (\<lambda>h. sh_Force h \<and> sh_ServerID h = s) hints" for s
    by (auto simp: list_ex_iff)
  have "fold (\<lambda>c. add_order (sc_ServerID c)) candidates (fold (\<lambda>h. add_order (sh_ServerID h)) hints ({}, [])) =
      fold add_order (map sh_ServerID hints @ map sc_ServerID candidates) ({}, [])"
    by (simp add: fold_map_order [of sc_ServerID] fold_map_order [of sh_ServerID])
  then have order: "fold (\<lambda>c. add_order (sc_ServerID c)) candidates (fold (\<lambda>h. add_order (sh_ServerID h)) hints ({}, [])) =
      (set (map sh_ServerID hints @ map sc_ServerID candidates),
       first_occurrences (map sh_ServerID hints @ map sc_ServerID candidates))"
    by (simp only: add_order_fold)
  have plan: "planAccessSyncRound candidates rr hints settled =
      fold (plan_server (index_by sc_ServerID candidates) (set (map sh_ServerID (filter sh_Force hints))) rr settled)
        (snd (fold (\<lambda>c. add_order (sc_ServerID c)) candidates (fold (\<lambda>h. add_order (sh_ServerID h)) hints ({}, []))))
        \<lparr>pl_work = [], pl_skipped = 0\<rparr>"
    unfolding planAccessSyncRound_def Let_def by (simp only: case_prod_beta prod.collapse)
  show ?thesis
    unfolding plan order plan_fold snd_conv forced Let_def by (simp add: must_run_def [abs_def] ledger_settled_def)
qed

section \<open>Properties\<close>

text \<open>
  No hint is lost and none is weakened: after any sequence of notes, draining yields one hint for
  exactly the servers with a positive identifier that some note named, in descending priority and
  ascending server, each with the strongest of its reasons and with the force flag that any of them
  sets, and the set is empty.
\<close>

theorem hints_merge_and_drain:
  "(case hints_drain (note_all ns []) of (hints, rest) \<Rightarrow>
      rest = [] \<and>
      sorted (map (\<lambda>h. (- sh_Priority h, sh_ServerID h)) hints) \<and>
      distinct (map sh_ServerID hints) \<and>
      set (map sh_ServerID hints) = {s. 0 < s \<and> s \<in> snd ` set (noted ns)} \<and>
      list_all (\<lambda>h. hint_ok (noted ns) (sh_ServerID h) (Some h)) hints)"
proof -
  let ?m = "fold (\<lambda>(reason, i). merge_hint reason i) (noted ns) []"
  have m: "note_all ns [] = ?m" by (rule note_all_flat)
  have ok: "gomap_ok ?m" by (rule gomap_ok_merge_all) simp
  have entry: "hint_ok (noted ns) s (Some h)" if "(s, h) \<in> set ?m" for s h
    using merge_all_ok [of "noted ns" s] that ok by simp
  then have id: "sh_ServerID h = s" if "(s, h) \<in> set ?m" for s h
    using that by (force simp: hint_ok_def Let_def)
  then have ids: "map sh_ServerID (map snd ?m) = map_keys ?m" by (auto intro!: map_cong)
  have mem: "s \<in> fst ` set ?m \<longleftrightarrow> 0 < s \<and> s \<in> snd ` set (noted ns)" for s
  proof (cases "map_of ?m s")
    case None
    moreover from None have "s \<notin> fst ` set ?m" by (simp add: map_of_None_notin)
    ultimately show ?thesis using merge_all_ok [of "noted ns" s]
      by (auto simp: hint_ok_def Let_def filter_empty_conv)
  next
    case (Some h)
    then have "(s, h) \<in> set ?m" by (rule map_of_mem)
    with entry [OF this] show ?thesis by (force simp: hint_ok_def Let_def)
  qed
  have "distinct (map sh_ServerID (map snd ?m))" unfolding ids by (rule ok)
  then have "distinct (map sh_ServerID (sort_key (\<lambda>h. (- sh_Priority h, sh_ServerID h)) (map snd ?m)))"
    by (simp only: distinct_map_sort_key)
  moreover have "set (map sh_ServerID (sort_key (\<lambda>h. (- sh_Priority h, sh_ServerID h)) (map snd ?m))) = fst ` set ?m"
    using arg_cong [OF ids, of set] by (simp add: image_image)
  moreover have "list_all (\<lambda>h. hint_ok (noted ns) (sh_ServerID h) (Some h)) (sort_key (\<lambda>h. (- sh_Priority h, sh_ServerID h)) (map snd ?m))"
    using entry id by (force simp: list_all_iff)
  moreover have "fst ` set ?m = {s. 0 < s \<and> s \<in> snd ` set (noted ns)}"
    by (rule set_eqI) (simp only: mem mem_Collect_eq)
  ultimately show ?thesis unfolding hints_drain_def m case_prod_conv by (simp del: set_map)
qed

text \<open>
  C25. A round does exactly what it owes: its work lists, hints first in the given order and each
  server once, exactly the servers that a forced hint names, or whose ledger row is not settled, or
  for which a time boundary has passed; work that the ledger alone would skip is forced; every other
  server is counted as skipped.
\<close>

theorem round_plan_exact:
  "pl_work (planAccessSyncRound candidates routingRevision hints settled) =
     map (\<lambda>s. \<lparr>aw_serverID = s, aw_force =
            (list_ex (\<lambda>h. sh_Force h \<and> sh_ServerID h = s) hints \<or> ledger_settled candidates routingRevision s)\<rparr>)
       (filter (must_run candidates routingRevision hints settled)
          (first_occurrences (map sh_ServerID hints @ map sc_ServerID candidates))) \<and>
   pl_skipped (planAccessSyncRound candidates routingRevision hints settled) +
     length (pl_work (planAccessSyncRound candidates routingRevision hints settled)) =
     card (sh_ServerID ` set hints \<union> sc_ServerID ` set candidates)"
proof -
  let ?order = "first_occurrences (map sh_ServerID hints @ map sc_ServerID candidates)"
  have "length ?order = card (sh_ServerID ` set hints \<union> sc_ServerID ` set candidates)"
    using distinct_card [of ?order] by simp
  moreover have "length (filter (\<lambda>s. \<not> P s) ?order) + length (filter P ?order) = length ?order" for P
    using sum_length_filter_compl [of P ?order] by simp
  ultimately show ?thesis by (simp add: plan_eq Let_def)
qed

text \<open>
  C26. The recovery scan misses no stale server: every server that the ledger's own stale query lists
  at a routing revision is in the work of a round planned from the ledger summary, whatever the hints
  and whatever the boundary check answers.
\<close>

theorem stale_servers_are_planned:
  assumes "s \<in> set (StaleAuthorizationServerIDs lg servers routingRevision)"
  shows "s \<in> aw_serverID ` set (pl_work (planAccessSyncRound (ListAuthorizationSyncCandidates lg servers) routingRevision hints settled))"
proof -
  let ?cs = "ListAuthorizationSyncCandidates lg servers"
  have enrolled: "s \<in> set (EnrolledServerIDs servers)"
    using assms by (auto simp: StaleAuthorizationServerIDs_def EnrolledServerIDs_def)
  have ids: "map sc_ServerID ?cs = EnrolledServerIDs servers"
    by (auto simp: ListAuthorizationSyncCandidates_def intro!: map_idI split: option.splits)
  have "\<not> ledger_settled ?cs routingRevision s"
  proof (cases "index_by sc_ServerID ?cs s")
    case (Some c)
    with index_by_Some [OF Some] have "c \<in> set ?cs" and "sc_ServerID c = s" by simp_all
    then have "\<not> Settled c routingRevision"
      using assms by (auto simp: ListAuthorizationSyncCandidates_def StaleAuthorizationServerIDs_def Settled_def
          Candidate_Confirmed_def split: option.splits)
    with Some show ?thesis by (simp add: ledger_settled_def)
  qed (simp add: ledger_settled_def)
  then have "must_run ?cs routingRevision hints settled s" by (simp add: must_run_def)
  with enrolled ids show ?thesis by (auto simp: plan_eq Let_def image_iff)
qed

theorem stale_servers_are_planned_witness:
  "1 \<in> aw_serverID ` set (pl_work (planAccessSyncRound (ListAuthorizationSyncCandidates ex_issued [(1, ''agent'')]) 1 [] (\<lambda>_. True)))"
  by (rule stale_servers_are_planned) (simp add: StaleAuthorizationServerIDs_def ex_ledger_eval)

end
