(* ===== verification/Coalesced_Queue.thy ===== *)
theory Coalesced_Queue
  imports Oboard_Prelude
begin

text \<open>
  The bounded next-due scheduler of \<open>internal/controller/coalesced_queue.go\<close>. The map of states, the
  buffered channel and the closed flag are the queue's own fields. Two more fields stand for the run
  time: \<open>cq_armed\<close> holds the keys whose timer callback has not run yet, \<open>cq_active\<close> the keys that a
  worker is evaluating. Every critical section under the mutex is one step, so a step relation
  interleaves enqueues, timer callbacks, the two critical sections of a worker and the stop in any
  order. The evaluation itself is only its outcome, and the clock is an argument of each step.
\<close>

section \<open>Definitions\<close>

record coalescedQueueConfig =
  cc_workers :: nat
  cc_size :: nat
  cc_debounce :: duration
  cc_minInterval :: duration
  cc_maxRetry :: duration

record coalescedState =
  cs_dirty :: bool
  cs_queued :: bool
  cs_running :: bool
  cs_timer :: "duration option"
  cs_lastFinished :: time
  cs_failures :: nat

record coalescedQueue =
  cq_states :: "(int, coalescedState) gomap"
  cq_ch :: "int list"
  cq_closed :: bool
  cq_armed :: "int list"
  cq_active :: "int list"

definition newCoalescedQueue :: coalescedQueue where
  "newCoalescedQueue = \<lparr>cq_states = [], cq_ch = [], cq_closed = False, cq_armed = [], cq_active = []\<rparr>"

definition newCoalescedState :: coalescedState where
  "newCoalescedState = \<lparr>cs_dirty = False, cs_queued = False, cs_running = False, cs_timer = None,
     cs_lastFinished = 0, cs_failures = 0\<rparr>"

definition nextDelayLocked :: "coalescedQueueConfig \<Rightarrow> time \<Rightarrow> coalescedState \<Rightarrow> duration" where
  "nextDelayLocked config now state =
     (let delay = cc_debounce config;
          delay = (if \<not> IsZero (cs_lastFinished state)
                   then (let until = time_sub (cs_lastFinished state + cc_minInterval config) now
                         in if until > delay then until else delay)
                   else delay);
          delay = (if cs_failures state > 0
                   then (let shift = min (cs_failures state - 1) 4;
                             retryDelay = cc_minInterval config * 2 ^ shift;
                             retryDelay = (if retryDelay > cc_maxRetry config then cc_maxRetry config else retryDelay)
                         in if retryDelay > delay then retryDelay else delay)
                   else delay)
      in if delay < 0 then 0 else delay)"

text \<open>\<open>time.AfterFunc\<close> arms a callback for the key.\<close>

definition scheduleLocked :: "int \<Rightarrow> coalescedState \<Rightarrow> duration \<Rightarrow> coalescedQueue \<Rightarrow> coalescedQueue" where
  "scheduleLocked key state delay q =
     q\<lparr>cq_states := AList.update key (state\<lparr>cs_timer := Some delay\<rparr>) (cq_states q),
       cq_armed := cq_armed q @ [key]\<rparr>"

definition enqueue :: "coalescedQueueConfig \<Rightarrow> time \<Rightarrow> int \<Rightarrow> coalescedQueue \<Rightarrow> coalescedQueue" where
  "enqueue config now key q =
     (if key \<le> 0 then q
      else if cq_closed q then q
      else
        (case map_of (cq_states q) key of
           None \<Rightarrow>
             if length (cq_states q) \<ge> cc_size config then q
             else scheduleLocked key (newCoalescedState\<lparr>cs_dirty := True\<rparr>)
                    (nextDelayLocked config now (newCoalescedState\<lparr>cs_dirty := True\<rparr>)) q
         | Some state \<Rightarrow>
             (let state = state\<lparr>cs_dirty := True\<rparr>
              in if cs_timer state = None \<and> \<not> cs_queued state \<and> \<not> cs_running state
                 then scheduleLocked key state (nextDelayLocked config now state) q
                 else q\<lparr>cq_states := AList.update key state (cq_states q)\<rparr>)))"

definition makeReady :: "coalescedQueueConfig \<Rightarrow> int \<Rightarrow> coalescedQueue \<Rightarrow> coalescedQueue" where
  "makeReady config key q =
     (if cq_closed q then q
      else
        (case map_of (cq_states q) key of
           None \<Rightarrow> q
         | Some state \<Rightarrow>
             (let state = state\<lparr>cs_timer := None\<rparr> in
              if \<not> cs_dirty state then q\<lparr>cq_states := AList.delete key (cq_states q)\<rparr>
              else if cs_running state \<or> cs_queued state
              then q\<lparr>cq_states := AList.update key state (cq_states q)\<rparr>
              else if length (cq_ch q) < cc_size config
              then q\<lparr>cq_states := AList.update key (state\<lparr>cs_queued := True\<rparr>) (cq_states q),
                     cq_ch := cq_ch q @ [key]\<rparr>
              else scheduleLocked key (state\<lparr>cs_queued := False\<rparr>) (cc_debounce config) q)))"

text \<open>
  The critical section of a worker before the evaluation of a received key, and the one after it, which
  reads the clock twice: for the completion time and, later, for the delay.
\<close>

definition worker_begin :: "int \<Rightarrow> coalescedQueue \<Rightarrow> coalescedQueue" where
  "worker_begin key q =
     (case map_of (cq_states q) key of
        None \<Rightarrow> q
      | Some state \<Rightarrow>
          if cq_closed q then q
          else q\<lparr>cq_states := AList.update key
                   (state\<lparr>cs_queued := False, cs_running := True, cs_dirty := False\<rparr>) (cq_states q),
                 cq_active := key # cq_active q\<rparr>)"

definition worker_end :: "coalescedQueueConfig \<Rightarrow> time \<Rightarrow> time \<Rightarrow> int \<Rightarrow> bool \<Rightarrow> coalescedQueue \<Rightarrow> coalescedQueue" where
  "worker_end config finished now key failed q =
     (let q = q\<lparr>cq_active := remove1 key (cq_active q)\<rparr> in
      case map_of (cq_states q) key of
        None \<Rightarrow> q
      | Some state \<Rightarrow>
          (let state = state\<lparr>cs_running := False, cs_lastFinished := finished\<rparr>;
               state = (if failed then state\<lparr>cs_failures := cs_failures state + 1, cs_dirty := True\<rparr>
                        else state\<lparr>cs_failures := 0\<rparr>)
           in if cs_dirty state \<and> \<not> cq_closed q
              then scheduleLocked key state (nextDelayLocked config now state) q
              else if \<not> cq_closed q then scheduleLocked key state (cc_minInterval config) q
              else q\<lparr>cq_states := AList.delete key (cq_states q)\<rparr>))"

definition queue_stop :: "coalescedQueue \<Rightarrow> coalescedQueue" where
  "queue_stop q = q\<lparr>cq_closed := True, cq_states := []\<rparr>"

inductive queue_step :: "coalescedQueueConfig \<Rightarrow> coalescedQueue \<Rightarrow> coalescedQueue \<Rightarrow> bool" for config where
  step_enqueue: "queue_step config q (enqueue config now key q)"
| step_timer: "key \<in> set (cq_armed q) \<Longrightarrow>
    queue_step config q (makeReady config key (q\<lparr>cq_armed := remove1 key (cq_armed q)\<rparr>))"
| step_begin: "cq_ch q = key # rest \<Longrightarrow> length (cq_active q) < cc_workers config \<Longrightarrow>
    queue_step config q (worker_begin key (q\<lparr>cq_ch := rest\<rparr>))"
| step_end: "key \<in> set (cq_active q) \<Longrightarrow> queue_step config q (worker_end config finished now key failed q)"
| step_stop: "queue_step config q (queue_stop q)"

section \<open>The invariant\<close>

text \<open>
  A state waits for exactly one thing: its timer, the channel or its worker.
\<close>

definition one_pending :: "coalescedState \<Rightarrow> bool" where
  "one_pending s \<longleftrightarrow>
     (case cs_timer s of
        Some _ \<Rightarrow> \<not> cs_queued s \<and> \<not> cs_running s
      | None \<Rightarrow> cs_queued s \<noteq> cs_running s)"

definition open_inv :: "coalescedQueueConfig \<Rightarrow> coalescedQueue \<Rightarrow> bool" where
  "open_inv config q \<longleftrightarrow>
     gomap_ok (cq_states q) \<and> length (cq_states q) \<le> cc_size config \<and>
     distinct (cq_ch q) \<and> distinct (cq_armed q) \<and> distinct (cq_active q) \<and>
     length (cq_active q) \<le> cc_workers config \<and>
     (\<forall>k. k \<in> set (cq_ch q) \<longleftrightarrow> (\<exists>s. map_of (cq_states q) k = Some s \<and> cs_queued s)) \<and>
     (\<forall>k. k \<in> set (cq_armed q) \<longleftrightarrow> (\<exists>s. map_of (cq_states q) k = Some s \<and> cs_timer s \<noteq> None)) \<and>
     (\<forall>k. k \<in> set (cq_active q) \<longleftrightarrow> (\<exists>s. map_of (cq_states q) k = Some s \<and> cs_running s)) \<and>
     (\<forall>k s. map_of (cq_states q) k = Some s \<longrightarrow> one_pending s)"

definition queue_inv :: "coalescedQueueConfig \<Rightarrow> coalescedQueue \<Rightarrow> bool" where
  "queue_inv config q \<longleftrightarrow>
     (if cq_closed q then cq_states q = [] \<and> length (cq_active q) \<le> cc_workers config else open_inv config q)"

lemma open_invD:
  assumes "open_inv config q"
  shows "gomap_ok (cq_states q)" and "length (cq_states q) \<le> cc_size config"
    and "distinct (cq_ch q)" and "distinct (cq_armed q)" and "distinct (cq_active q)"
    and "length (cq_active q) \<le> cc_workers config"
    and "k \<in> set (cq_ch q) \<longleftrightarrow> (\<exists>s. map_of (cq_states q) k = Some s \<and> cs_queued s)"
    and "k \<in> set (cq_armed q) \<longleftrightarrow> (\<exists>s. map_of (cq_states q) k = Some s \<and> cs_timer s \<noteq> None)"
    and "k \<in> set (cq_active q) \<longleftrightarrow> (\<exists>s. map_of (cq_states q) k = Some s \<and> cs_running s)"
    and "map_of (cq_states q) k = Some s \<Longrightarrow> one_pending s"
  using assms by (auto simp: open_inv_def)

lemma length_update_present: "map_of m k = Some v \<Longrightarrow> length (AList.update k w m) = length m"
  by (auto simp: length_update_alist dest: map_of_mem intro: rev_image_eqI)

text \<open>
  Storing a new state for a key keeps the invariant when the channel, the armed timers and the active
  keys change for that key alone, and in the way the new state says.
\<close>

lemma open_inv_put:
  assumes inv: "open_inv config q" and st: "cq_states q' = AList.update key s (cq_states q)" and one: "one_pending s"
    and len: "map_of (cq_states q) key = None \<Longrightarrow> length (cq_states q) < cc_size config"
    and ch: "distinct (cq_ch q')" "\<And>k. k \<in> set (cq_ch q') \<longleftrightarrow> (if k = key then cs_queued s else k \<in> set (cq_ch q))"
    and ar: "distinct (cq_armed q')" "\<And>k. k \<in> set (cq_armed q') \<longleftrightarrow> (if k = key then cs_timer s \<noteq> None else k \<in> set (cq_armed q))"
    and ac: "distinct (cq_active q')" "\<And>k. k \<in> set (cq_active q') \<longleftrightarrow> (if k = key then cs_running s else k \<in> set (cq_active q))"
    and w: "length (cq_active q') \<le> cc_workers config"
  shows "open_inv config q'"
proof -
  note d = open_invD [OF inv]
  have "length (cq_states q') \<le> cc_size config"
  proof (cases "map_of (cq_states q) key")
    case None
    with len d(2) show ?thesis by (simp add: st length_update_alist)
  qed (use d(2) in \<open>simp add: st length_update_present\<close>)
  then show ?thesis
    unfolding open_inv_def using d one ch ar ac w by (auto simp: st AList.update_conv')
qed

text \<open>The channel holds distinct keys of states that are queued, so it is never full when a timer fires.\<close>

lemma channel_room:
  assumes inv: "open_inv config q" and s: "map_of (cq_states q) key = Some s" and "\<not> cs_queued s"
  shows "length (cq_ch q) < cc_size config"
proof -
  have "set (cq_ch q) \<subseteq> fst ` set (cq_states q) - {key}"
    using open_invD(7) [OF inv] s assms(3) by (force dest: map_of_mem)
  then have "card (set (cq_ch q)) \<le> card (fst ` set (cq_states q) - {key})" by (intro card_mono) auto
  moreover have "card (fst ` set (cq_states q) - {key}) < card (fst ` set (cq_states q))"
    using map_of_mem [OF s] by (intro card_Diff1_less) (auto intro: rev_image_eqI)
  moreover have "card (fst ` set (cq_states q)) \<le> length (cq_states q)"
    using card_length [of "map_keys (cq_states q)"] by simp
  ultimately show ?thesis
    using open_invD(2) [OF inv] distinct_card [OF open_invD(3) [OF inv]] by linarith
qed

lemma enqueue_inv:
  assumes inv: "open_inv config q" and open': "\<not> cq_closed q"
  shows "open_inv config (enqueue config now key q)"
proof (cases "key \<le> 0 \<or> map_of (cq_states q) key = None \<and> length (cq_states q) \<ge> cc_size config")
  case True
  with inv show ?thesis by (auto simp: enqueue_def)
next
  case False
  note d = open_invD [OF inv]
  show ?thesis
  proof (cases "map_of (cq_states q) key")
    case None
    let ?s = "newCoalescedState\<lparr>cs_dirty := True, cs_timer := Some (nextDelayLocked config now (newCoalescedState\<lparr>cs_dirty := True\<rparr>))\<rparr>"
    show ?thesis
      using False None d(3-6) d(7-9) [where k = key] open'
      by (intro open_inv_put [OF inv, where key = key and s = ?s])
        (auto simp: enqueue_def scheduleLocked_def one_pending_def newCoalescedState_def)
  next
    case (Some s)
    then have "one_pending s" by (rule d(10))
    then have "\<not> (cs_timer s = None \<and> \<not> cs_queued s \<and> \<not> cs_running s)" "one_pending (s\<lparr>cs_dirty := True\<rparr>)"
      by (auto simp: one_pending_def split: option.splits)
    then show ?thesis
      using False Some d(3-6) d(7-9) [where k = key] open'
      by (intro open_inv_put [OF inv, where key = key and s = "s\<lparr>cs_dirty := True\<rparr>"])
        (auto simp: enqueue_def Let_def)
  qed
qed

lemma makeReady_inv:
  assumes inv: "open_inv config q" and open': "\<not> cq_closed q" and armed: "key \<in> set (cq_armed q)"
  shows "open_inv config (makeReady config key (q\<lparr>cq_armed := remove1 key (cq_armed q)\<rparr>))"
proof -
  note d = open_invD [OF inv]
  from armed d(8) [where k = key] obtain s where s: "map_of (cq_states q) key = Some s" "cs_timer s \<noteq> None" by auto
  then have idle: "\<not> cs_queued s" "\<not> cs_running s" using d(10) [OF s(1)] by (auto simp: one_pending_def)
  show ?thesis
  proof (cases "cs_dirty s")
    case True
    have "length (cq_ch q) < cc_size config" using inv s(1) idle(1) by (rule channel_room)
    then show ?thesis
      using True s idle d(3-6) d(7-9) [where k = key] open'
      by (intro open_inv_put [OF inv, where key = key and s = "s\<lparr>cs_timer := None, cs_queued := True\<rparr>"])
        (auto simp: makeReady_def Let_def one_pending_def)
  next
    case False
    have "open_inv config (q\<lparr>cq_armed := remove1 key (cq_armed q), cq_states := AList.delete key (cq_states q)\<rparr>)"
      unfolding open_inv_def using d(2-10) s idle length_delete_alist [of key "cq_states q"]
      by (auto simp: gomap_ok_delete [OF d(1)] AList.delete_conv' simp del: map_of_eq_Some_iff)
    with False s open' show ?thesis by (simp add: makeReady_def Let_def)
  qed
qed

lemma worker_begin_inv:
  assumes inv: "open_inv config q" and open': "\<not> cq_closed q" and ch: "cq_ch q = key # rest"
    and w: "length (cq_active q) < cc_workers config"
  shows "open_inv config (worker_begin key (q\<lparr>cq_ch := rest\<rparr>))"
proof -
  note d = open_invD [OF inv]
  from ch d(7) [where k = key] obtain s where s: "map_of (cq_states q) key = Some s" "cs_queued s" by auto
  then have "cs_timer s = None" "\<not> cs_running s" using d(10) [OF s(1)] by (auto simp: one_pending_def split: option.splits)
  then show ?thesis
    using s d(3-6) d(7-9) [where k = key] ch w open'
    by (intro open_inv_put [OF inv, where key = key and s = "s\<lparr>cs_queued := False, cs_running := True, cs_dirty := False\<rparr>"])
      (auto simp: worker_begin_def one_pending_def)
qed

text \<open>What the end of an evaluation stores for the key.\<close>

definition finished_state :: "coalescedQueueConfig \<Rightarrow> time \<Rightarrow> time \<Rightarrow> bool \<Rightarrow> coalescedState \<Rightarrow> coalescedState" where
  "finished_state config finished now failed s =
     (let s = s\<lparr>cs_running := False, cs_lastFinished := finished\<rparr>;
          s = (if failed then s\<lparr>cs_failures := cs_failures s + 1, cs_dirty := True\<rparr> else s\<lparr>cs_failures := 0\<rparr>)
      in s\<lparr>cs_timer := Some (if cs_dirty s then nextDelayLocked config now s else cc_minInterval config)\<rparr>)"

lemma worker_end_eq:
  assumes "\<not> cq_closed q" and "map_of (cq_states q) key = Some s"
  shows "worker_end config finished now key failed q =
    q\<lparr>cq_active := remove1 key (cq_active q), cq_states := AList.update key (finished_state config finished now failed s) (cq_states q),
      cq_armed := cq_armed q @ [key]\<rparr>"
  using assms by (simp add: worker_end_def scheduleLocked_def finished_state_def Let_def)

lemma worker_end_inv:
  assumes inv: "open_inv config q" and open': "\<not> cq_closed q" and act: "key \<in> set (cq_active q)"
  shows "open_inv config (worker_end config finished now key failed q)"
proof -
  note d = open_invD [OF inv]
  from act d(9) [where k = key] obtain s where s: "map_of (cq_states q) key = Some s" "cs_running s" by auto
  then have idle: "cs_timer s = None" "\<not> cs_queued s" using d(10) [OF s(1)] by (auto simp: one_pending_def split: option.splits)
  have f: "cs_timer (finished_state config finished now failed s) \<noteq> None" "\<not> cs_queued (finished_state config finished now failed s)"
    "\<not> cs_running (finished_state config finished now failed s)" using idle by (simp_all add: finished_state_def Let_def)
  then have "one_pending (finished_state config finished now failed s)" by (auto simp: one_pending_def)
  then show ?thesis
    unfolding worker_end_eq [OF open' s(1)]
    using s idle f d(3-6) d(7-9) [where k = key]
    by (intro open_inv_put [OF inv, where key = key and s = "finished_state config finished now failed s"]) (auto simp: length_remove1)
qed

lemma queue_step_inv:
  assumes "queue_step config q q'" and inv: "queue_inv config q"
  shows "queue_inv config q'"
proof (cases "cq_closed q")
  case True
  from assms(1) True inv show ?thesis
    by cases (auto simp: queue_inv_def enqueue_def makeReady_def worker_begin_def worker_end_def queue_stop_def Let_def length_remove1)
next
  case False
  with inv have "open_inv config q" by (simp add: queue_inv_def)
  from assms(1) show ?thesis
  proof cases
    case (step_enqueue now key)
    have "\<not> cq_closed q'" using False unfolding step_enqueue
      by (simp add: enqueue_def scheduleLocked_def Let_def split: option.split)
    with enqueue_inv [OF \<open>open_inv config q\<close> False] show ?thesis by (simp add: queue_inv_def step_enqueue)
  next
    case (step_timer key)
    have "\<not> cq_closed q'" using False unfolding step_timer
      by (simp add: makeReady_def scheduleLocked_def Let_def split: option.split)
    with makeReady_inv [OF \<open>open_inv config q\<close> False] step_timer show ?thesis by (simp add: queue_inv_def)
  next
    case (step_begin key rest)
    have "\<not> cq_closed q'" using False unfolding step_begin by (simp add: worker_begin_def split: option.split)
    with worker_begin_inv [OF \<open>open_inv config q\<close> False] step_begin show ?thesis by (simp add: queue_inv_def)
  next
    case (step_end key finished now failed)
    have "\<not> cq_closed q'" using False unfolding step_end
      by (simp add: worker_end_def scheduleLocked_def Let_def split: option.split)
    with worker_end_inv [OF \<open>open_inv config q\<close> False] step_end show ?thesis by (simp add: queue_inv_def)
  next
    case step_stop
    then show ?thesis using open_invD(6) [OF \<open>open_inv config q\<close>] by (simp add: queue_inv_def queue_stop_def)
  qed
qed

interpretation cq: inv_system "\<lambda>q. q = newCoalescedQueue" "queue_step config" "queue_inv config" for config
proof unfold_locales
  fix q assume "q = newCoalescedQueue"
  then show "queue_inv config q" by (simp add: newCoalescedQueue_def queue_inv_def open_inv_def)
qed (rule queue_step_inv)

section \<open>What the queue guarantees\<close>

lemma open_reached:
  assumes "(queue_step config)\<^sup>*\<^sup>* newCoalescedQueue q" and "\<not> cq_closed q"
  shows "open_inv config q"
  using cq.reached_inv [OF refl assms(1)] assms(2) by (simp add: queue_inv_def)

lemma channel_bound:
  assumes o: "open_inv config q"
  shows "length (cq_ch q) \<le> cc_size config"
proof -
  have "set (cq_ch q) \<subseteq> set (map_keys (cq_states q))" using open_invD(7) [OF o] by (force dest: map_of_mem)
  then have "card (set (cq_ch q)) \<le> length (map_keys (cq_states q))"
    by (meson List.finite_set card_length card_mono order_trans)
  then show ?thesis using open_invD(2) [OF o] distinct_card [OF open_invD(3) [OF o]] by simp
qed

lemma makeReady_queues:
  assumes o: "open_inv config q" and "\<not> cq_closed q" and a: "key \<in> set (cq_armed q)"
    and s: "map_of (cq_states q) key = Some s" and "cs_dirty s"
  shows "key \<in> set (cq_ch (makeReady config key (q\<lparr>cq_armed := remove1 key (cq_armed q)\<rparr>)))"
proof -
  have "\<not> cs_queued s" "\<not> cs_running s"
    using open_invD(10) [OF o s] a s open_invD(8) [OF o, of key] by (auto simp: one_pending_def)
  with channel_room [OF o s] assms show ?thesis by (simp add: makeReady_def Let_def)
qed

lemma time_sub_le: "0 \<le> d \<Longrightarrow> t - u \<le> d \<Longrightarrow> time_sub t u \<le> d"
  by (simp add: time_sub_def min_duration_def)

lemma le_time_sub: "d \<le> max_duration \<Longrightarrow> d \<le> t - u \<Longrightarrow> d \<le> time_sub t u"
  by (simp add: time_sub_def)

lemma nextDelay_after_finish:
  assumes "cs_lastFinished s \<noteq> 0" and "cs_lastFinished s \<le> now" and "cc_minInterval config \<le> max_duration"
  shows "cs_lastFinished s + cc_minInterval config \<le> now + nextDelayLocked config now s"
proof -
  have "cs_lastFinished s + cc_minInterval config - now \<le> time_sub (cs_lastFinished s + cc_minInterval config) now"
    using assms(2,3) by (intro le_time_sub) auto
  then show ?thesis using assms(1) by (simp add: nextDelayLocked_def IsZero_def Let_def)
qed

lemma finished_delay:
  assumes "finished \<noteq> 0" "finished \<le> now" and "cc_minInterval config \<le> max_duration"
    and "cs_dirty (finished_state config finished now failed s)"
  shows "finished + cc_minInterval config \<le> now + the (cs_timer (finished_state config finished now failed s))"
proof -
  let ?s = "if failed then s\<lparr>cs_running := False, cs_lastFinished := finished, cs_failures := cs_failures s + 1, cs_dirty := True\<rparr>
     else s\<lparr>cs_running := False, cs_lastFinished := finished, cs_failures := 0\<rparr>"
  have "finished + cc_minInterval config \<le> now + nextDelayLocked config now ?s"
    using nextDelay_after_finish [of ?s now config] assms(1-3) by (cases failed) simp_all
  with assms(4) show ?thesis by (cases failed) (simp_all add: finished_state_def Let_def)
qed

lemma count_list_distinct: "distinct xs \<Longrightarrow> count_list xs k = (if k \<in> set xs then 1 else 0)"
  by (induction xs) auto

text \<open>C13. In every state the queue reaches before it is stopped, whatever the interleaving of enqueues,
  timer callbacks and workers, a tracked key waits for exactly one thing: its timer, the channel or the
  worker that evaluates it. A key that is not tracked waits for nothing. So no tracked key is forgotten
  and none is scheduled twice.\<close>

theorem tracked_key_pending_once:
  assumes "(queue_step config)\<^sup>*\<^sup>* newCoalescedQueue q" and "\<not> cq_closed q"
  shows "count_list (cq_armed q @ cq_ch q @ cq_active q) k = (if map_of (cq_states q) k = None then 0 else 1)"
proof -
  note inv = open_reached [OF assms]
  note d = open_invD(3-5) [OF inv] open_invD(7-9) [OF inv, where k = k]
  show ?thesis
  proof (cases "map_of (cq_states q) k")
    case None
    with d show ?thesis by (simp add: count_list_distinct)
  next
    case (Some s)
    with open_invD(10) [OF inv Some] d show ?thesis
      by (simp add: count_list_distinct one_pending_def split: option.splits)
  qed
qed

definition demo_config :: coalescedQueueConfig where
  "demo_config = \<lparr>cc_workers = 1, cc_size = 2, cc_debounce = 5, cc_minInterval = 30, cc_maxRetry = 100\<rparr>"

definition demo_running :: coalescedQueue where
  "demo_running =
     (let q1 = enqueue demo_config 1 7 newCoalescedQueue;
          q2 = makeReady demo_config 7 (q1\<lparr>cq_armed := []\<rparr>)
      in worker_begin 7 (q2\<lparr>cq_ch := []\<rparr>))"

lemmas demo_simps = demo_running_def demo_config_def newCoalescedQueue_def newCoalescedState_def enqueue_def
  makeReady_def worker_begin_def scheduleLocked_def nextDelayLocked_def IsZero_def Let_def

lemma demo_running_reached: "(queue_step demo_config)\<^sup>*\<^sup>* newCoalescedQueue demo_running"
proof -
  let ?q1 = "enqueue demo_config 1 7 newCoalescedQueue"
  let ?q2 = "makeReady demo_config 7 (?q1\<lparr>cq_armed := remove1 7 (cq_armed ?q1)\<rparr>)"
  have "queue_step demo_config newCoalescedQueue ?q1" by (rule step_enqueue)
  moreover have "queue_step demo_config ?q1 ?q2" by (rule step_timer) (simp add: demo_simps)
  moreover have "queue_step demo_config ?q2 (worker_begin 7 (?q2\<lparr>cq_ch := []\<rparr>))"
    by (rule step_begin) (simp_all add: demo_simps)
  moreover have "worker_begin 7 (?q2\<lparr>cq_ch := []\<rparr>) = demo_running" by (simp add: demo_simps)
  ultimately show ?thesis by (metis converse_rtranclp_into_rtranclp rtranclp.rtrancl_refl)
qed

lemma demo_running_open: "\<not> cq_closed demo_running" "7 \<in> set (cq_active demo_running)"
  by (simp_all add: demo_simps)

theorem tracked_key_pending_once_witness:
  "(queue_step demo_config)\<^sup>*\<^sup>* newCoalescedQueue demo_running \<and> \<not> cq_closed demo_running \<and>
   count_list (cq_armed demo_running @ cq_ch demo_running @ cq_active demo_running) 7 = 1"
  using tracked_key_pending_once [OF demo_running_reached demo_running_open(1), of 7] demo_running_reached
  by (simp add: demo_simps)

text \<open>In every reachable state at most the configured number of keys is evaluated at once, no key is
  evaluated by two workers, and neither the tracked keys nor the channel outgrow the configured size. A
  timer that fires for a dirty key therefore always finds room in the channel, and the key is queued.\<close>

theorem queue_stays_bounded:
  assumes "(queue_step config)\<^sup>*\<^sup>* newCoalescedQueue q"
  shows "length (cq_active q) \<le> cc_workers config \<and>
    (\<not> cq_closed q \<longrightarrow> distinct (cq_active q) \<and> length (cq_states q) \<le> cc_size config \<and> length (cq_ch q) \<le> cc_size config \<and>
       (\<forall>key s. key \<in> set (cq_armed q) \<longrightarrow> map_of (cq_states q) key = Some s \<longrightarrow> cs_dirty s \<longrightarrow>
          key \<in> set (cq_ch (makeReady config key (q\<lparr>cq_armed := remove1 key (cq_armed q)\<rparr>)))))"
proof (cases "cq_closed q")
  case True
  with cq.reached_inv [OF refl assms] show ?thesis by (simp add: queue_inv_def)
next
  case False
  note o = open_reached [OF assms False]
  have "key \<in> set (cq_ch (makeReady config key (q\<lparr>cq_armed := remove1 key (cq_armed q)\<rparr>)))"
    if "key \<in> set (cq_armed q)" "map_of (cq_states q) key = Some s" "cs_dirty s" for key s
    using o False that by (rule makeReady_queues)
  with False open_invD(2,5,6) [OF o] channel_bound [OF o] show ?thesis by simp
qed

theorem queue_stays_bounded_witness:
  "(queue_step demo_config)\<^sup>*\<^sup>* newCoalescedQueue demo_running \<and>
   length (cq_active demo_running) \<le> cc_workers demo_config \<and> distinct (cq_active demo_running)"
  using queue_stays_bounded [OF demo_running_reached] demo_running_reached demo_running_open by simp

text \<open>A burst of enqueues of one key has the effect of one: a second enqueue, at any later time,
  changes nothing. This holds in every state of the queue.\<close>

theorem enqueue_coalesces:
  "enqueue config now' key (enqueue config now key q) = enqueue config now key q"
proof (cases "key \<le> 0 \<or> cq_closed q")
  case False
  show ?thesis
  proof (cases "map_of (cq_states q) key")
    case None
    with False show ?thesis
      by (cases q) (simp add: enqueue_def scheduleLocked_def Let_def AList.update_conv' newCoalescedState_def)
  next
    case (Some s)
    with False show ?thesis
      by (cases q; cases s) (simp add: enqueue_def scheduleLocked_def Let_def AList.update_conv')
  qed
qed (auto simp: enqueue_def)

text \<open>C27. Work that arrives while its key is being evaluated is not lost. The evaluation ends, with or without
  an error, and leaves the key dirty with an armed timer that expires no earlier than the minimum interval
  after the completion. When that timer fires, the key is in the channel again.\<close>

theorem trailing_run:
  assumes r: "(queue_step config)\<^sup>*\<^sup>* newCoalescedQueue q" and c: "\<not> cq_closed q" and a: "key \<in> set (cq_active q)"
    and "0 < key" and t: "finished \<noteq> 0" "finished \<le> now" and m: "cc_minInterval config \<le> max_duration"
    and q': "q' = worker_end config finished now key failed (enqueue config t key q)"
  shows "key \<in> set (cq_armed q') \<and>
    (\<exists>s delay. map_of (cq_states q') key = Some s \<and> cs_dirty s \<and> cs_timer s = Some delay \<and>
       finished + cc_minInterval config \<le> now + delay) \<and>
    key \<in> set (cq_ch (makeReady config key (q'\<lparr>cq_armed := remove1 key (cq_armed q')\<rparr>)))"
proof -
  note o = open_reached [OF r c]
  let ?e = "enqueue config t key q"
  from a open_invD(9) [OF o, of key] obtain s where s: "map_of (cq_states q) key = Some s" "cs_running s" by auto
  have e: "map_of (cq_states ?e) key = Some (s\<lparr>cs_dirty := True\<rparr>)" "\<not> cq_closed ?e" "key \<in> set (cq_active ?e)"
    using s a c \<open>0 < key\<close> by (simp_all add: enqueue_def AList.update_conv')
  have o': "open_inv config q'"
    unfolding q' by (rule worker_end_inv [OF enqueue_inv [OF o c] e(2,3)])
  let ?f = "finished_state config finished now failed (s\<lparr>cs_dirty := True\<rparr>)"
  have f: "map_of (cq_states q') key = Some ?f" "key \<in> set (cq_armed q')" "\<not> cq_closed q'"
    unfolding q' worker_end_eq [OF e(2,1)] using e(2) by (simp_all add: AList.update_conv')
  have d: "cs_dirty ?f" by (simp add: finished_state_def Let_def)
  have "\<exists>delay. cs_timer ?f = Some delay \<and> finished + cc_minInterval config \<le> now + delay"
    using finished_delay [OF t m d] by (auto simp: finished_state_def Let_def)
  with f d makeReady_queues [OF o' f(3,2,1) d] show ?thesis by blast
qed

theorem trailing_run_witness:
  "7 \<in> set (cq_active demo_running) \<and>
   7 \<in> set (cq_armed (worker_end demo_config 10 11 7 False (enqueue demo_config 8 7 demo_running)))"
  using trailing_run [OF demo_running_reached demo_running_open, of 10 11 _ False 8] demo_running_open
  by (simp add: demo_config_def max_duration_def)

text \<open>A delay is never negative, and it never exceeds the largest of the debounce, the minimum interval and
  the retry limit, as long as the recorded completion is not in the future. The doubling of the retry delay
  is therefore capped however many failures a key has.\<close>

theorem nextDelay_bounds:
  assumes "cs_lastFinished s \<le> now" and "0 \<le> cc_minInterval config" and "0 \<le> cc_debounce config"
  shows "nextDelayLocked config now s \<in> {0 .. max (cc_debounce config) (max (cc_minInterval config) (cc_maxRetry config))}"
proof -
  define until where "until = time_sub (cs_lastFinished s + cc_minInterval config) now"
  define retry where "retry = cc_minInterval config * 2 ^ min (cs_failures s - 1) 4"
  have "until \<le> cc_minInterval config"
    unfolding until_def using assms by (intro time_sub_le) auto
  then show ?thesis
    unfolding nextDelayLocked_def Let_def until_def [symmetric] retry_def [symmetric] using assms(2,3) by auto
qed

theorem nextDelay_bounds_witness:
  "nextDelayLocked demo_config 50 (newCoalescedState\<lparr>cs_lastFinished := 40, cs_failures := 9\<rparr>) \<in> {0 .. 100}"
  using nextDelay_bounds [of "newCoalescedState\<lparr>cs_lastFinished := 40, cs_failures := 9\<rparr>" 50 demo_config]
  by (simp add: demo_config_def)

end
