(* ===== verification/Rate_Limit.thy ===== *)
theory Rate_Limit
  imports Oboard_Prelude
begin

text \<open>
  The in-process budgets of \<open>internal/controller/agent_rate_limit.go\<close>: the fixed-window limiter, the
  expiry cache with the same ceiling, and the authentication guard of the Agent endpoints that combines
  a failure window with a longer ban. Every method runs under its mutex and reads the clock once per
  call, so it is a function of the state and of that reading. The log line of a restriction is only the
  budget it consumes.
\<close>

section \<open>The limiter\<close>

definition agentRateLimiterMaxKeys :: nat where "agentRateLimiterMaxKeys = 8192"
definition agentAuthFailureLimit :: int where "agentAuthFailureLimit = 8"
definition agentAuthFailureWindow :: duration where "agentAuthFailureWindow = minute"
definition agentAuthBanTTL :: duration where "agentAuthBanTTL = 15 * minute"
definition agentUnknownTTL :: duration where "agentUnknownTTL = 15 * minute"

record rateWindow =
  rw_start :: time
  rw_count :: int

record memoryRateLimiter =
  ml_entries :: "(string, rateWindow) gomap"
  ml_lastSweep :: time

definition newMemoryRateLimiter :: memoryRateLimiter where
  "newMemoryRateLimiter = \<lparr>ml_entries = [], ml_lastSweep = 0\<rparr>"

definition limiter_sweepLocked :: "time \<Rightarrow> duration \<Rightarrow> memoryRateLimiter \<Rightarrow> memoryRateLimiter" where
  "limiter_sweepLocked at window l =
     (if length (ml_entries l) < agentRateLimiterMaxKeys \<and> time_sub at (ml_lastSweep l) < window then l
      else
        (let live = filter (\<lambda>(key, entry). \<not> time_sub at (rw_start entry) \<ge> window) (ml_entries l)
         in \<lparr>ml_entries = (if length live \<ge> agentRateLimiterMaxKeys then [] else live), ml_lastSweep = at\<rparr>))"

definition limiter_allow :: "string \<Rightarrow> int \<Rightarrow> duration \<Rightarrow> time \<Rightarrow> memoryRateLimiter \<Rightarrow> bool \<times> memoryRateLimiter" where
  "limiter_allow key limit window at l =
     (if key = [] \<or> limit \<le> 0 \<or> window \<le> 0 then (True, l)
      else
        (let l = limiter_sweepLocked at window l;
             opened = l\<lparr>ml_entries := AList.update key \<lparr>rw_start = at, rw_count = 1\<rparr> (ml_entries l)\<rparr>
         in case map_of (ml_entries l) key of
              None \<Rightarrow> (True, opened)
            | Some entry \<Rightarrow>
                if time_sub at (rw_start entry) \<ge> window then (True, opened)
                else if rw_count entry \<ge> limit then (False, l)
                else (True, l\<lparr>ml_entries := AList.update key (entry\<lparr>rw_count := rw_count entry + 1\<rparr>) (ml_entries l)\<rparr>)))"

definition limiter_count :: "string \<Rightarrow> duration \<Rightarrow> time \<Rightarrow> memoryRateLimiter \<Rightarrow> int" where
  "limiter_count key window at l =
     (if key = [] then 0
      else (case map_of (ml_entries l) key of
              None \<Rightarrow> 0
            | Some entry \<Rightarrow> if time_sub at (rw_start entry) \<ge> window then 0 else rw_count entry))"

definition limiter_clear :: "string \<Rightarrow> memoryRateLimiter \<Rightarrow> memoryRateLimiter" where
  "limiter_clear key l = (if key = [] then l else l\<lparr>ml_entries := AList.delete key (ml_entries l)\<rparr>)"

section \<open>The expiry cache\<close>

record ttlCache =
  tc_entries :: "(string, time) gomap"
  tc_lastSweep :: time

definition newTTLCache :: ttlCache where
  "newTTLCache = \<lparr>tc_entries = [], tc_lastSweep = 0\<rparr>"

definition cache_sweepLocked :: "time \<Rightarrow> ttlCache \<Rightarrow> ttlCache" where
  "cache_sweepLocked at c =
     (if length (tc_entries c) < agentRateLimiterMaxKeys \<and> time_sub at (tc_lastSweep c) < minute then c
      else
        (let live = filter (\<lambda>(key, expiry). expiry > at) (tc_entries c)
         in \<lparr>tc_entries = (if length live \<ge> agentRateLimiterMaxKeys then [] else live), tc_lastSweep = at\<rparr>))"

definition cache_has :: "string \<Rightarrow> time \<Rightarrow> ttlCache \<Rightarrow> bool \<times> ttlCache" where
  "cache_has key at c =
     (if key = [] then (False, c)
      else (case map_of (tc_entries c) key of
              None \<Rightarrow> (False, c)
            | Some expiry \<Rightarrow>
                if \<not> expiry > at then (False, c\<lparr>tc_entries := AList.delete key (tc_entries c)\<rparr>) else (True, c)))"

definition cache_put :: "string \<Rightarrow> duration \<Rightarrow> time \<Rightarrow> ttlCache \<Rightarrow> ttlCache" where
  "cache_put key ttl at c =
     (if key = [] \<or> ttl \<le> 0 then c
      else (let c = cache_sweepLocked at c in c\<lparr>tc_entries := AList.update key (at + ttl) (tc_entries c)\<rparr>))"

definition cache_delete :: "string \<Rightarrow> ttlCache \<Rightarrow> ttlCache" where
  "cache_delete key c = (if key = [] then c else c\<lparr>tc_entries := AList.delete key (tc_entries c)\<rparr>)"

section \<open>The Agent guard\<close>

text \<open>
  The fields of the server the guard uses. A method that reads the clock twice, once for itself and once
  in the diagnostic log, takes both readings.
\<close>

record AgentGuard =
  ag_CallbackRate :: memoryRateLimiter
  ag_AuthFailures :: memoryRateLimiter
  ag_AuthBans :: ttlCache
  ag_UnknownAgents :: ttlCache
  ag_DiagnosticRate :: "memoryRateLimiter option"

definition newAgentGuard :: AgentGuard where
  "newAgentGuard = \<lparr>ag_CallbackRate = newMemoryRateLimiter, ag_AuthFailures = newMemoryRateLimiter,
     ag_AuthBans = newTTLCache, ag_UnknownAgents = newTTLCache, ag_DiagnosticRate = Some newMemoryRateLimiter\<rparr>"

definition logAgentRestriction :: "string \<Rightarrow> string \<Rightarrow> time \<Rightarrow> AgentGuard \<Rightarrow> AgentGuard" where
  "logAgentRestriction reason subject at s =
     (case ag_DiagnosticRate s of
        None \<Rightarrow> s
      | Some l \<Rightarrow> s\<lparr>ag_DiagnosticRate := Some (snd (limiter_allow (reason @ '':'' @ subject) 1 minute at l))\<rparr>)"

definition allowAgentRate :: "string \<Rightarrow> int \<Rightarrow> duration \<Rightarrow> time \<Rightarrow> time \<Rightarrow> AgentGuard \<Rightarrow> bool \<times> AgentGuard" where
  "allowAgentRate key limit window at at' s =
     (case limiter_allow key limit window at (ag_CallbackRate s) of (ok, l) \<Rightarrow>
        (let s = s\<lparr>ag_CallbackRate := l\<rparr>
         in if ok then (True, s) else (False, logAgentRestriction ''callback_rate'' key at' s)))"

definition agentAuthBlocked :: "string \<Rightarrow> time \<Rightarrow> AgentGuard \<Rightarrow> bool \<times> AgentGuard" where
  "agentAuthBlocked ip at s =
     (if ip = [] then (False, s)
      else (case cache_has ip at (ag_AuthBans s) of (banned, c) \<Rightarrow>
              (let s = s\<lparr>ag_AuthBans := c\<rparr>
               in if banned then (True, s)
                  else (limiter_count ip agentAuthFailureWindow at (ag_AuthFailures s) \<ge> agentAuthFailureLimit, s))))"

definition unknownAgentIdentity :: "string \<Rightarrow> time \<Rightarrow> AgentGuard \<Rightarrow> bool \<times> AgentGuard" where
  "unknownAgentIdentity agentID at s =
     (case cache_has agentID at (ag_UnknownAgents s) of (known, c) \<Rightarrow> (known, s\<lparr>ag_UnknownAgents := c\<rparr>))"

definition rememberUnknownAgent :: "string \<Rightarrow> time \<Rightarrow> AgentGuard \<Rightarrow> AgentGuard" where
  "rememberUnknownAgent agentID at s = s\<lparr>ag_UnknownAgents := cache_put agentID agentUnknownTTL at (ag_UnknownAgents s)\<rparr>"

definition forgetUnknownAgent :: "string \<Rightarrow> AgentGuard \<Rightarrow> AgentGuard" where
  "forgetUnknownAgent agentID s = s\<lparr>ag_UnknownAgents := cache_delete agentID (ag_UnknownAgents s)\<rparr>"

definition noteAgentAuthFailure :: "string \<Rightarrow> time \<Rightarrow> time \<Rightarrow> AgentGuard \<Rightarrow> AgentGuard" where
  "noteAgentAuthFailure ip at at' s =
     (if ip = [] then s
      else
        (let s = logAgentRestriction ''invalid_credentials'' ip at' s;
             s = s\<lparr>ag_AuthFailures := snd (limiter_allow ip agentAuthFailureLimit agentAuthFailureWindow at (ag_AuthFailures s))\<rparr>
         in if limiter_count ip agentAuthFailureWindow at (ag_AuthFailures s) \<ge> agentAuthFailureLimit
            then s\<lparr>ag_AuthBans := cache_put ip agentAuthBanTTL at (ag_AuthBans s)\<rparr> else s))"

definition noteAgentAuthSuccess :: "string \<Rightarrow> AgentGuard \<Rightarrow> AgentGuard" where
  "noteAgentAuthSuccess ip s =
     s\<lparr>ag_AuthFailures := limiter_clear ip (ag_AuthFailures s), ag_AuthBans := cache_delete ip (ag_AuthBans s)\<rparr>"

text \<open>The calls the Agent endpoints make, in any order and at any times.\<close>

inductive guard_step :: "AgentGuard \<Rightarrow> AgentGuard \<Rightarrow> bool" where
  step_callback: "guard_step s (snd (allowAgentRate key limit window at at' s))"
| step_blocked: "guard_step s (snd (agentAuthBlocked ip at s))"
| step_unknown: "guard_step s (snd (unknownAgentIdentity agentID at s))"
| step_remember: "guard_step s (rememberUnknownAgent agentID at s)"
| step_forget: "guard_step s (forgetUnknownAgent agentID s)"
| step_failure: "guard_step s (noteAgentAuthFailure ip at at' s)"
| step_success: "guard_step s (noteAgentAuthSuccess ip s)"

text \<open>
  Runs of calls, for the statements below: a run of the limiter collects the answers, a run of the guard
  takes the events of the authentication endpoint.
\<close>

fun allow_run :: "duration \<Rightarrow> (string \<times> int \<times> time) list \<Rightarrow> memoryRateLimiter \<Rightarrow> (string \<times> bool) list" where
  "allow_run window [] l = []"
| "allow_run window ((k, limit, at) # cs) l =
     (case limiter_allow k limit window at l of (ok, l') \<Rightarrow> (k, ok) # allow_run window cs l')"

datatype auth_event = Failure string time time | Check string time | Success string

fun auth_apply :: "auth_event \<Rightarrow> AgentGuard \<Rightarrow> AgentGuard" where
  "auth_apply (Failure ip at at') s = noteAgentAuthFailure ip at at' s"
| "auth_apply (Check ip at) s = snd (agentAuthBlocked ip at s)"
| "auth_apply (Success ip) s = noteAgentAuthSuccess ip s"

fun event_within :: "time \<Rightarrow> time \<Rightarrow> auth_event \<Rightarrow> bool" where
  "event_within t t' (Failure ip at at') \<longleftrightarrow> t \<le> at \<and> at \<le> t'"
| "event_within t t' (Check ip at) \<longleftrightarrow> t \<le> at \<and> at \<le> t'"
| "event_within t t' (Success ip) \<longleftrightarrow> True"

fun failing_ips :: "auth_event list \<Rightarrow> string list" where
  "failing_ips [] = []"
| "failing_ips (Failure ip at at' # es) = ip # failing_ips es"
| "failing_ips (e # es) = failing_ips es"

section \<open>The ceiling\<close>

definition limiter_ok :: "memoryRateLimiter \<Rightarrow> bool" where
  "limiter_ok l \<longleftrightarrow> gomap_ok (ml_entries l) \<and> length (ml_entries l) \<le> agentRateLimiterMaxKeys"

definition cache_ok :: "ttlCache \<Rightarrow> bool" where
  "cache_ok c \<longleftrightarrow> gomap_ok (tc_entries c) \<and> length (tc_entries c) \<le> agentRateLimiterMaxKeys"

definition guard_ok :: "AgentGuard \<Rightarrow> bool" where
  "guard_ok s \<longleftrightarrow> limiter_ok (ag_CallbackRate s) \<and> limiter_ok (ag_AuthFailures s) \<and> cache_ok (ag_AuthBans s) \<and>
     cache_ok (ag_UnknownAgents s) \<and> pred_option limiter_ok (ag_DiagnosticRate s)"

lemma max_keys_pos: "0 < agentRateLimiterMaxKeys"
  by (simp add: agentRateLimiterMaxKeys_def)

lemma length_update_le: "length (AList.update k v m) \<le> Suc (length m)"
  by (simp add: length_update_alist)

text \<open>A sweep leaves room for one more key.\<close>

lemma limiter_sweep_ok:
  assumes "limiter_ok l"
  shows "gomap_ok (ml_entries (limiter_sweepLocked at window l))"
    and "length (ml_entries (limiter_sweepLocked at window l)) < agentRateLimiterMaxKeys"
  using assms max_keys_pos by (auto simp: limiter_ok_def limiter_sweepLocked_def Let_def)

lemma cache_sweep_ok:
  assumes "cache_ok c"
  shows "gomap_ok (tc_entries (cache_sweepLocked at c))"
    and "length (tc_entries (cache_sweepLocked at c)) < agentRateLimiterMaxKeys"
  using assms max_keys_pos by (auto simp: cache_ok_def cache_sweepLocked_def Let_def)

lemma limiter_put_ok:
  assumes "gomap_ok (ml_entries l)" and "length (ml_entries l) < agentRateLimiterMaxKeys"
  shows "limiter_ok (l\<lparr>ml_entries := AList.update k v (ml_entries l)\<rparr>)"
  using assms length_update_le [of k v "ml_entries l"] by (simp add: limiter_ok_def)

lemma limiter_allow_ok [inv_intros]:
  assumes "limiter_ok l"
  shows "limiter_ok (snd (limiter_allow key limit window at l))"
proof -
  note sw = limiter_sweep_ok [OF assms, of at window]
  have "limiter_ok (limiter_sweepLocked at window l)" using sw by (simp add: limiter_ok_def)
  with assms limiter_put_ok [OF sw] show ?thesis by (auto simp: limiter_allow_def Let_def split: option.split)
qed

lemma limiter_clear_ok [inv_intros]: "limiter_ok l \<Longrightarrow> limiter_ok (limiter_clear key l)"
  using length_delete_alist [of key "ml_entries l"] by (auto simp: limiter_ok_def limiter_clear_def)

lemma cache_delete_entries_ok: "cache_ok c \<Longrightarrow> cache_ok (c\<lparr>tc_entries := AList.delete key (tc_entries c)\<rparr>)"
  using length_delete_alist [of key "tc_entries c"] by (auto simp: cache_ok_def)

lemma cache_has_ok [inv_intros]: "cache_ok c \<Longrightarrow> cache_ok (snd (cache_has key at c))"
  using cache_delete_entries_ok [of c key] by (simp add: cache_has_def split: option.split)

lemma cache_put_ok [inv_intros]: "cache_ok c \<Longrightarrow> cache_ok (cache_put key ttl at c)"
  using cache_sweep_ok [of c at] length_update_le [of key "at + ttl" "tc_entries (cache_sweepLocked at c)"]
  by (auto simp: cache_put_def Let_def cache_ok_def)

lemma cache_delete_ok [inv_intros]: "cache_ok c \<Longrightarrow> cache_ok (cache_delete key c)"
  using cache_delete_entries_ok [of c key] by (simp add: cache_delete_def)

lemma log_ok: "guard_ok s \<Longrightarrow> guard_ok (logAgentRestriction reason subject at s)"
  by (auto simp: guard_ok_def logAgentRestriction_def split: option.split intro: limiter_allow_ok)

lemma guard_step_ok:
  assumes "guard_step s s'" and "guard_ok s"
  shows "guard_ok s'"
  using assms
proof cases
  case (step_callback key limit window at at')
  have "guard_ok (s\<lparr>ag_CallbackRate := snd (limiter_allow key limit window at (ag_CallbackRate s))\<rparr>)"
    using assms(2) by (auto simp: guard_ok_def intro: inv_intros)
  then show ?thesis unfolding step_callback by (auto simp: allowAgentRate_def Let_def split: prod.split intro: log_ok)
next
  case (step_blocked ip at)
  with assms(2) cache_has_ok [of "ag_AuthBans s" ip at] show ?thesis
    by (auto simp: guard_ok_def agentAuthBlocked_def Let_def split: prod.split)
next
  case (step_unknown agentID at)
  with assms(2) cache_has_ok [of "ag_UnknownAgents s" agentID at] show ?thesis
    by (auto simp: guard_ok_def unknownAgentIdentity_def split: prod.split)
next
  case (step_failure ip at at')
  have "guard_ok (logAgentRestriction ''invalid_credentials'' ip at' s)" using assms(2) by (rule log_ok)
  then show ?thesis unfolding step_failure using assms(2)
    by (auto simp: noteAgentAuthFailure_def guard_ok_def Let_def intro: inv_intros)
qed (auto simp: guard_ok_def rememberUnknownAgent_def forgetUnknownAgent_def noteAgentAuthSuccess_def intro: inv_intros)

interpretation agent_guard: inv_system "\<lambda>s. s = newAgentGuard" guard_step guard_ok
proof unfold_locales
  fix s assume "s = newAgentGuard"
  then show "guard_ok s"
    by (simp add: newAgentGuard_def guard_ok_def newMemoryRateLimiter_def newTTLCache_def limiter_ok_def cache_ok_def)
qed (rule guard_step_ok)

text \<open>However the Agent endpoints are called, no table of the guard ever holds more than 8192 keys, so a
  caller that invents keys cannot grow the process.\<close>

theorem guard_tables_bounded:
  assumes "guard_step\<^sup>*\<^sup>* newAgentGuard s"
  shows "length (ml_entries (ag_CallbackRate s)) \<le> 8192 \<and> length (ml_entries (ag_AuthFailures s)) \<le> 8192 \<and>
    length (tc_entries (ag_AuthBans s)) \<le> 8192 \<and> length (tc_entries (ag_UnknownAgents s)) \<le> 8192 \<and>
    pred_option (\<lambda>l. length (ml_entries l) \<le> 8192) (ag_DiagnosticRate s)"
  using agent_guard.reached_inv [OF refl assms]
  by (auto simp: guard_ok_def limiter_ok_def cache_ok_def agentRateLimiterMaxKeys_def option.pred_set)

theorem guard_tables_bounded_witness:
  "guard_step\<^sup>*\<^sup>* newAgentGuard (noteAgentAuthFailure ''198.51.100.7'' 5 6 newAgentGuard) \<and>
   length (ml_entries (ag_AuthFailures (noteAgentAuthFailure ''198.51.100.7'' 5 6 newAgentGuard))) \<le> 8192"
proof -
  have "guard_step\<^sup>*\<^sup>* newAgentGuard (noteAgentAuthFailure ''198.51.100.7'' 5 6 newAgentGuard)"
    by (intro r_into_rtranclp step_failure)
  with guard_tables_bounded [OF this] show ?thesis by simp
qed

section \<open>The budget of a window\<close>

lemma sweep_no_reset:
  assumes "gomap_ok (ml_entries l)" and "length (ml_entries l) < agentRateLimiterMaxKeys"
  shows "map_of (ml_entries (limiter_sweepLocked at window l)) k =
    (case map_of (ml_entries l) k of
       Some e \<Rightarrow> if time_sub at (ml_lastSweep l) < window \<or> time_sub at (rw_start e) < window then Some e else None
     | None \<Rightarrow> None)"
    and "fst ` set (ml_entries (limiter_sweepLocked at window l)) \<subseteq> fst ` set (ml_entries l)"
proof -
  have room: "length (filter P (ml_entries l)) < agentRateLimiterMaxKeys" for P
    using assms(2) length_filter_le [of P "ml_entries l"] by linarith
  have eq: "ml_entries (limiter_sweepLocked at window l) =
      (if time_sub at (ml_lastSweep l) < window then ml_entries l
       else filter (\<lambda>(key, entry). \<not> time_sub at (rw_start entry) \<ge> window) (ml_entries l))"
    using assms(2) room [of "\<lambda>(key, entry). \<not> time_sub at (rw_start entry) \<ge> window"]
    by (simp add: limiter_sweepLocked_def Let_def not_le)
  show "map_of (ml_entries (limiter_sweepLocked at window l)) k =
    (case map_of (ml_entries l) k of
       Some e \<Rightarrow> if time_sub at (ml_lastSweep l) < window \<or> time_sub at (rw_start e) < window then Some e else None
     | None \<Rightarrow> None)"
    unfolding eq using map_of_filter_key [OF assms(1), of "\<lambda>_ e. \<not> time_sub at (rw_start e) \<ge> window" k]
    by (auto split: option.split)
  show "fst ` set (ml_entries (limiter_sweepLocked at window l)) \<subseteq> fst ` set (ml_entries l)" unfolding eq by auto
qed

lemma allow_tracked:
  assumes ok: "gomap_ok (ml_entries l)" "length (ml_entries l) < agentRateLimiterMaxKeys"
    and e: "map_of (ml_entries l) key = Some e" "time_sub at (rw_start e) < window" and "key \<noteq> []" "0 < limit" "0 < window"
    and r: "limiter_allow k limit' window at l = (allowed, l')" "k = key \<longrightarrow> limit' = limit"
  shows "gomap_ok (ml_entries l')" and "fst ` set (ml_entries l') \<subseteq> insert k (fst ` set (ml_entries l))"
    and "map_of (ml_entries l') key = Some (if k = key \<and> allowed then e\<lparr>rw_count := rw_count e + 1\<rparr> else e)"
    and "k = key \<Longrightarrow> allowed \<longleftrightarrow> rw_count e < limit"
proof -
  note sw = sweep_no_reset [OF ok, of at window]
  have g: "gomap_ok (ml_entries (limiter_sweepLocked at window l))"
    using limiter_sweep_ok(1) [of l at window] ok by (simp add: limiter_ok_def)
  have m: "map_of (ml_entries (limiter_sweepLocked at window l)) key = Some e" using sw(1) [of key] e by simp
  show "gomap_ok (ml_entries l')"
    using r(1) g ok(1) by (auto simp: limiter_allow_def Let_def split: if_splits option.splits)
  consider "ml_entries l' = ml_entries l" | "ml_entries l' = ml_entries (limiter_sweepLocked at window l)"
    | v where "ml_entries l' = AList.update k v (ml_entries (limiter_sweepLocked at window l))"
    using r(1) by (auto simp: limiter_allow_def Let_def split: if_splits option.splits)
  then show "fst ` set (ml_entries l') \<subseteq> insert k (fst ` set (ml_entries l))"
    using sw(2) by cases (simp_all add: fst_set_update subset_insertI subset_insertI2 insert_mono)
  show "map_of (ml_entries l') key = Some (if k = key \<and> allowed then e\<lparr>rw_count := rw_count e + 1\<rparr> else e)"
    using r m e assms(5-7) by (auto simp: limiter_allow_def Let_def AList.update_conv' simp del: map_of_eq_Some_iff split: if_splits option.splits)
  show "k = key \<Longrightarrow> allowed \<longleftrightarrow> rw_count e < limit"
    using r m e assms(5-7) by (auto simp: limiter_allow_def Let_def simp del: map_of_eq_Some_iff split: if_splits option.splits)
qed

definition answers :: "string \<Rightarrow> (string \<times> bool) list \<Rightarrow> bool list" where
  "answers key rs = map snd (filter (\<lambda>r. fst r = key) rs)"

lemma length_alist_card: "gomap_ok m \<Longrightarrow> length m = card (fst ` set m)"
  using distinct_card [of "map fst m"] by simp

lemma allow_run_tracked:
  assumes "gomap_ok (ml_entries l)" and "card (fst ` set (ml_entries l) \<union> fst ` set cs) < agentRateLimiterMaxKeys"
    and "map_of (ml_entries l) key = Some e" and "rw_count e \<le> limit"
    and "\<forall>(k, lim, at) \<in> set cs. time_sub at (rw_start e) < window \<and> (k = key \<longrightarrow> lim = limit)"
    and "key \<noteq> []" "0 < limit" "0 < window"
  shows "answers key (allow_run window cs l) =
    (let n = length (filter (\<lambda>c. fst c = key) cs); free = nat (limit - rw_count e)
     in replicate (min free n) True @ replicate (n - free) False)"
  using assms(1-5)
proof (induction cs arbitrary: l e)
  case Nil
  then show ?case by (simp add: answers_def)
next
  case (Cons c cs)
  obtain k lim at where c: "c = (k, lim, at)" by (cases c)
  obtain ok l' where r: "limiter_allow k lim window at l = (ok, l')" by (cases "limiter_allow k lim window at l")
  have "card (fst ` set (ml_entries l)) \<le> card (fst ` set (ml_entries l) \<union> fst ` set (c # cs))"
    by (intro card_mono) auto
  then have len: "length (ml_entries l) < agentRateLimiterMaxKeys"
    using Cons.prems(1,2) by (simp add: length_alist_card)
  have e: "time_sub at (rw_start e) < window" "k = key \<longrightarrow> lim = limit" using Cons.prems(5) by (auto simp: c)
  note t = allow_tracked [OF Cons.prems(1) len Cons.prems(3) e(1) assms(6-8) r e(2)]
  let ?e = "if k = key \<and> ok then e\<lparr>rw_count := rw_count e + 1\<rparr> else e"
  have "card (fst ` set (ml_entries l') \<union> fst ` set cs) \<le> card (fst ` set (ml_entries l) \<union> fst ` set (c # cs))"
    using t(2) by (intro card_mono) (auto simp: c)
  then have "card (fst ` set (ml_entries l') \<union> fst ` set cs) < agentRateLimiterMaxKeys" using Cons.prems(2) by simp
  then have IH: "answers key (allow_run window cs l') =
    (let n = length (filter (\<lambda>c. fst c = key) cs); free = nat (limit - rw_count ?e)
     in replicate (min free n) True @ replicate (n - free) False)"
    using Cons.prems(4,5) t(4) by (intro Cons.IH [OF t(1) _ t(3)]) (auto split: if_splits)
  show ?case
  proof (cases "k = key")
    case False
    with IH show ?thesis by (simp add: c r answers_def)
  next
    case True
    then have r': "limiter_allow key lim window at l = (ok, l')" using r by simp
    show ?thesis
    proof (cases "rw_count e < limit")
      case lt: True
      then have "nat (limit - rw_count e) = Suc (nat (limit - (rw_count e + 1)))" by simp
      with IH True lt t(4) [OF True] show ?thesis by (simp add: c r' answers_def Let_def)
    next
      case False
      then have "rw_count e = limit" using Cons.prems(4) by simp
      with IH True False t(4) [OF True] show ?thesis by (simp add: c r' answers_def Let_def)
    qed
  qed
qed

text \<open>From the call that opens a window of a key, exactly the first \<open>limit\<close> calls inside the window are
  allowed and all later ones are refused, however the calls of other keys are interleaved, as long as the
  limiter has not reached its ceiling of keys.\<close>

theorem window_budget_exact:
  assumes "gomap_ok (ml_entries l)" and "map_of (ml_entries l) key = None"
    and "card (fst ` set (ml_entries l) \<union> {key} \<union> fst ` set cs) < agentRateLimiterMaxKeys"
    and "list_all (\<lambda>(k, lim, at). t \<le> at \<and> at < t + window \<and> (k = key \<longrightarrow> lim = limit)) cs"
    and "key \<noteq> []" "0 < limit" "0 < window" "window \<le> max_duration"
  shows "answers key (allow_run window ((key, limit, t) # cs) l) =
    (let n = Suc (length (filter (\<lambda>c. fst c = key) cs))
     in replicate (min (nat limit) n) True @ replicate (n - nat limit) False)"
proof -
  let ?sw = "limiter_sweepLocked t window l"
  let ?e = "\<lparr>rw_start = t, rw_count = 1\<rparr>"
  let ?l = "?sw\<lparr>ml_entries := AList.update key ?e (ml_entries ?sw)\<rparr>"
  have "card (fst ` set (ml_entries l)) \<le> card (fst ` set (ml_entries l) \<union> {key} \<union> fst ` set cs)"
    by (intro card_mono) auto
  then have len: "length (ml_entries l) < agentRateLimiterMaxKeys" using assms(1,3) by (simp add: length_alist_card)
  note sw = sweep_no_reset [OF assms(1) len, of t window]
  have g: "gomap_ok (ml_entries ?sw)" using limiter_sweep_ok(1) [of l t window] assms(1) len by (simp add: limiter_ok_def)
  have first: "limiter_allow key limit window t l = (True, ?l)"
    using assms(2,5-7) sw(1) [of key] by (simp add: limiter_allow_def Let_def)
  have "card (fst ` set (ml_entries ?l) \<union> fst ` set cs) \<le> card (fst ` set (ml_entries l) \<union> {key} \<union> fst ` set cs)"
    using sw(2) by (intro card_mono) (auto simp: fst_set_update)
  then have room: "card (fst ` set (ml_entries ?l) \<union> fst ` set cs) < agentRateLimiterMaxKeys" using assms(3) by simp
  have "answers key (allow_run window cs ?l) =
    (let n = length (filter (\<lambda>c. fst c = key) cs); free = nat (limit - rw_count ?e)
     in replicate (min free n) True @ replicate (n - free) False)"
    using assms(4-8) g by (intro allow_run_tracked [OF _ room]) (auto simp: AList.update_conv' list_all_iff time_sub_def min_duration_def)
  moreover have "nat limit = Suc (nat (limit - 1))" using assms(6) by simp
  ultimately show ?thesis by (simp add: first answers_def Let_def)
qed

theorem window_budget_exact_witness:
  "answers ''a'' (allow_run minute [(''a'', 2, 10), (''b'', 1, 11), (''a'', 2, 12), (''a'', 2, 13)] newMemoryRateLimiter) = [True, True, False]"
  using window_budget_exact [of newMemoryRateLimiter "''a''" "[(''b'', 1, 11), (''a'', 2, 12), (''a'', 2, 13)]" 10 minute 2]
  by (simp add: newMemoryRateLimiter_def agentRateLimiterMaxKeys_def go_defs max_duration_def)

section \<open>The ban\<close>

lemma cache_sweep_no_reset:
  assumes "gomap_ok (tc_entries c)" and "length (tc_entries c) < agentRateLimiterMaxKeys" and "map_of (tc_entries c) k = Some x" and "at < x"
  shows "map_of (tc_entries (cache_sweepLocked at c)) k = Some x"
    and "fst ` set (tc_entries (cache_sweepLocked at c)) \<subseteq> fst ` set (tc_entries c)"
proof -
  have room: "length (filter P (tc_entries c)) < agentRateLimiterMaxKeys" for P
    using assms(2) length_filter_le [of P "tc_entries c"] by linarith
  have eq: "tc_entries (cache_sweepLocked at c) =
      (if time_sub at (tc_lastSweep c) < minute then tc_entries c else filter (\<lambda>(key, expiry). expiry > at) (tc_entries c))"
    using assms(2) room [of "\<lambda>(key, expiry). expiry > at"] by (simp add: cache_sweepLocked_def Let_def not_le)
  show "map_of (tc_entries (cache_sweepLocked at c)) k = Some x"
    unfolding eq using map_of_filter_key [OF assms(1), of "\<lambda>_ e. e > at" k] assms(3,4) by simp
  show "fst ` set (tc_entries (cache_sweepLocked at c)) \<subseteq> fst ` set (tc_entries c)" unfolding eq by auto
qed

definition banned :: "string \<Rightarrow> time \<Rightarrow> ttlCache \<Rightarrow> bool" where
  "banned ip now c \<longleftrightarrow> (\<exists>x. map_of (tc_entries c) ip = Some x \<and> now < x)"

lemma put_banned:
  assumes "gomap_ok (tc_entries c)" and "length (tc_entries c) < agentRateLimiterMaxKeys"
    and "banned ip now c" and "at \<le> now" and "ip' = ip \<longrightarrow> now < at + ttl"
  shows "gomap_ok (tc_entries (cache_put ip' ttl at c))" and "banned ip now (cache_put ip' ttl at c)"
    and "fst ` set (tc_entries (cache_put ip' ttl at c)) \<subseteq> insert ip' (fst ` set (tc_entries c))"
proof -
  from assms(3) obtain x where x: "map_of (tc_entries c) ip = Some x" "now < x" by (auto simp: banned_def)
  note sw = cache_sweep_no_reset [OF assms(1,2) x(1), of at]
  have g: "gomap_ok (tc_entries (cache_sweepLocked at c))"
    using cache_sweep_ok(1) [of c at] assms(1,2) by (simp add: cache_ok_def)
  show "gomap_ok (tc_entries (cache_put ip' ttl at c))" using g assms(1) by (simp add: cache_put_def Let_def)
  show "banned ip now (cache_put ip' ttl at c)"
    using sw(1) x assms(4,5) by (auto simp: banned_def cache_put_def Let_def AList.update_conv' simp del: map_of_eq_Some_iff)
  show "fst ` set (tc_entries (cache_put ip' ttl at c)) \<subseteq> insert ip' (fst ` set (tc_entries c))"
    using sw(2) x(2) assms(4) by (auto simp: cache_put_def Let_def fst_set_update)
qed

lemma log_bans [simp]: "ag_AuthBans (logAgentRestriction reason subject at s) = ag_AuthBans s"
  and log_failures [simp]: "ag_AuthFailures (logAgentRestriction reason subject at s) = ag_AuthFailures s"
  by (simp_all add: logAgentRestriction_def split: option.split)

lemma delete_banned:
  assumes "gomap_ok (tc_entries c)" and "banned ip now c" and "ip' = ip \<longrightarrow> False"
  shows "gomap_ok (AList.delete ip' (tc_entries c))"
    and "banned ip now (c\<lparr>tc_entries := AList.delete ip' (tc_entries c)\<rparr>)"
    and "fst ` set (AList.delete ip' (tc_entries c)) \<subseteq> fst ` set (tc_entries c)"
  using assms by (auto simp: banned_def AList.delete_conv' set_delete_alist simp del: map_of_eq_Some_iff)

lemma event_banned:
  assumes g: "gomap_ok (tc_entries (ag_AuthBans s))" and len: "length (tc_entries (ag_AuthBans s)) < agentRateLimiterMaxKeys"
    and b: "banned ip now (ag_AuthBans s)" and e: "e \<noteq> Success ip" "event_within t now e" and t: "now < t + agentAuthBanTTL"
  shows "gomap_ok (tc_entries (ag_AuthBans (auth_apply e s))) \<and> banned ip now (ag_AuthBans (auth_apply e s)) \<and>
    fst ` set (tc_entries (ag_AuthBans (auth_apply e s))) \<subseteq> fst ` set (tc_entries (ag_AuthBans s)) \<union> set (failing_ips [e])"
proof (cases e)
  case (Failure ip' at at')
  with put_banned [OF g len b, of at ip' agentAuthBanTTL] e(2) t g b show ?thesis
    by (auto simp: noteAgentAuthFailure_def Let_def)
next
  case (Check ip' at)
  from b obtain x where x: "map_of (tc_entries (ag_AuthBans s)) ip = Some x" "now < x" by (auto simp: banned_def)
  show ?thesis
  proof (cases "\<exists>y. map_of (tc_entries (ag_AuthBans s)) ip' = Some y \<and> \<not> at < y")
    case True
    then have "ip' \<noteq> ip" using x e(2) Check by auto
    with delete_banned [OF g b, of ip'] True Check g b show ?thesis
      by (auto simp: agentAuthBlocked_def cache_has_def Let_def set_delete_alist simp del: map_of_eq_Some_iff)
  next
    case False
    with Check g b show ?thesis
      by (auto simp: agentAuthBlocked_def cache_has_def Let_def split: option.split simp del: map_of_eq_Some_iff)
  qed
next
  case (Success ip')
  with delete_banned [OF g b, of ip'] e(1) g b show ?thesis
    by (auto simp: noteAgentAuthSuccess_def cache_delete_def)
qed

lemma run_banned:
  assumes "gomap_ok (tc_entries (ag_AuthBans s))"
    and "card (fst ` set (tc_entries (ag_AuthBans s)) \<union> set (failing_ips es)) < agentRateLimiterMaxKeys"
    and "banned ip now (ag_AuthBans s)" and "list_all (\<lambda>e. e \<noteq> Success ip \<and> event_within t now e) es" and "now < t + agentAuthBanTTL"
  shows "banned ip now (ag_AuthBans (fold auth_apply es s))"
  using assms(1-4)
proof (induction es arbitrary: s)
  case (Cons e es)
  let ?K = "fst ` set (tc_entries (ag_AuthBans s))"
  have fs: "set (failing_ips (e # es)) = set (failing_ips [e]) \<union> set (failing_ips es)" by (cases e) auto
  have "card ?K \<le> card (?K \<union> set (failing_ips (e # es)))" by (intro card_mono) auto
  then have "length (tc_entries (ag_AuthBans s)) < agentRateLimiterMaxKeys"
    using Cons.prems(1,2) by (simp add: length_alist_card)
  then have ev: "gomap_ok (tc_entries (ag_AuthBans (auth_apply e s)))" "banned ip now (ag_AuthBans (auth_apply e s))"
    "fst ` set (tc_entries (ag_AuthBans (auth_apply e s))) \<subseteq> ?K \<union> set (failing_ips [e])"
    using event_banned [OF Cons.prems(1) _ Cons.prems(3) _ _ assms(5), of e] Cons.prems(4) by auto
  have "card (fst ` set (tc_entries (ag_AuthBans (auth_apply e s))) \<union> set (failing_ips es))
      \<le> card (?K \<union> set (failing_ips (e # es)))"
    using ev(3) by (intro card_mono) (auto simp: fs)
  then show ?case using Cons.prems(2,4) by (simp add: Cons.IH [OF ev(1) _ ev(2)])
qed simp

text \<open>What the bound on the table costs: the ban that comes to a full table is the only one left.\<close>

lemma full_table_drops_bans:
  assumes "agentRateLimiterMaxKeys \<le> length (filter (\<lambda>(key, expiry). expiry > at) (tc_entries c))" and "key \<noteq> []" and "0 < ttl"
  shows "tc_entries (cache_put key ttl at c) = [(key, at + ttl)]"
proof -
  have "\<not> length (tc_entries c) < agentRateLimiterMaxKeys"
    using assms(1) length_filter_le [of "\<lambda>(key, expiry). expiry > at" "tc_entries c"] by linarith
  with assms show ?thesis by (simp add: cache_put_def cache_sweepLocked_def Let_def)
qed

text \<open>C28. An address that spends its failure budget stays blocked for the whole ban: whatever failures and
  checks of any address and successes of other addresses follow, every check before fifteen minutes have
  passed answers blocked, on the condition that the addresses in the ban table and those that fail in the meantime are
  fewer than 8192; a table with that many running bans drops all of them when a further ban is recorded. A success of
  the address itself lifts the block at once.\<close>

theorem ban_holds_until_success:
  assumes "guard_ok s" and "ip \<noteq> []" and s': "s' = noteAgentAuthFailure ip t t' s"
    and "limiter_count ip agentAuthFailureWindow t (ag_AuthFailures s') \<ge> agentAuthFailureLimit"
    and "card (fst ` set (tc_entries (ag_AuthBans s')) \<union> set (failing_ips es)) < agentRateLimiterMaxKeys"
    and "list_all (\<lambda>e. e \<noteq> Success ip \<and> event_within t now e) es" and now: "t \<le> now" "now < t + agentAuthBanTTL"
  shows "fst (agentAuthBlocked ip now (fold auth_apply es s')) \<and>
    \<not> fst (agentAuthBlocked ip later (noteAgentAuthSuccess ip (fold auth_apply es s')))"
proof -
  have "guard_ok s'" unfolding s' using step_failure assms(1) by (rule guard_step_ok)
  then have g: "gomap_ok (tc_entries (ag_AuthBans s'))" by (simp add: guard_ok_def cache_ok_def)
  have b: "banned ip now (ag_AuthBans s')"
    using assms(2,4) now unfolding s'
    by (auto simp: noteAgentAuthFailure_def Let_def banned_def cache_put_def AList.update_conv' agentAuthBanTTL_def go_defs)
  have "banned ip now (ag_AuthBans (fold auth_apply es s'))"
    using g assms(5) b assms(6) now(2) by (rule run_banned)
  then have "fst (agentAuthBlocked ip now (fold auth_apply es s'))"
    using assms(2) by (auto simp: banned_def agentAuthBlocked_def cache_has_def)
  moreover have "\<not> fst (agentAuthBlocked ip later (noteAgentAuthSuccess ip (fold auth_apply es s')))"
    using assms(2) by (simp add: agentAuthBlocked_def noteAgentAuthSuccess_def cache_has_def cache_delete_def limiter_clear_def
        limiter_count_def AList.delete_conv' agentAuthFailureLimit_def)
  ultimately show ?thesis ..
qed

definition failed_seven :: AgentGuard where
  "failed_seven = newAgentGuard\<lparr>ag_AuthFailures := \<lparr>ml_entries = [(''a'', \<lparr>rw_start = 1, rw_count = 7\<rparr>)], ml_lastSweep = 1\<rparr>\<rparr>"

lemmas guard_eval = failed_seven_def newAgentGuard_def noteAgentAuthFailure_def limiter_allow_def limiter_sweepLocked_def
  limiter_count_def cache_put_def cache_sweepLocked_def newTTLCache_def agentAuthFailureLimit_def agentAuthFailureWindow_def
  agentAuthBanTTL_def agentRateLimiterMaxKeys_def time_sub_def min_duration_def max_duration_def go_defs Let_def

theorem ban_holds_until_success_witness:
  "fst (agentAuthBlocked ''a'' 9 (noteAgentAuthFailure ''b'' 8 8 (noteAgentAuthFailure ''a'' 5 5 failed_seven)))"
proof -
  have ok: "guard_ok failed_seven"
    by (simp add: failed_seven_def newAgentGuard_def guard_ok_def newMemoryRateLimiter_def newTTLCache_def limiter_ok_def
        cache_ok_def agentRateLimiterMaxKeys_def)
  have count: "agentAuthFailureLimit \<le> limiter_count ''a'' agentAuthFailureWindow 5 (ag_AuthFailures (noteAgentAuthFailure ''a'' 5 5 failed_seven))"
    by (simp add: guard_eval)
  have room: "card (fst ` set (tc_entries (ag_AuthBans (noteAgentAuthFailure ''a'' 5 5 failed_seven))) \<union>
      set (failing_ips [Failure ''b'' 8 8])) < agentRateLimiterMaxKeys"
    by (simp add: guard_eval)
  have "list_all (\<lambda>e. e \<noteq> Success ''a'' \<and> event_within 5 9 e) [Failure ''b'' 8 8]" by simp
  from ban_holds_until_success [OF ok _ refl count room this] show ?thesis
    by (simp add: agentAuthBanTTL_def go_defs del: split_paired_All)
qed

end
