(* ===== verification/Runtime_User_Ledger.thy ===== *)
theory Runtime_User_Ledger
  imports Oboard_Prelude
begin

text \<open>
  The ledger of the users lane, \<open>internal/store/runtime_user_states.go\<close>: one row per server with the
  desired, the delivered and the confirmed revision of its user package. Each operation is one
  step on the table; failures of the database driver are not modelled. The clock reading of an
  operation is its argument \<open>ts\<close>.
\<close>

section \<open>The table\<close>

abbreviation RuntimeUsersPendingDelivering :: string where "RuntimeUsersPendingDelivering \<equiv> ''delivering''"
abbreviation RuntimeUsersPendingAwaitingConfirm :: string where "RuntimeUsersPendingAwaitingConfirm \<equiv> ''awaiting_confirmation''"
abbreviation RuntimeUsersPendingRevisionConflict :: string where "RuntimeUsersPendingRevisionConflict \<equiv> ''revision_conflict''"

record RuntimeUserState =
  us_ServerID :: int
  us_DesiredRevision :: int
  us_DesiredDigest :: string
  us_EvaluatedRoutingRevision :: nat
  us_DeliveredRevision :: int
  us_DeliveredMessageID :: string
  us_DeliveredAt :: "time option"
  us_ConfirmedRevision :: int
  us_ConfirmedDigest :: string
  us_ConfirmedBootID :: string
  us_ConfirmedAt :: "time option"
  us_PendingReason :: string
  us_LastError :: string
  us_Retryable :: bool
  us_UpdatedAt :: time

type_synonym user_rows = "(int, RuntimeUserState) gomap"

definition User_Confirmed :: "RuntimeUserState \<Rightarrow> bool" where
  "User_Confirmed s \<longleftrightarrow> us_DesiredRevision s > 0 \<and> us_ConfirmedRevision s \<ge> us_DesiredRevision s"

record RuntimeUserDesiredEvaluation =
  ue_State :: RuntimeUserState
  ue_Changed :: bool

text \<open>The column defaults of the table, \<open>insert or ignore\<close>, and \<open>update ... where server_id=?\<close>.\<close>

definition default_user_state :: "int \<Rightarrow> time \<Rightarrow> RuntimeUserState" where
  "default_user_state serverID ts =
     \<lparr>us_ServerID = serverID, us_DesiredRevision = 0, us_DesiredDigest = [], us_EvaluatedRoutingRevision = 0,
      us_DeliveredRevision = 0, us_DeliveredMessageID = [], us_DeliveredAt = None, us_ConfirmedRevision = 0,
      us_ConfirmedDigest = [], us_ConfirmedBootID = [], us_ConfirmedAt = None, us_PendingReason = [],
      us_LastError = [], us_Retryable = True, us_UpdatedAt = ts\<rparr>"

definition ensure_user_row :: "int \<Rightarrow> time \<Rightarrow> user_rows \<Rightarrow> user_rows" where
  "ensure_user_row serverID ts rows =
     (case map_of rows serverID of
        Some _ \<Rightarrow> rows
      | None \<Rightarrow> AList.update serverID (default_user_state serverID ts) rows)"

definition update_user_row :: "int \<Rightarrow> (RuntimeUserState \<Rightarrow> RuntimeUserState) \<Rightarrow> user_rows \<Rightarrow> user_rows" where
  "update_user_row serverID f rows =
     (case map_of rows serverID of Some s \<Rightarrow> AList.update serverID (f s) rows | None \<Rightarrow> rows)"

section \<open>Operations\<close>

definition recordRuntimeUserDesiredAt ::
  "user_rows \<Rightarrow> int \<Rightarrow> string \<Rightarrow> nat \<Rightarrow> time \<Rightarrow> time \<Rightarrow> RuntimeUserDesiredEvaluation result \<times> user_rows" where
  "recordRuntimeUserDesiredAt rows serverID digest routingRevision now clock =
     (if serverID \<le> 0 then (Inl ''sql: no rows in result set'', rows)
      else
        (let digest = TrimSpace digest;
             ts = (if IsZero now then clock else now);
             tx = ensure_user_row serverID ts rows;
             current = the (map_of tx serverID);
             out = \<lparr>ue_State = current, ue_Changed = False\<rparr>
         in if us_DesiredDigest current = digest \<and> us_DesiredRevision current > 0 then
              (if us_EvaluatedRoutingRevision current = routingRevision then (Inr out, rows)
               else (Inr (out\<lparr>ue_State := current\<lparr>us_EvaluatedRoutingRevision := routingRevision\<rparr>\<rparr>),
                     update_user_row serverID
                       (\<lambda>s. s\<lparr>us_EvaluatedRoutingRevision := routingRevision, us_UpdatedAt := ts\<rparr>) tx))
            else
              (let nextRevision = us_DesiredRevision current + 1;
                   desired = (\<lambda>s. s\<lparr>us_DesiredRevision := nextRevision, us_DesiredDigest := digest,
                     us_EvaluatedRoutingRevision := routingRevision,
                     us_PendingReason := (if us_PendingReason s = [] then RuntimeUsersPendingDelivering else us_PendingReason s)\<rparr>)
               in (Inr \<lparr>ue_State = desired current, ue_Changed = True\<rparr>,
                   update_user_row serverID (\<lambda>s. (desired s)\<lparr>us_UpdatedAt := ts\<rparr>) tx))))"

definition EvaluateRuntimeUsersDesired ::
  "user_rows \<Rightarrow> int \<Rightarrow> nat \<Rightarrow> string \<Rightarrow> time \<Rightarrow> time \<Rightarrow> RuntimeUserDesiredEvaluation result \<times> user_rows" where
  "EvaluateRuntimeUsersDesired rows serverID routingRevision digest now clock =
     recordRuntimeUserDesiredAt rows serverID digest routingRevision now clock"

definition RecordRuntimeUserDesired ::
  "user_rows \<Rightarrow> int \<Rightarrow> string \<Rightarrow> nat \<Rightarrow> time \<Rightarrow> time \<Rightarrow> RuntimeUserDesiredEvaluation result \<times> user_rows" where
  "RecordRuntimeUserDesired rows serverID digest routingRevision ts clock =
     recordRuntimeUserDesiredAt rows serverID digest routingRevision ts clock"

definition RecordRuntimeUserDelivery :: "user_rows \<Rightarrow> int \<Rightarrow> int \<Rightarrow> string \<Rightarrow> time \<Rightarrow> user_rows" where
  "RecordRuntimeUserDelivery rows serverID revision messageID ts =
     update_user_row serverID (\<lambda>s.
       s\<lparr>us_DeliveredRevision := revision, us_DeliveredMessageID := TrimSpace messageID, us_DeliveredAt := Some ts,
         us_PendingReason :=
           (if us_PendingReason s = RuntimeUsersPendingRevisionConflict then RuntimeUsersPendingRevisionConflict
            else if us_ConfirmedRevision s \<ge> us_DesiredRevision s then []
            else RuntimeUsersPendingAwaitingConfirm),
         us_LastError := [], us_Retryable := True, us_UpdatedAt := ts\<rparr>) rows"

text \<open>
  The watermark update that an acknowledgement and a restatement share; \<open>clears\<close> says when the pending
  reason and the error are dropped.
\<close>

definition confirm_user_row ::
  "int \<Rightarrow> string \<Rightarrow> string \<Rightarrow> time \<Rightarrow> (RuntimeUserState \<Rightarrow> bool) \<Rightarrow> RuntimeUserState \<Rightarrow> RuntimeUserState" where
  "confirm_user_row revision digest bootID ts clears s =
     s\<lparr>us_ConfirmedRevision := revision, us_ConfirmedDigest := digest, us_ConfirmedBootID := bootID, us_ConfirmedAt := Some ts,
       us_PendingReason := (if clears s then [] else us_PendingReason s),
       us_LastError := (if clears s then [] else us_LastError s), us_UpdatedAt := ts\<rparr>"

definition advances :: "int \<Rightarrow> string \<Rightarrow> string \<Rightarrow> RuntimeUserState \<Rightarrow> bool" where
  "advances revision digest bootID s \<longleftrightarrow>
     us_ConfirmedRevision s < revision \<or>
     us_ConfirmedRevision s = revision \<and> (us_ConfirmedDigest s \<noteq> digest \<or> us_ConfirmedBootID s \<noteq> bootID)"

definition RecordRuntimeUserConfirmation ::
  "user_rows \<Rightarrow> int \<Rightarrow> int \<Rightarrow> string \<Rightarrow> string \<Rightarrow> time \<Rightarrow> bool \<times> user_rows" where
  "RecordRuntimeUserConfirmation rows serverID revision digest bootID ts =
     (if serverID \<le> 0 \<or> revision \<le> 0 then (False, rows)
      else
        (let rows = ensure_user_row serverID ts rows
         in if advances revision (TrimSpace digest) (TrimSpace bootID) (the (map_of rows serverID))
            then (True, update_user_row serverID
                   (confirm_user_row revision (TrimSpace digest) (TrimSpace bootID) ts (\<lambda>s. us_DesiredRevision s \<le> revision)) rows)
            else (False, rows)))"

definition clears_unless_conflict :: "int \<Rightarrow> RuntimeUserState \<Rightarrow> bool" where
  "clears_unless_conflict revision s \<longleftrightarrow>
     us_DesiredRevision s \<le> revision \<and> us_PendingReason s \<noteq> RuntimeUsersPendingRevisionConflict"

definition recordRuntimeUserConfirmationPreservingConflict ::
  "user_rows \<Rightarrow> int \<Rightarrow> int \<Rightarrow> string \<Rightarrow> string \<Rightarrow> time \<Rightarrow> bool \<times> user_rows" where
  "recordRuntimeUserConfirmationPreservingConflict rows serverID revision digest bootID ts =
     (if serverID \<le> 0 \<or> revision \<le> 0 then (False, rows)
      else
        (let rows = ensure_user_row serverID ts rows
         in if advances revision (TrimSpace digest) (TrimSpace bootID) (the (map_of rows serverID))
            then (True, update_user_row serverID
                   (confirm_user_row revision (TrimSpace digest) (TrimSpace bootID) ts (clears_unless_conflict revision)) rows)
            else (False, rows)))"

definition RestateRuntimeUserConfirmation ::
  "user_rows \<Rightarrow> int \<Rightarrow> int \<Rightarrow> string \<Rightarrow> string \<Rightarrow> time \<Rightarrow> time \<Rightarrow> bool \<times> user_rows" where
  "RestateRuntimeUserConfirmation rows serverID revision digest bootID ts ts' =
     (let boot = TrimSpace bootID in
      if serverID \<le> 0 \<or> revision \<le> 0 \<or> boot = [] then
        RecordRuntimeUserConfirmation rows serverID revision digest bootID ts'
      else
        (case map_of rows serverID of
           Some s \<Rightarrow>
             if us_ConfirmedBootID s \<noteq> [] \<and> us_ConfirmedBootID s \<noteq> boot \<and> us_ConfirmedRevision s > revision
             then (True, update_user_row serverID
                     (confirm_user_row revision (TrimSpace digest) boot ts (clears_unless_conflict revision)) rows)
             else recordRuntimeUserConfirmationPreservingConflict rows serverID revision digest bootID ts'
         | None \<Rightarrow> recordRuntimeUserConfirmationPreservingConflict rows serverID revision digest bootID ts'))"

definition ForceRuntimeUsersResync :: "user_rows \<Rightarrow> int \<Rightarrow> time \<Rightarrow> unit result \<times> user_rows" where
  "ForceRuntimeUsersResync rows serverID ts =
     (if serverID \<le> 0 then (Inl ''sql: no rows in result set'', rows)
      else (Inr (), update_user_row serverID (\<lambda>s.
        s\<lparr>us_DesiredDigest := [], us_EvaluatedRoutingRevision := 0, us_ConfirmedRevision := 0, us_ConfirmedDigest := [],
          us_ConfirmedBootID := [], us_ConfirmedAt := None, us_PendingReason := RuntimeUsersPendingDelivering,
          us_LastError := [], us_Retryable := True, us_UpdatedAt := ts\<rparr>) (ensure_user_row serverID ts rows)))"

definition MarkRuntimeUserPending :: "user_rows \<Rightarrow> int \<Rightarrow> string \<Rightarrow> string \<Rightarrow> bool \<Rightarrow> time \<Rightarrow> user_rows" where
  "MarkRuntimeUserPending rows serverID reason lastError retryable ts =
     (if serverID \<le> 0 then rows
      else update_user_row serverID (\<lambda>s.
        s\<lparr>us_PendingReason := TrimSpace reason, us_LastError := TrimSpace lastError, us_Retryable := retryable,
          us_UpdatedAt := ts\<rparr>) (ensure_user_row serverID ts rows))"

definition Store_RuntimeUserState :: "user_rows \<Rightarrow> int \<Rightarrow> RuntimeUserState" where
  "Store_RuntimeUserState rows serverID =
     (case map_of rows serverID of Some s \<Rightarrow> s | None \<Rightarrow> default_user_state serverID 0)"

definition ListRuntimeUserStates :: "user_rows \<Rightarrow> RuntimeUserState list" where
  "ListRuntimeUserStates rows = map snd (sort_key fst rows)"

text \<open>The \<open>servers\<close> table: identifiers with the agent identity, empty when not enrolled.\<close>

definition StaleRuntimeUserServerIDs :: "user_rows \<Rightarrow> (int, string) gomap \<Rightarrow> nat \<Rightarrow> int list" where
  "StaleRuntimeUserServerIDs rows servers routingRevision =
     sort (map fst (filter (\<lambda>(i, agent). agent \<noteq> [] \<and>
       (case map_of rows i of
          None \<Rightarrow> True
        | Some s \<Rightarrow> us_EvaluatedRoutingRevision s < routingRevision \<or>
                    us_ConfirmedRevision s < us_DesiredRevision s)) servers))"

text \<open>
  The other writers of the table, in \<open>store.go\<close>, \<open>device_retirement_batches.go\<close> and \<open>access_deadlines.go\<close>: what an Agent
  had received is forgotten when it enrols anew, a batch of retired devices invalidates the package of its nodes, and
  servers are marked for evaluation.
\<close>

definition clearDeliveredLaneStateTx :: "user_rows \<Rightarrow> int \<Rightarrow> time \<Rightarrow> user_rows" where
  "clearDeliveredLaneStateTx rows serverID ts =
     update_user_row serverID (\<lambda>s.
       s\<lparr>us_DeliveredRevision := 0, us_DeliveredMessageID := [], us_DeliveredAt := None, us_ConfirmedRevision := 0,
         us_ConfirmedDigest := [], us_ConfirmedBootID := [], us_ConfirmedAt := None, us_UpdatedAt := ts\<rparr>) rows"

definition retire_user_packages :: "user_rows \<Rightarrow> int list \<Rightarrow> user_rows" where
  "retire_user_packages rows nodes =
     map (\<lambda>(k, s). (k, if k \<in> set nodes
       then s\<lparr>us_DesiredDigest := [], us_EvaluatedRoutingRevision := 0, us_ConfirmedRevision := 0, us_ConfirmedDigest := [], us_ConfirmedAt := None\<rparr>
       else s)) rows"

definition uniquePositiveServerIDs :: "int list \<Rightarrow> int list" where
  "uniquePositiveServerIDs serverIDs = rev (fold (\<lambda>i out. if i \<le> 0 \<or> i \<in> set out then out else i # out) serverIDs [])"

definition MarkRuntimeUsersEvaluatedStale :: "user_rows \<Rightarrow> int list \<Rightarrow> time \<Rightarrow> user_rows" where
  "MarkRuntimeUsersEvaluatedStale rows serverIDs ts =
     (let ids = uniquePositiveServerIDs serverIDs
      in map (\<lambda>(k, s). (k, if k \<in> set ids then s\<lparr>us_EvaluatedRoutingRevision := 0, us_UpdatedAt := ts\<rparr> else s))
           (fold (\<lambda>i. ensure_user_row i ts) ids rows))"

section \<open>The lane as a transition system\<close>

text \<open>
  Next to the table the state keeps every desired state that an evaluation has returned: the server, the
  revision and the digest under which a package is delivered. A digest is never blank: the caller passes
  the hexadecimal hash of the package. Deleting a server, which removes its row, is not a step: the histories are
  those of servers that stay. Some operations are an insertion of missing rows and an update without a transaction. The step
  \<open>lane_insert\<close> is such an insertion alone; as rows stay, the operation itself after it is the update.
\<close>

record user_lane =
  ul_rows :: user_rows
  ul_issued :: "(int \<times> int \<times> string) list"

definition initial_lane :: user_lane where
  "initial_lane = \<lparr>ul_rows = [], ul_issued = []\<rparr>"

definition issue :: "int \<Rightarrow> RuntimeUserDesiredEvaluation result \<Rightarrow> (int \<times> int \<times> string) list" where
  "issue serverID r = (case r of Inl _ \<Rightarrow> [] | Inr e \<Rightarrow> [(serverID, us_DesiredRevision (ue_State e), us_DesiredDigest (ue_State e))])"

inductive lane_step :: "user_lane \<Rightarrow> user_lane \<Rightarrow> bool" where
  lane_evaluate: "recordRuntimeUserDesiredAt (ul_rows w) serverID digest routingRevision now clock = (r, rows) \<Longrightarrow>
    TrimSpace digest \<noteq> [] \<Longrightarrow> lane_step w \<lparr>ul_rows = rows, ul_issued = issue serverID r @ ul_issued w\<rparr>"
| lane_deliver: "lane_step w (w\<lparr>ul_rows := RecordRuntimeUserDelivery (ul_rows w) serverID revision messageID ts\<rparr>)"
| lane_confirm: "lane_step w (w\<lparr>ul_rows := snd (RecordRuntimeUserConfirmation (ul_rows w) serverID revision digest bootID ts)\<rparr>)"
| lane_restate: "lane_step w (w\<lparr>ul_rows := snd (RestateRuntimeUserConfirmation (ul_rows w) serverID revision digest bootID ts ts')\<rparr>)"
| lane_resync: "lane_step w (w\<lparr>ul_rows := snd (ForceRuntimeUsersResync (ul_rows w) serverID ts)\<rparr>)"
| lane_pending: "lane_step w (w\<lparr>ul_rows := MarkRuntimeUserPending (ul_rows w) serverID reason lastError retryable ts\<rparr>)"
| lane_insert: "lane_step w (w\<lparr>ul_rows := ensure_user_row serverID ts (ul_rows w)\<rparr>)"
| lane_clear: "lane_step w (w\<lparr>ul_rows := clearDeliveredLaneStateTx (ul_rows w) serverID ts\<rparr>)"
| lane_retire: "lane_step w (w\<lparr>ul_rows := retire_user_packages (ul_rows w) nodes\<rparr>)"
| lane_stale: "lane_step w (w\<lparr>ul_rows := MarkRuntimeUsersEvaluatedStale (ul_rows w) serverIDs ts\<rparr>)"

section \<open>Rows after an operation\<close>

lemma ensure_lookup:
  "map_of (ensure_user_row serverID ts rows) k =
     (if k = serverID then Some (case map_of rows k of Some s \<Rightarrow> s | None \<Rightarrow> default_user_state serverID ts) else map_of rows k)"
  by (simp add: ensure_user_row_def AList.update_conv' split: option.split)

lemma update_lookup:
  "map_of (update_user_row serverID f rows) k = (if k = serverID then map_option f (map_of rows k) else map_of rows k)"
  by (auto simp: update_user_row_def AList.update_conv' split: option.split)

lemmas lane_lookups = ensure_lookup update_lookup

text \<open>The desired columns of a row: zero and blank for a server without one.\<close>

definition desired_of :: "user_rows \<Rightarrow> int \<Rightarrow> int \<times> string" where
  "desired_of rows k = (case map_of rows k of Some s \<Rightarrow> (us_DesiredRevision s, us_DesiredDigest s) | None \<Rightarrow> (0, []))"

lemma desired_of_ensure [simp]: "desired_of (ensure_user_row i ts rows) k = desired_of rows k"
  by (auto simp: desired_of_def ensure_lookup default_user_state_def split: option.split)

lemma desired_of_update:
  assumes "\<And>s. us_DesiredRevision (f s) = us_DesiredRevision s" "\<And>s. us_DesiredDigest (f s) = us_DesiredDigest s"
  shows "desired_of (update_user_row i f rows) k = desired_of rows k"
  using assms by (auto simp: desired_of_def update_lookup split: option.split)

lemma desired_of_put:
  assumes "\<And>s. us_DesiredRevision (f s) = r" "\<And>s. us_DesiredDigest (f s) = d"
  shows "desired_of (update_user_row i f (ensure_user_row i ts rows)) k = (if k = i then (r, d) else desired_of rows k)"
  using assms by (auto simp: desired_of_def lane_lookups split: option.split)

lemma map_of_rows: "map_of (map (\<lambda>(k, s). (k, f k s)) rows) i = map_option (f i) (map_of rows i)"
  by (induction rows) auto

lemma desired_of_map:
  assumes "\<And>k s. us_DesiredRevision (f k s) = us_DesiredRevision s"
  shows "fst (desired_of (map (\<lambda>(k, s). (k, f k s)) rows) i) = fst (desired_of rows i)"
    and "(\<And>k s. us_DesiredDigest (f k s) = us_DesiredDigest s \<or> us_DesiredDigest (f k s) = []) \<Longrightarrow>
      snd (desired_of (map (\<lambda>(k, s). (k, f k s)) rows) i) = snd (desired_of rows i) \<or> snd (desired_of (map (\<lambda>(k, s). (k, f k s)) rows) i) = []"
    and "(\<And>k s. us_DesiredDigest (f k s) = us_DesiredDigest s) \<Longrightarrow> desired_of (map (\<lambda>(k, s). (k, f k s)) rows) i = desired_of rows i"
  using assms by (simp_all add: desired_of_def map_of_rows split: option.split)

lemma desired_of_ensures [simp]: "desired_of (fold (\<lambda>i. ensure_user_row i ts) ids rows) k = desired_of rows k"
  by (induction ids arbitrary: rows) simp_all

lemma desired_of_confirm:
  "desired_of (snd (RecordRuntimeUserConfirmation rows i revision digest bootID ts)) k = desired_of rows k"
  "desired_of (snd (recordRuntimeUserConfirmationPreservingConflict rows i revision digest bootID ts)) k = desired_of rows k"
  by (simp_all add: RecordRuntimeUserConfirmation_def recordRuntimeUserConfirmationPreservingConflict_def Let_def
      desired_of_update confirm_user_row_def)

lemma desired_of_restate:
  "desired_of (snd (RestateRuntimeUserConfirmation rows i revision digest bootID ts ts')) k = desired_of rows k"
  by (simp add: RestateRuntimeUserConfirmation_def Let_def desired_of_confirm desired_of_update confirm_user_row_def split: option.split)

lemma desired_of_evaluate:
  assumes "recordRuntimeUserDesiredAt rows i digest routingRevision now clock = (r, rows')" and "0 < i"
  obtains e where "r = Inr e"
    and "us_DesiredDigest (ue_State e) = TrimSpace digest"
    and "us_DesiredRevision (ue_State e) =
      (if snd (desired_of rows i) = TrimSpace digest \<and> fst (desired_of rows i) > 0 then fst (desired_of rows i)
       else fst (desired_of rows i) + 1)"
    and "\<And>k. desired_of rows' k =
      (if k = i then (us_DesiredRevision (ue_State e), us_DesiredDigest (ue_State e)) else desired_of rows k)"
proof -
  define s where "s = (case map_of rows i of Some s \<Rightarrow> s | None \<Rightarrow> default_user_state i (if IsZero now then clock else now))"
  have s: "desired_of rows i = (us_DesiredRevision s, us_DesiredDigest s)"
    by (simp add: desired_of_def s_def default_user_state_def split: option.split)
  have cur: "the (map_of (ensure_user_row i (if IsZero now then clock else now) rows) i) = s"
    by (simp add: ensure_lookup s_def)
  show thesis
  proof (cases "us_DesiredDigest s = TrimSpace digest \<and> us_DesiredRevision s > 0")
    case True
    then have "map_of rows i = Some s" by (auto simp: s_def default_user_state_def split: option.splits)
    with True assms s show thesis
      by (intro that [of "projr r"])
        (auto simp: recordRuntimeUserDesiredAt_def Let_def cur desired_of_update split: if_splits)
  next
    case False
    with assms s show thesis
      by (intro that [of "projr r"])
        (auto simp: recordRuntimeUserDesiredAt_def Let_def cur desired_of_put)
  qed
qed

section \<open>A revision names one package\<close>

definition issued_ok :: "user_rows \<Rightarrow> (int \<times> int \<times> string) set \<Rightarrow> bool" where
  "issued_ok rows issued \<longleftrightarrow>
     (\<forall>k. 0 \<le> fst (desired_of rows k)) \<and>
     (\<forall>k r d. (k, r, d) \<in> issued \<longrightarrow> d \<noteq> [] \<and> 0 < r \<and> r \<le> fst (desired_of rows k) \<and>
        (r = fst (desired_of rows k) \<longrightarrow> snd (desired_of rows k) = d \<or> snd (desired_of rows k) = [])) \<and>
     (\<forall>k r d d'. (k, r, d) \<in> issued \<longrightarrow> (k, r, d') \<in> issued \<longrightarrow> d = d')"

lemma issued_ok_same:
  assumes "issued_ok rows issued" and "\<And>k. fst (desired_of rows' k) = fst (desired_of rows k)"
    and "\<And>k. snd (desired_of rows' k) = snd (desired_of rows k) \<or> snd (desired_of rows' k) = []"
  shows "issued_ok rows' issued"
  using assms unfolding issued_ok_def by metis

lemma issued_ok_evaluate:
  assumes inv: "issued_ok rows issued" and "0 < i" and d: "digest \<noteq> []"
    and rev: "revision = (if snd (desired_of rows i) = digest \<and> fst (desired_of rows i) > 0 then fst (desired_of rows i)
       else fst (desired_of rows i) + 1)"
    and rows': "\<And>k. desired_of rows' k = (if k = i then (revision, digest) else desired_of rows k)"
  shows "issued_ok rows' (insert (i, revision, digest) issued)"
proof -
  have pos: "0 < revision" using inv rev by (auto simp: issued_ok_def add_nonneg_pos)
  have le: "fst (desired_of rows i) \<le> revision" using rev by auto
  have old: "d = digest" if "(i, revision, d) \<in> issued" for d
  proof -
    have "d \<noteq> []" "revision \<le> fst (desired_of rows i)"
      "revision = fst (desired_of rows i) \<longrightarrow> snd (desired_of rows i) = d \<or> snd (desired_of rows i) = []"
      using inv that by (auto simp: issued_ok_def)
    then show ?thesis using rev \<open>digest \<noteq> []\<close> by (auto split: if_splits)
  qed
  show ?thesis
    unfolding issued_ok_def
  proof (intro conjI allI impI)
    fix k
    show "0 \<le> fst (desired_of rows' k)" using inv pos by (auto simp: rows' issued_ok_def)
  next
    fix k r d assume m: "(k, r, d) \<in> insert (i, revision, digest) issued"
    show "d \<noteq> []" using m inv \<open>digest \<noteq> []\<close> by (auto simp: issued_ok_def)
    show "0 < r" using m inv pos by (auto simp: issued_ok_def)
    show "r \<le> fst (desired_of rows' k)" using m inv le by (fastforce simp: rows' issued_ok_def)
    assume "r = fst (desired_of rows' k)"
    with m inv old show "snd (desired_of rows' k) = d \<or> snd (desired_of rows' k) = []"
      by (auto simp: rows' issued_ok_def split: if_splits)
  next
    fix k r d d' assume "(k, r, d) \<in> insert (i, revision, digest) issued" "(k, r, d') \<in> insert (i, revision, digest) issued"
    with inv old show "d = d'" by (auto simp: issued_ok_def)
  qed
qed

lemma lane_step_issued_ok:
  assumes "lane_step w w'" and inv: "issued_ok (ul_rows w) (set (ul_issued w))"
  shows "issued_ok (ul_rows w') (set (ul_issued w'))"
  using assms(1)
proof cases
  case (lane_evaluate serverID digest routingRevision now clock r rows)
  show ?thesis
  proof (cases "0 < serverID")
    case True
    from lane_evaluate(2) True obtain e where e: "r = Inr e" "us_DesiredDigest (ue_State e) = TrimSpace digest"
      "us_DesiredRevision (ue_State e) = (if snd (desired_of (ul_rows w) serverID) = TrimSpace digest \<and> fst (desired_of (ul_rows w) serverID) > 0
         then fst (desired_of (ul_rows w) serverID) else fst (desired_of (ul_rows w) serverID) + 1)"
      "\<And>k. desired_of rows k = (if k = serverID then (us_DesiredRevision (ue_State e), us_DesiredDigest (ue_State e)) else desired_of (ul_rows w) k)"
      by (rule desired_of_evaluate) (rule that)
    have "issued_ok rows (insert (serverID, us_DesiredRevision (ue_State e), TrimSpace digest) (set (ul_issued w)))"
      using inv True lane_evaluate(3) e(3,4) unfolding e(2) by (rule issued_ok_evaluate)
    then show ?thesis by (simp add: lane_evaluate(1) e(1,2) issue_def)
  next
    case False
    with lane_evaluate(2) inv show ?thesis by (auto simp: lane_evaluate(1) recordRuntimeUserDesiredAt_def issue_def)
  qed
next
  case (lane_deliver serverID revision messageID ts)
  with inv show ?thesis by (auto simp: RecordRuntimeUserDelivery_def desired_of_update intro: issued_ok_same)
next
  case (lane_confirm serverID revision digest bootID ts)
  with inv show ?thesis by (auto simp: desired_of_confirm intro: issued_ok_same)
next
  case (lane_restate serverID revision digest bootID ts ts')
  with inv show ?thesis by (auto simp: desired_of_restate intro: issued_ok_same)
next
  case (lane_resync serverID ts)
  have "fst (desired_of (snd (ForceRuntimeUsersResync (ul_rows w) serverID ts)) k) = fst (desired_of (ul_rows w) k) \<and>
    snd (desired_of (snd (ForceRuntimeUsersResync (ul_rows w) serverID ts)) k) \<in> {snd (desired_of (ul_rows w) k), []}" for k
    by (auto simp: ForceRuntimeUsersResync_def desired_of_def lane_lookups default_user_state_def split: option.split)
  with inv show ?thesis unfolding lane_resync by (auto intro: issued_ok_same)
next
  case (lane_pending serverID reason lastError retryable ts)
  with inv show ?thesis by (auto simp: MarkRuntimeUserPending_def desired_of_update intro: issued_ok_same)
next
  case (lane_insert serverID ts)
  with inv show ?thesis by (auto intro: issued_ok_same)
next
  case (lane_clear serverID ts)
  with inv show ?thesis by (auto simp: clearDeliveredLaneStateTx_def desired_of_update intro: issued_ok_same)
next
  case (lane_retire nodes)
  show ?thesis unfolding lane_retire retire_user_packages_def
    by (rule issued_ok_same [of "ul_rows w"], simp add: inv, simp_all, rule desired_of_map, simp, rule desired_of_map, simp_all)
next
  case (lane_stale serverIDs ts)
  have "desired_of (MarkRuntimeUsersEvaluatedStale (ul_rows w) serverIDs ts) k = desired_of (ul_rows w) k" for k
    unfolding MarkRuntimeUsersEvaluatedStale_def Let_def by (subst desired_of_map(3)) simp_all
  with inv show ?thesis unfolding lane_stale by (auto intro: issued_ok_same)
qed

interpretation ul: inv_system "\<lambda>w. w = initial_lane" lane_step "\<lambda>w. issued_ok (ul_rows w) (set (ul_issued w))"
proof unfold_locales
  fix w assume "w = initial_lane"
  then show "issued_ok (ul_rows w) (set (ul_issued w))" by (simp add: initial_lane_def issued_ok_def desired_of_def)
qed (rule lane_step_issued_ok)

text \<open>C14. A revision names one package: in every history of the lane, with evaluations, deliveries,
  acknowledgements, restatements, forced resyncs, pending marks, new enrolments, retired devices and stale marks in any order, two evaluations that
  returned the same revision for a server returned the same digest. So a node that refuses a revision
  because it holds it with other content disagrees about content the controller never issued.\<close>

theorem revision_names_one_package:
  assumes "lane_step\<^sup>*\<^sup>* initial_lane w" and "(serverID, revision, digest) \<in> set (ul_issued w)"
    and "(serverID, revision, digest') \<in> set (ul_issued w)"
  shows "digest = digest'"
  using ul.reached_inv [OF refl assms(1)] assms(2,3) by (auto simp: issued_ok_def)

definition first_evaluation :: "RuntimeUserDesiredEvaluation result \<times> user_rows" where
  "first_evaluation = recordRuntimeUserDesiredAt [] 7 ''d'' 3 5 0"

lemma TrimSpace_d: "TrimSpace ''d'' = ''d''"
  by code_simp

theorem revision_names_one_package_witness:
  "\<exists>w. lane_step\<^sup>*\<^sup>* initial_lane w \<and> {d. (7, 1, d) \<in> set (ul_issued w)} = {''d''}"
proof -
  obtain r rows where f: "first_evaluation = (r, rows)" by (cases first_evaluation)
  have i: "issue 7 r = [(7, 1, ''d'')]"
    using f by (auto simp: first_evaluation_def recordRuntimeUserDesiredAt_def IsZero_def ensure_user_row_def
        default_user_state_def TrimSpace_d issue_def Let_def)
  have "lane_step initial_lane \<lparr>ul_rows = rows, ul_issued = issue 7 r @ ul_issued initial_lane\<rparr>"
    by (rule lane_evaluate [of initial_lane 7 "''d''" 3 5 0 r rows])
      (use f in \<open>simp_all add: initial_lane_def first_evaluation_def TrimSpace_d\<close>)
  then have "lane_step\<^sup>*\<^sup>* initial_lane \<lparr>ul_rows = snd first_evaluation, ul_issued = [(7, 1, ''d'')]\<rparr>"
    by (simp add: i f initial_lane_def r_into_rtranclp)
  with revision_names_one_package [OF this, of 7 1 _ "''d''"] show ?thesis
    by (intro exI [of _ "\<lparr>ul_rows = snd first_evaluation, ul_issued = [(7, 1, ''d'')]\<rparr>"]) auto
qed

section \<open>The conflict marker\<close>

definition conflict :: "user_rows \<Rightarrow> int \<Rightarrow> bool" where
  "conflict rows k \<longleftrightarrow> (\<exists>s. map_of rows k = Some s \<and> us_PendingReason s = RuntimeUsersPendingRevisionConflict)"

lemma conflict_put:
  assumes "conflict rows k" and "\<And>s. us_PendingReason s = RuntimeUsersPendingRevisionConflict \<Longrightarrow>
    us_PendingReason (f s) = RuntimeUsersPendingRevisionConflict"
  shows "conflict (update_user_row i f rows) k" and "conflict (ensure_user_row i ts rows) k"
  using assms by (auto simp: conflict_def lane_lookups)

lemma conflict_confirm:
  assumes "conflict rows k"
  shows "conflict (snd (recordRuntimeUserConfirmationPreservingConflict rows i revision digest bootID ts)) k"
proof -
  have f: "us_PendingReason (confirm_user_row revision d b ts (clears_unless_conflict revision) s) = RuntimeUsersPendingRevisionConflict"
    if "us_PendingReason s = RuntimeUsersPendingRevisionConflict" for s d b
    using that by (simp add: confirm_user_row_def clears_unless_conflict_def)
  have e: "conflict (ensure_user_row i ts rows) k" using assms by (auto simp: conflict_def lane_lookups)
  from conflict_put(1) [OF e f] e assms show ?thesis
    by (simp add: recordRuntimeUserConfirmationPreservingConflict_def Let_def)
qed

text \<open>A recorded revision conflict survives everything but an acknowledgement of a delivery, a repair or
  an explicit mark: evaluations, delivery records and restatements by an identified incarnation keep the
  marker of every server. An acknowledgement of the desired revision that advances the watermark clears it.\<close>

theorem conflict_marker_survives:
  assumes "conflict rows k"
  shows "conflict (snd (recordRuntimeUserDesiredAt rows i digest routingRevision now clock)) k \<and>
    conflict (RecordRuntimeUserDelivery rows i revision messageID ts) k \<and>
    (TrimSpace bootID \<noteq> [] \<longrightarrow> conflict (snd (RestateRuntimeUserConfirmation rows i revision digest bootID ts ts')) k) \<and>
    (fst (RecordRuntimeUserConfirmation rows k revision digest bootID ts) \<and>
     us_DesiredRevision (the (map_of rows k)) \<le> revision \<longrightarrow>
       \<not> conflict (snd (RecordRuntimeUserConfirmation rows k revision digest bootID ts)) k)"
proof (intro conjI impI)
  show "conflict (snd (recordRuntimeUserDesiredAt rows i digest routingRevision now clock)) k"
    using assms by (auto simp: recordRuntimeUserDesiredAt_def Let_def intro!: conflict_put)
  show "conflict (RecordRuntimeUserDelivery rows i revision messageID ts) k"
    unfolding RecordRuntimeUserDelivery_def using assms by (rule conflict_put(1)) simp
next
  assume "TrimSpace bootID \<noteq> []"
  have u: "conflict (update_user_row i (confirm_user_row revision d b ts (clears_unless_conflict revision)) rows) k" for d b
    using assms by (rule conflict_put(1)) (simp add: confirm_user_row_def clears_unless_conflict_def)
  show "conflict (snd (RestateRuntimeUserConfirmation rows i revision digest bootID ts ts')) k"
  proof (cases "i \<le> 0 \<or> revision \<le> 0")
    case True
    with assms show ?thesis by (auto simp: RestateRuntimeUserConfirmation_def RecordRuntimeUserConfirmation_def Let_def)
  next
    case False
    with \<open>TrimSpace bootID \<noteq> []\<close> u conflict_confirm [OF assms] show ?thesis
      by (simp add: RestateRuntimeUserConfirmation_def Let_def split: option.split)
  qed
next
  assume "fst (RecordRuntimeUserConfirmation rows k revision digest bootID ts) \<and> us_DesiredRevision (the (map_of rows k)) \<le> revision"
  moreover obtain s where "map_of rows k = Some s" using assms by (auto simp: conflict_def)
  ultimately show "\<not> conflict (snd (RecordRuntimeUserConfirmation rows k revision digest bootID ts)) k"
    by (auto simp: RecordRuntimeUserConfirmation_def Let_def conflict_def lane_lookups confirm_user_row_def split: if_splits)
qed

definition conflicted_rows :: user_rows where
  "conflicted_rows = [(7, (default_user_state 7 1)\<lparr>us_DesiredRevision := 4, us_PendingReason := RuntimeUsersPendingRevisionConflict\<rparr>)]"

theorem conflict_marker_survives_witness:
  "conflict conflicted_rows 7 \<and> conflict (RecordRuntimeUserDelivery conflicted_rows 7 4 ''m'' 9) 7"
proof -
  have "conflict conflicted_rows 7" by (simp add: conflict_def conflicted_rows_def)
  with conflict_marker_survives [OF this] show ?thesis by blast
qed

text \<open>A restatement without an incarnation is taken as an acknowledgement, so it does clear the marker.\<close>

lemma restate_without_boot_clears:
  "\<not> conflict (snd (RestateRuntimeUserConfirmation conflicted_rows 7 4 ''d'' [] 9 9)) 7"
  by (simp add: RestateRuntimeUserConfirmation_def RecordRuntimeUserConfirmation_def conflict_def conflicted_rows_def Let_def
      lane_lookups advances_def default_user_state_def confirm_user_row_def)

section \<open>Recovery and staleness\<close>

text \<open>A forced resync is a way out of a conflict: the next evaluation of the same package allocates the next
  revision, reports a change and leaves the server unconfirmed and stale, so the lane delivers again; once an
  acknowledgement of that revision arrives, the server is confirmed.\<close>

theorem users_resync_redelivers:
  assumes "0 < i" and "TrimSpace digest \<noteq> []" and "\<forall>k. 0 \<le> fst (desired_of rows k)"
    and "rows1 = snd (ForceRuntimeUsersResync rows i ts)"
    and "recordRuntimeUserDesiredAt rows1 i digest routingRevision now clock = (r, rows2)"
    and "map_of servers i = Some agent" "agent \<noteq> []" "distinct (map fst servers)"
    and "rows3 = snd (RecordRuntimeUserConfirmation rows2 i (fst (desired_of rows i) + 1) d b ts')"
  shows "\<exists>e. r = Inr e \<and> ue_Changed e \<and> us_DesiredRevision (ue_State e) = fst (desired_of rows i) + 1 \<and>
    \<not> User_Confirmed (Store_RuntimeUserState rows2 i) \<and> i \<in> set (StaleRuntimeUserServerIDs rows2 servers routingRevision) \<and>
    User_Confirmed (Store_RuntimeUserState rows3 i)"
proof -
  let ?n = "fst (desired_of rows i)"
  obtain s1 where s1: "map_of rows1 i = Some s1" "us_DesiredRevision s1 = ?n" "us_DesiredDigest s1 = []" "us_ConfirmedRevision s1 = 0"
    using assms(1) by (auto simp: assms(4) ForceRuntimeUsersResync_def lane_lookups desired_of_def default_user_state_def split: option.split)
  have e: "r = Inr (projr r)" "ue_Changed (projr r)" "us_DesiredRevision (ue_State (projr r)) = ?n + 1"
    and s2: "\<exists>s2. map_of rows2 i = Some s2 \<and> us_DesiredRevision s2 = ?n + 1 \<and> us_ConfirmedRevision s2 = 0"
    using assms(1,2,5) s1 by (auto simp: recordRuntimeUserDesiredAt_def Let_def lane_lookups)
  then obtain s2 where s2: "map_of rows2 i = Some s2" "us_DesiredRevision s2 = ?n + 1" "us_ConfirmedRevision s2 = 0" by auto
  have n: "0 \<le> ?n" using assms(3) by simp
  have "\<not> User_Confirmed (Store_RuntimeUserState rows2 i)" using s2 n by (simp add: User_Confirmed_def Store_RuntimeUserState_def)
  moreover have "i \<in> set (StaleRuntimeUserServerIDs rows2 servers routingRevision)"
    using s2 n assms(7) map_of_mem [OF assms(6)] by (force simp: StaleRuntimeUserServerIDs_def)
  moreover have "User_Confirmed (Store_RuntimeUserState rows3 i)"
    using s2 n assms(1) by (simp add: assms(9) RecordRuntimeUserConfirmation_def Let_def lane_lookups advances_def
        User_Confirmed_def Store_RuntimeUserState_def confirm_user_row_def)
  ultimately show ?thesis using e by blast
qed

theorem users_resync_redelivers_witness:
  "us_DesiredRevision (Store_RuntimeUserState (snd (recordRuntimeUserDesiredAt (snd (ForceRuntimeUsersResync conflicted_rows 7 9)) 7 ''d'' 3 10 0)) 7) = 5 \<and>
   7 \<in> set (StaleRuntimeUserServerIDs (snd (recordRuntimeUserDesiredAt (snd (ForceRuntimeUsersResync conflicted_rows 7 9)) 7 ''d'' 3 10 0)) [(7, ''agent'')] 3)"
proof -
  have "\<forall>k. 0 \<le> fst (desired_of conflicted_rows k)" by (simp add: desired_of_def conflicted_rows_def default_user_state_def)
  moreover have "fst (desired_of conflicted_rows 7) = 4" by (simp add: desired_of_def conflicted_rows_def)
  ultimately show ?thesis
    using users_resync_redelivers [where i = 7 and digest = "''d''" and rows = conflicted_rows and ts = 9 and routingRevision = 3
        and now = 10 and clock = 0 and servers = "[(7, ''agent'')]" and agent = "''agent''", OF _ _ _ refl surjective_pairing]
    by (auto simp: TrimSpace_d recordRuntimeUserDesiredAt_def ForceRuntimeUsersResync_def Let_def lane_lookups conflicted_rows_def
        default_user_state_def Store_RuntimeUserState_def)
qed

text \<open>The stale query is exact: it lists, in ascending order, exactly the enrolled servers that have no row,
  were last evaluated before the routing revision or have not confirmed their desired revision. A server is
  off the list exactly when its row is evaluated at the routing revision and confirmed.\<close>

theorem stale_users_exact:
  assumes "gomap_ok servers"
  shows "sorted (StaleRuntimeUserServerIDs rows servers routingRevision) \<and> distinct (StaleRuntimeUserServerIDs rows servers routingRevision) \<and>
    (i \<in> set (StaleRuntimeUserServerIDs rows servers routingRevision) \<longleftrightarrow>
       (\<exists>agent. map_of servers i = Some agent \<and> agent \<noteq> []) \<and>
       \<not> (\<exists>s. map_of rows i = Some s \<and> routingRevision \<le> us_EvaluatedRoutingRevision s \<and> us_DesiredRevision s \<le> us_ConfirmedRevision s))"
proof -
  have "distinct (map fst (filter P servers))" for P using assms by simp
  moreover have "i \<in> fst ` set (filter (\<lambda>(i, agent). P i agent) servers) \<longleftrightarrow> (\<exists>agent. map_of servers i = Some agent \<and> P i agent)" for P
    using assms by (force simp: image_iff)
  ultimately show ?thesis
    by (auto simp: StaleRuntimeUserServerIDs_def distinct_sort simp del: map_of_eq_Some_iff split: option.splits)
qed

theorem stale_users_exact_witness:
  "7 \<in> set (StaleRuntimeUserServerIDs conflicted_rows [(7, ''agent''), (8, [])] 0)"
  using stale_users_exact [of "[(7, ''agent''), (8, [])]" conflicted_rows 0 7]
  by (simp add: conflicted_rows_def default_user_state_def)

end
