(* ===== verification/Config_Sync.thy ===== *)
theory Config_Sync
  imports Oboard_Prelude
begin

text \<open>
  The configuration sync of the store: the state machine per server (\<open>configuration_sync.go\<close>), the durable
  intents that hand a committed change to it (\<open>configuration_sync_intents.go\<close>), the delivery policy flags
  whose application it tracks (\<open>delivery_flags.go\<close>) and the validation of the problems it records
  (\<open>model/configuration_sync.go\<close>).

  The state is the rows of the tables that the statements read or write. Every operation is one transaction,
  so it is a function of that state; an error rolls it back. The stored problems are the list that the JSON
  text encodes. Clock readings are arguments, as a time where the code adds a delay or compares, as text
  where only the order of the text matters. Not modelled: failures of the database driver, and the evidence
  tables of operations, which triggers and \<open>bindConfigurationOperations\<close> maintain next to these tables; the
  errors with which that binding rolls back a transaction are modelled.
\<close>

section \<open>Problems\<close>

record ConfigurationSyncResource =
  cr_Type :: string
  cr_ID :: string

record ConfigurationSyncProblem =
  cp_Code :: string
  cp_Category :: string
  cp_Resources :: "ConfigurationSyncResource list"
  cp_RetryPolicy :: string
  cp_Message :: string

definition problem_valid :: "ConfigurationSyncProblem \<Rightarrow> bool" where
  "problem_valid p \<longleftrightarrow>
     \<not> (cp_Code p = [] \<or> length (cp_Code p) > 96 \<or> length (cp_Category p) > 32 \<or> length (cp_RetryPolicy p) > 32 \<or>
        length (cp_Message p) > 2000 \<or> length (cp_Resources p) > 16)"

definition resource_valid :: "ConfigurationSyncResource \<Rightarrow> bool" where
  "resource_valid r \<longleftrightarrow> \<not> (cr_Type r = [] \<or> cr_ID r = [] \<or> length (cr_Type r) > 64 \<or> length (cr_ID r) > 128)"

fun check_problems :: "ConfigurationSyncProblem list \<Rightarrow> unit result" where
  "check_problems [] = Inr ()"
| "check_problems (p # ps) =
     (if \<not> problem_valid p then Inl ''invalid configuration sync problem''
      else if list_ex (\<lambda>r. \<not> resource_valid r) (cp_Resources p) then Inl ''invalid configuration sync resource''
      else check_problems ps)"

definition EncodeConfigurationSyncProblems :: "ConfigurationSyncProblem list \<Rightarrow> ConfigurationSyncProblem list result" where
  "EncodeConfigurationSyncProblems problems =
     (if length problems > 16 then Inl ''too many configuration sync problems''
      else (case check_problems problems of Inl e \<Rightarrow> Inl e | Inr _ \<Rightarrow> Inr problems))"

section \<open>The tables\<close>

abbreviation ConfigurationSyncTriggerRevision :: string where "ConfigurationSyncTriggerRevision \<equiv> ''revision''"
abbreviation ConfigurationSyncTriggerOperatorRetry :: string where "ConfigurationSyncTriggerOperatorRetry \<equiv> ''operator_retry''"
abbreviation ConfigurationSyncTriggerAgentDrift :: string where "ConfigurationSyncTriggerAgentDrift \<equiv> ''agent_drift''"
abbreviation ConfigurationSyncTriggerSuperseded :: string where "ConfigurationSyncTriggerSuperseded \<equiv> ''superseded''"

definition ConfigurationSyncMaxPreparationRetries :: nat where "ConfigurationSyncMaxPreparationRetries = 6"
definition ConfigurationSyncStateBatchSize :: nat where "ConfigurationSyncStateBatchSize = 64"
definition configurationSyncIntentBatchSize :: nat where "configurationSyncIntentBatchSize = 64"
definition configurationSyncTargetBatchSize :: nat where "configurationSyncTargetBatchSize = 128"

record ConfigurationSyncState =
  cf_ServerID :: int
  cf_WantedRevision :: nat
  cf_WantedDigest :: string
  cf_State :: string
  cf_LastConfigVersion :: int
  cf_LastTaskID :: int
  cf_RetryCount :: nat
  cf_NextRetryAt :: "time option"
  cf_LastError :: string
  cf_Problems :: "ConfigurationSyncProblem list"
  cf_TriggerReason :: string
  cf_SyncStrategy :: string
  cf_ChangedAt :: time
  cf_UpdatedAt :: time

text \<open>An intent row; its key is the source, the scope and the server.\<close>

record ConfigurationSyncIntent =
  ci_Source :: string
  ci_Scope :: string
  ci_ServerID :: int
  ci_Revision :: nat
  ci_TargetCount :: nat
  ci_processingRevision :: nat
  ci_lastServerID :: int
  ci_firstChangedAt :: string

record ServerDeliveryFlags =
  df_ServerID :: int
  df_AuthorizationFastLane :: bool
  df_RuntimeUsersEnabled :: bool
  df_Revision :: nat
  df_AppliedRevision :: nat
  df_ProcessingRevision :: nat
  df_ProcessingConfigVersion :: int

text \<open>The columns of \<open>agent_tasks\<close> that the statements read; \<open>at_ForceRefresh\<close> is the flag of the payload.\<close>

record agent_task =
  at_ID :: int
  at_ServerID :: int
  at_Type :: string
  at_ConfigVersion :: int
  at_Status :: string
  at_Payload :: string
  at_ForceRefresh :: bool

record sync_db =
  sd_states :: "(int, ConfigurationSyncState) gomap"
  sd_intents :: "(string \<times> string \<times> int, ConfigurationSyncIntent) gomap"
  sd_flags :: "(int, ServerDeliveryFlags) gomap"
  sd_servers :: "(int, string) gomap"
  sd_tasks :: "agent_task list"
  sd_revision :: nat

definition update_states :: "(int \<Rightarrow> ConfigurationSyncState \<Rightarrow> bool) \<Rightarrow> (ConfigurationSyncState \<Rightarrow> ConfigurationSyncState) \<Rightarrow> sync_db \<Rightarrow> sync_db" where
  "update_states P f db = db\<lparr>sd_states := sql_update P f (sd_states db)\<rparr>"

section \<open>Marking work\<close>

definition routing_digest :: "nat \<Rightarrow> string" where
  "routing_digest revision = ''routing:'' @ format_nat revision"

definition pending_row :: "int \<Rightarrow> nat \<Rightarrow> time \<Rightarrow> ConfigurationSyncState" where
  "pending_row serverID revision stamp =
     \<lparr>cf_ServerID = serverID, cf_WantedRevision = revision, cf_WantedDigest = routing_digest revision, cf_State = ''pending'',
      cf_LastConfigVersion = 0, cf_LastTaskID = 0, cf_RetryCount = 0, cf_NextRetryAt = None, cf_LastError = [],
      cf_Problems = [], cf_TriggerReason = ConfigurationSyncTriggerRevision, cf_SyncStrategy = [],
      cf_ChangedAt = stamp, cf_UpdatedAt = stamp\<rparr>"

text \<open>The upsert: a known server is reopened only by a newer revision.\<close>

definition configurationSyncPendingSQL :: "int \<Rightarrow> nat \<Rightarrow> time \<Rightarrow> sync_db \<Rightarrow> sync_db" where
  "configurationSyncPendingSQL serverID revision stamp db =
     (case map_of (sd_states db) serverID of
        None \<Rightarrow> db\<lparr>sd_states := AList.update serverID (pending_row serverID revision stamp) (sd_states db)\<rparr>
      | Some s \<Rightarrow>
          if revision > cf_WantedRevision s
          then db\<lparr>sd_states := AList.update serverID
                 (s\<lparr>cf_WantedRevision := revision, cf_WantedDigest := routing_digest revision, cf_State := ''pending'',
                    cf_RetryCount := 0, cf_NextRetryAt := None, cf_LastError := [], cf_Problems := [],
                    cf_TriggerReason := ConfigurationSyncTriggerRevision, cf_SyncStrategy := [],
                    cf_ChangedAt := stamp, cf_UpdatedAt := stamp\<rparr>) (sd_states db)\<rparr>
          else db)"

definition markConfigurationSyncPendingTx :: "int \<Rightarrow> nat \<Rightarrow> time \<Rightarrow> sync_db \<Rightarrow> sync_db" where
  "markConfigurationSyncPendingTx serverID revision stamp db = configurationSyncPendingSQL serverID revision stamp db"

definition enrolled :: "sync_db \<Rightarrow> int list" where
  "enrolled db = sort (map fst (filter (\<lambda>(i, agent). agent \<noteq> []) (sd_servers db)))"

text \<open>The result lists the marked servers once each, in the order in which the run time enumerates a map.\<close>

definition MarkConfigurationSyncPending :: "sync_db \<Rightarrow> nat \<Rightarrow> int list \<Rightarrow> time \<Rightarrow> int list result \<times> sync_db" where
  "MarkConfigurationSyncPending db revision serverIDs stamp =
     (if revision = 0 then (Inl ''configuration revision must be positive'', db)
      else
        (let serverIDs = (if serverIDs = [] then enrolled db else serverIDs);
             ids = filter (\<lambda>i. \<not> i \<le> 0) serverIDs
         in if serverIDs = [] then (Inr [], db)
            else (Inr (remdups ids), fold (\<lambda>i. markConfigurationSyncPendingTx i revision stamp) ids db)))"

definition EnsureConfigurationSyncRevision :: "sync_db \<Rightarrow> int \<Rightarrow> nat \<Rightarrow> time \<Rightarrow> bool result \<times> sync_db" where
  "EnsureConfigurationSyncRevision db serverID revision stamp =
     (if serverID \<le> 0 \<or> revision = 0 then (Inl ''server id and configuration revision must be positive'', db)
      else
        (case map_of (sd_states db) serverID of
           None \<Rightarrow> (Inr True, db\<lparr>sd_states := AList.update serverID (pending_row serverID revision stamp) (sd_states db)\<rparr>)
         | Some s \<Rightarrow>
             if cf_WantedRevision s < revision
             then (Inr True, db\<lparr>sd_states := AList.update serverID
                 (s\<lparr>cf_WantedRevision := revision, cf_WantedDigest := routing_digest revision, cf_State := ''pending'',
                    cf_RetryCount := 0, cf_NextRetryAt := None, cf_LastError := [], cf_Problems := [],
                    cf_TriggerReason := ConfigurationSyncTriggerRevision, cf_ChangedAt := stamp, cf_UpdatedAt := stamp\<rparr>)
                 (sd_states db)\<rparr>)
             else (Inr False, db)))"

definition drift_opens :: "int \<Rightarrow> int \<Rightarrow> ConfigurationSyncState \<Rightarrow> bool" where
  "drift_opens serverID k s \<longleftrightarrow>
     k = serverID \<and> cf_State s \<notin> {''failed'', ''preparing'', ''queued'', ''running''} \<and>
     \<not> (cf_State s = ''pending'' \<and> cf_TriggerReason s = ConfigurationSyncTriggerAgentDrift)"

definition MarkConfigurationSyncDrift :: "sync_db \<Rightarrow> int \<Rightarrow> nat \<Rightarrow> time \<Rightarrow> bool result \<times> sync_db" where
  "MarkConfigurationSyncDrift db serverID revision stamp =
     (if serverID \<le> 0 \<or> revision = 0 then (Inl ''server id and configuration revision must be positive'', db)
      else
        (Inr (sql_affected (drift_opens serverID) (sd_states db) > 0),
         update_states (drift_opens serverID) (\<lambda>s.
           s\<lparr>cf_WantedRevision := (if revision > cf_WantedRevision s then revision else cf_WantedRevision s),
             cf_WantedDigest := (if revision > cf_WantedRevision s then routing_digest revision else cf_WantedDigest s),
             cf_State := ''pending'', cf_TriggerReason := ConfigurationSyncTriggerAgentDrift, cf_NextRetryAt := None,
             cf_LastError := [], cf_Problems := [], cf_ChangedAt := stamp, cf_UpdatedAt := stamp\<rparr>) db))"

definition claimed_at :: "int \<Rightarrow> nat \<Rightarrow> int \<Rightarrow> ConfigurationSyncState \<Rightarrow> bool" where
  "claimed_at serverID revision k s \<longleftrightarrow> k = serverID \<and> cf_WantedRevision s = revision \<and> cf_State s = ''preparing''"

definition MarkConfigurationSyncWaiting ::
  "sync_db \<Rightarrow> int \<Rightarrow> nat \<Rightarrow> time \<Rightarrow> string \<Rightarrow> ConfigurationSyncProblem list \<Rightarrow> time \<Rightarrow> unit result \<times> sync_db" where
  "MarkConfigurationSyncWaiting db serverID revision retryAt reason problems stamp =
     (case EncodeConfigurationSyncProblems problems of
        Inl e \<Rightarrow> (Inl e, db)
      | Inr encoded \<Rightarrow>
          (let reason = (case problems of [] \<Rightarrow> reason | p # _ \<Rightarrow> cp_Message p);
               reason = (if length reason > 2000 then take 2000 reason else reason)
           in (Inr (), update_states (claimed_at serverID revision) (\<lambda>s.
                s\<lparr>cf_State := ''pending'', cf_NextRetryAt := Some retryAt, cf_LastError := TrimSpace reason,
                  cf_Problems := encoded, cf_UpdatedAt := stamp\<rparr>) db)))"

section \<open>The reconcile pass\<close>

definition due :: "time \<Rightarrow> ConfigurationSyncState \<Rightarrow> bool" where
  "due now s \<longleftrightarrow> (case cf_NextRetryAt s of None \<Rightarrow> True | Some t \<Rightarrow> \<not> sql_time_less now t)"

definition reconcilable :: "time \<Rightarrow> ConfigurationSyncState \<Rightarrow> bool" where
  "reconcilable now s \<longleftrightarrow>
     cf_State s = ''pending'' \<and> due now s \<or>
     cf_State s = ''failed'' \<and> cf_LastConfigVersion s = 0 \<and> cf_RetryCount s < ConfigurationSyncMaxPreparationRetries \<and> due now s"

definition ListConfigurationSyncStates :: "sync_db \<Rightarrow> time \<Rightarrow> ConfigurationSyncState list" where
  "ListConfigurationSyncStates db now =
     map snd (take ConfigurationSyncStateBatchSize
       (sort_key (\<lambda>(k, s). (cf_WantedRevision s, k)) (filter (\<lambda>(k, s). reconcilable now s) (sd_states db))))"

definition MarkConfigurationSyncNoop :: "sync_db \<Rightarrow> int \<Rightarrow> nat \<Rightarrow> string \<Rightarrow> time \<Rightarrow> unit result \<times> sync_db" where
  "MarkConfigurationSyncNoop db serverID revision digest stamp =
     (if serverID \<le> 0 \<or> revision = 0 then (Inl ''server id and configuration revision must be positive'', db)
      else (Inr (), update_states (\<lambda>k s. k = serverID \<and> cf_WantedRevision s = revision) (\<lambda>s.
        s\<lparr>cf_State := ''synced'', cf_WantedDigest := TrimSpace digest, cf_SyncStrategy := ''semantic_noop'', cf_LastError := [],
          cf_Problems := [], cf_NextRetryAt := None, cf_UpdatedAt := stamp\<rparr>) db))"

definition UpdateConfigurationSyncWantedDigest :: "sync_db \<Rightarrow> int \<Rightarrow> string \<Rightarrow> time \<Rightarrow> unit result \<times> sync_db" where
  "UpdateConfigurationSyncWantedDigest db serverID digest stamp =
     (if serverID \<le> 0 then (Inl ''server id must be positive'', db)
      else (Inr (), update_states (\<lambda>k s. k = serverID \<and> cf_State s = ''synced'')
        (\<lambda>s. s\<lparr>cf_WantedDigest := TrimSpace digest, cf_UpdatedAt := stamp\<rparr>) db))"

text \<open>A deployment task of the row's version with one of the given statuses.\<close>

definition has_task :: "sync_db \<Rightarrow> string list \<Rightarrow> int \<Rightarrow> ConfigurationSyncState \<Rightarrow> bool" where
  "has_task db statuses k s \<longleftrightarrow>
     list_ex (\<lambda>t. at_ServerID t = k \<and> at_Type t \<in> {''apply_deployment'', ''apply_core_config''} \<and>
        at_ConfigVersion t = cf_LastConfigVersion s \<and> at_Status t \<in> set statuses) (sd_tasks db)"

definition RecoverConfigurationSyncStates :: "sync_db \<Rightarrow> time \<Rightarrow> sync_db" where
  "RecoverConfigurationSyncStates db stamp =
     (let db = update_states (\<lambda>k s. cf_State s \<in> {''preparing'', ''queued''} \<and> cf_LastConfigVersion s > 0 \<and>
                 has_task db [''failed''] k s \<and> \<not> has_task db [''pending'', ''running''] k s)
               (\<lambda>s. s\<lparr>cf_State := ''failed'', cf_NextRetryAt := None, cf_UpdatedAt := stamp\<rparr>) db;
          db = update_states (\<lambda>k s. cf_State s \<in> {''preparing'', ''queued''} \<and> \<not> has_task db [''pending'', ''running'', ''failed''] k s)
               (\<lambda>s. s\<lparr>cf_State := ''pending'', cf_NextRetryAt := None, cf_LastError := [], cf_Problems := [], cf_UpdatedAt := stamp\<rparr>) db
      in update_states (\<lambda>k s. cf_State s = ''failed'' \<and> cf_LastConfigVersion s = 0 \<and>
             (Contains (cf_LastError s) ''SQLITE_BUSY'' \<or> Contains (cf_LastError s) ''database is locked''))
           (\<lambda>s. s\<lparr>cf_State := ''pending'', cf_RetryCount := 0, cf_NextRetryAt := None, cf_LastError := [], cf_Problems := [],
                  cf_UpdatedAt := stamp\<rparr>) db)"

definition ClaimConfigurationSync :: "sync_db \<Rightarrow> int \<Rightarrow> nat \<Rightarrow> time \<Rightarrow> bool \<times> sync_db" where
  "ClaimConfigurationSync db serverID revision stamp =
     (let claimable = (\<lambda>k s. k = serverID \<and> cf_WantedRevision s = revision \<and> cf_State s \<in> {''pending'', ''failed''})
      in (sql_affected claimable (sd_states db) = 1,
          update_states claimable (\<lambda>s. s\<lparr>cf_State := ''preparing'', cf_UpdatedAt := stamp\<rparr>) db))"

definition retry_backoff :: "nat \<Rightarrow> duration" where
  "retry_backoff retryCount =
     (let backoff = second * 2 ^ min (retryCount - 1) 5
      in if backoff > 30 * second then 30 * second else backoff)"

definition manual_problem :: "ConfigurationSyncProblem \<Rightarrow> ConfigurationSyncProblem" where
  "manual_problem p = (if cp_RetryPolicy p = ''automatic'' then p\<lparr>cp_RetryPolicy := ''manual''\<rparr> else p)"

definition MarkConfigurationSyncPreparationFailure ::
  "sync_db \<Rightarrow> int \<Rightarrow> nat \<Rightarrow> string \<Rightarrow> ConfigurationSyncProblem list \<Rightarrow> time \<Rightarrow> unit result \<times> sync_db" where
  "MarkConfigurationSyncPreparationFailure db serverID revision resultError problems now =
     (case EncodeConfigurationSyncProblems problems of
        Inl e \<Rightarrow> (Inl e, db)
      | Inr encoded \<Rightarrow>
          (let resultError = (case problems of [] \<Rightarrow> resultError | p # _ \<Rightarrow> cp_Message p) in
           case map_of (sd_states db) serverID of
             None \<Rightarrow> (Inr (), db)
           | Some row \<Rightarrow>
               if cf_WantedRevision row \<noteq> revision then (Inr (), db)
               else
                 (let retryCount = cf_RetryCount row + 1;
                      backoff = retry_backoff retryCount;
                      resultError = (if length resultError > 2000 then take 2000 resultError else resultError)
                  in case EncodeConfigurationSyncProblems (map manual_problem problems) of
                       Inl e \<Rightarrow> (Inl e, db)
                     | Inr manualEncoded \<Rightarrow>
                         (Inr (), update_states (claimed_at serverID revision) (\<lambda>s.
                            s\<lparr>cf_State := ''failed'', cf_RetryCount := retryCount, cf_NextRetryAt := Some (now + backoff),
                              cf_LastError := TrimSpace resultError,
                              cf_Problems := (if cf_LastConfigVersion s > 0 \<or> retryCount \<ge> ConfigurationSyncMaxPreparationRetries
                                              then manualEncoded else encoded),
                              cf_UpdatedAt := now\<rparr>) db))))"

section \<open>Tasks and results\<close>

text \<open>The errors with which the binding of operation evidence rolls back a queued deployment.\<close>

definition copies_failed_deployment :: "sync_db \<Rightarrow> int \<Rightarrow> int \<Rightarrow> int \<Rightarrow> int \<Rightarrow> bool" where
  "copies_failed_deployment db serverID version taskID previousTaskID \<longleftrightarrow>
     list_ex (\<lambda>old. list_ex (\<lambda>next.
        at_ServerID next = at_ServerID old \<and> at_ID old = previousTaskID \<and> at_ID next = taskID \<and> at_ServerID old = serverID \<and>
        at_Type old = ''apply_deployment'' \<and> at_Type next = at_Type old \<and> at_Status old \<in> {''failed'', ''rollback_failed''} \<and>
        at_Payload old = at_Payload next \<and> at_ConfigVersion next = version) (sd_tasks db)) (sd_tasks db)"

definition bind_error :: "sync_db \<Rightarrow> int \<Rightarrow> nat \<Rightarrow> int \<Rightarrow> int \<Rightarrow> bool \<Rightarrow> int \<Rightarrow> string option" where
  "bind_error db serverID revision version taskID fresh previousTaskID =
     (if \<not> fresh \<and> previousTaskID \<le> 0 then None
      else if sd_revision db \<noteq> revision then
        (if \<not> fresh then Some ''configuration changed while binding retry evidence'' else None)
      else if map_of (sd_servers db) serverID = None then Some ''sql: no rows in result set''
      else if \<not> fresh \<and> \<not> copies_failed_deployment db serverID version taskID previousTaskID
      then Some ''configuration retry must copy the failed source deployment''
      else None)"

definition capture_policy :: "int \<Rightarrow> nat \<Rightarrow> int \<Rightarrow> int \<Rightarrow> sync_db \<Rightarrow> sync_db" where
  "capture_policy serverID revision configVersion taskID db =
     db\<lparr>sd_flags := sql_update (\<lambda>k f. k = serverID \<and> df_Revision f \<le> revision \<and> df_Revision f > df_AppliedRevision f \<and>
          list_ex (\<lambda>t. at_ID t = taskID \<and> at_ServerID t = serverID \<and> at_ConfigVersion t = configVersion \<and>
             at_Type t = ''apply_deployment'' \<and> at_ForceRefresh t) (sd_tasks db))
        (\<lambda>f. f\<lparr>df_ProcessingRevision := df_Revision f, df_ProcessingConfigVersion := configVersion\<rparr>) (sd_flags db)\<rparr>"

definition markConfigurationSyncQueued ::
  "sync_db \<Rightarrow> int \<Rightarrow> nat \<Rightarrow> int \<Rightarrow> int \<Rightarrow> string \<Rightarrow> bool \<Rightarrow> int \<Rightarrow> time \<Rightarrow> unit result \<times> sync_db" where
  "markConfigurationSyncQueued db serverID revision configVersion taskID payloadDigest prepared previousTaskID stamp =
     (let cond = (\<lambda>k s. k = serverID \<and> cf_WantedRevision s = revision \<and>
                    (\<not> (prepared \<or> previousTaskID > 0) \<or> cf_State s = ''preparing''));
          count = sql_affected cond (sd_states db);
          tx = update_states cond (\<lambda>s.
                 s\<lparr>cf_State := ''queued'', cf_SyncStrategy := ''task'', cf_WantedDigest := TrimSpace payloadDigest,
                   cf_LastConfigVersion := configVersion, cf_LastTaskID := taskID, cf_NextRetryAt := None, cf_LastError := [],
                   cf_Problems := [], cf_UpdatedAt := stamp\<rparr>) db
      in case (if count = 1 then bind_error tx serverID revision configVersion taskID prepared previousTaskID else None) of
           Some e \<Rightarrow> (Inl e, db)
         | None \<Rightarrow> (Inr (), if prepared \<and> count = 1 then capture_policy serverID revision configVersion taskID tx else tx))"

definition MarkConfigurationSyncQueued :: "sync_db \<Rightarrow> int \<Rightarrow> nat \<Rightarrow> int \<Rightarrow> int \<Rightarrow> string \<Rightarrow> time \<Rightarrow> unit result \<times> sync_db" where
  "MarkConfigurationSyncQueued db serverID revision configVersion taskID payloadDigest stamp =
     markConfigurationSyncQueued db serverID revision configVersion taskID payloadDigest False 0 stamp"

definition MarkConfigurationSyncDeploymentQueued :: "sync_db \<Rightarrow> int \<Rightarrow> nat \<Rightarrow> int \<Rightarrow> int \<Rightarrow> string \<Rightarrow> time \<Rightarrow> unit result \<times> sync_db" where
  "MarkConfigurationSyncDeploymentQueued db serverID revision configVersion taskID payloadDigest stamp =
     markConfigurationSyncQueued db serverID revision configVersion taskID payloadDigest True 0 stamp"

definition MarkConfigurationSyncRetryQueued :: "sync_db \<Rightarrow> int \<Rightarrow> nat \<Rightarrow> int \<Rightarrow> int \<Rightarrow> int \<Rightarrow> string \<Rightarrow> time \<Rightarrow> unit result \<times> sync_db" where
  "MarkConfigurationSyncRetryQueued db serverID revision configVersion taskID previousTaskID payloadDigest stamp =
     markConfigurationSyncQueued db serverID revision configVersion taskID payloadDigest False previousTaskID stamp"

definition MarkConfigurationSyncUnchangedFailure :: "sync_db \<Rightarrow> int \<Rightarrow> nat \<Rightarrow> string \<Rightarrow> time \<Rightarrow> sync_db" where
  "MarkConfigurationSyncUnchangedFailure db serverID revision resultError stamp =
     (let resultError = (if length resultError > 2000 then take 2000 resultError else resultError);
          resultError = TrimSpace resultError
      in update_states (claimed_at serverID revision) (\<lambda>s.
           s\<lparr>cf_State := ''failed'', cf_NextRetryAt := None,
             cf_Problems := (if resultError = [] \<or> resultError = cf_LastError s then cf_Problems s else []),
             cf_LastError := (if resultError = [] then cf_LastError s else resultError), cf_UpdatedAt := stamp\<rparr>) db)"

definition in_flight :: "int \<Rightarrow> int \<Rightarrow> int \<Rightarrow> ConfigurationSyncState \<Rightarrow> bool" where
  "in_flight serverID configVersion k s \<longleftrightarrow>
     k = serverID \<and> cf_LastConfigVersion s = configVersion \<and> cf_State s \<in> {''queued'', ''running''}"

definition policy_outstanding :: "sync_db \<Rightarrow> int \<Rightarrow> bool" where
  "policy_outstanding db k \<longleftrightarrow> list_ex (\<lambda>(i, f). i = k \<and> df_Revision f > df_AppliedRevision f) (sd_flags db)"

definition MarkConfigurationSyncResult :: "sync_db \<Rightarrow> int \<Rightarrow> int \<Rightarrow> bool \<Rightarrow> string \<Rightarrow> time \<Rightarrow> sync_db" where
  "MarkConfigurationSyncResult db serverID configVersion succeeded resultError now =
     (if succeeded then
        (let db = db\<lparr>sd_flags := sql_update (\<lambda>k f. k = serverID \<and> df_ProcessingConfigVersion f = configVersion \<and>
                     list_ex (\<lambda>(i, s). in_flight serverID configVersion i s \<and> cf_WantedRevision s \<ge> df_ProcessingRevision f) (sd_states db))
                   (\<lambda>f. f\<lparr>df_AppliedRevision := max (df_AppliedRevision f) (df_ProcessingRevision f)\<rparr>) (sd_flags db)\<rparr>
         in update_states (in_flight serverID configVersion) (\<lambda>s.
              s\<lparr>cf_State := (if policy_outstanding db serverID then ''pending'' else ''synced''), cf_LastError := [], cf_Problems := [],
                cf_NextRetryAt := None, cf_UpdatedAt := now\<rparr>) db)
      else
        (case map_of (sd_states db) serverID of
           None \<Rightarrow> db
         | Some row \<Rightarrow>
             if \<not> in_flight serverID configVersion serverID row then db
             else
               (let retryCount = cf_RetryCount row + 1;
                    backoff = retry_backoff retryCount;
                    resultError = (if length resultError > 2000 then take 2000 resultError else resultError)
                in update_states (in_flight serverID configVersion) (\<lambda>s.
                     s\<lparr>cf_State := ''failed'', cf_RetryCount := retryCount, cf_NextRetryAt := Some (now + backoff),
                       cf_LastError := TrimSpace resultError, cf_Problems := [], cf_UpdatedAt := now\<rparr>) db)))"

definition MarkConfigurationSyncSuperseded :: "sync_db \<Rightarrow> int \<Rightarrow> int \<Rightarrow> time \<Rightarrow> sync_db" where
  "MarkConfigurationSyncSuperseded db serverID configVersion stamp =
     (if serverID \<le> 0 \<or> configVersion \<le> 0 then db
      else update_states (in_flight serverID configVersion) (\<lambda>s.
        s\<lparr>cf_State := ''pending'', cf_TriggerReason := ConfigurationSyncTriggerSuperseded, cf_RetryCount := 0,
          cf_NextRetryAt := None, cf_LastError := [], cf_Problems := [], cf_UpdatedAt := stamp\<rparr>) db)"

definition RetryFailedConfigurationSync :: "sync_db \<Rightarrow> int list \<Rightarrow> time \<Rightarrow> nat \<times> sync_db" where
  "RetryFailedConfigurationSync db serverIDs stamp =
     (let ids = filter (\<lambda>i. \<not> i \<le> 0) serverIDs;
          cond = (\<lambda>k s. cf_State s = ''failed'' \<and> (serverIDs = [] \<or> k \<in> set ids))
      in if serverIDs \<noteq> [] \<and> ids = [] then (0, db)
         else (sql_affected cond (sd_states db),
               update_states cond (\<lambda>s.
                 s\<lparr>cf_State := ''pending'', cf_RetryCount := 0, cf_NextRetryAt := None, cf_LastError := [], cf_Problems := [],
                   cf_TriggerReason := ConfigurationSyncTriggerOperatorRetry, cf_UpdatedAt := stamp\<rparr>) db))"

definition ListAllConfigurationSyncStates :: "sync_db \<Rightarrow> ConfigurationSyncState list" where
  "ListAllConfigurationSyncStates db = map snd (sort_key fst (sd_states db))"

definition Store_ConfigurationSyncState :: "sync_db \<Rightarrow> int \<Rightarrow> ConfigurationSyncState result" where
  "Store_ConfigurationSyncState db serverID =
     (case map_of (sd_states db) serverID of None \<Rightarrow> Inl ''sql: no rows in result set'' | Some s \<Rightarrow> Inr s)"

section \<open>Intents\<close>

text \<open>
  The insert of an intent: a new row starts at the beginning of the fleet, a known one takes the newer
  revision and keeps its position.
\<close>

definition upsert_intent :: "string \<Rightarrow> string \<Rightarrow> int \<Rightarrow> nat \<Rightarrow> string \<Rightarrow> sync_db \<Rightarrow> sync_db" where
  "upsert_intent source scope serverID revision stamp db =
     db\<lparr>sd_intents := AList.update (source, scope, serverID)
       (case map_of (sd_intents db) (source, scope, serverID) of
          None \<Rightarrow> \<lparr>ci_Source = source, ci_Scope = scope, ci_ServerID = serverID, ci_Revision = revision, ci_TargetCount = 0,
                   ci_processingRevision = 0, ci_lastServerID = 0, ci_firstChangedAt = stamp\<rparr>
        | Some t \<Rightarrow> t\<lparr>ci_Revision := revision\<rparr>) (sd_intents db)\<rparr>"

text \<open>
  What the trigger of a changed table does in the same transaction as the change: it advances the revision
  and records an intent per affected server, or one for the whole fleet when the table has no mapping to
  servers (\<open>None\<close>). The servers are those the trigger's query selects.
\<close>

definition configuration_change :: "string \<Rightarrow> int list option \<Rightarrow> string \<Rightarrow> sync_db \<Rightarrow> sync_db" where
  "configuration_change source targets stamp db =
     (let db = db\<lparr>sd_revision := sd_revision db + 1\<rparr>
      in case targets of
           Some ids \<Rightarrow> fold (\<lambda>i. upsert_intent source ''explicit_ids'' i (sd_revision db) stamp) (filter (\<lambda>i. i > 0) ids) db
         | None \<Rightarrow> upsert_intent source ''unresolved'' 0 (sd_revision db) stamp db)"

definition ConfigurationSyncSweepSource :: string where "ConfigurationSyncSweepSource = ''sweep.periodic''"

definition QueueConfigurationSyncSweep :: "sync_db \<Rightarrow> string \<Rightarrow> sync_db" where
  "QueueConfigurationSyncSweep db stamp =
     (if sd_revision db > 0 then upsert_intent ConfigurationSyncSweepSource ''unresolved'' 0 (sd_revision db) stamp db else db)"

definition sync_target :: "sync_db \<Rightarrow> int \<Rightarrow> bool" where
  "sync_target db i \<longleftrightarrow>
     (case map_of (sd_servers db) i of None \<Rightarrow> False | Some agent \<Rightarrow> agent \<noteq> [] \<or> map_of (sd_states db) i \<noteq> None)"

definition intent_targets :: "sync_db \<Rightarrow> ConfigurationSyncIntent \<Rightarrow> nat \<Rightarrow> int list" where
  "intent_targets db intent remaining =
     (if ci_Scope intent = ''explicit_ids'' then (if sync_target db (ci_ServerID intent) then [ci_ServerID intent] else [])
      else take remaining (sort (filter (\<lambda>i. i > ci_lastServerID intent \<and> sync_target db i) (map fst (sd_servers db)))))"

definition intent_key :: "ConfigurationSyncIntent \<Rightarrow> string \<times> string \<times> int" where
  "intent_key t = (ci_Source t, ci_Scope t, ci_ServerID t)"

text \<open>The body of the drain for one intent: the rows it marks and what becomes of the intent.\<close>

definition drain_intent :: "ConfigurationSyncIntent \<Rightarrow> nat \<Rightarrow> time \<Rightarrow> string \<Rightarrow> sync_db \<Rightarrow> (ConfigurationSyncIntent \<times> nat) \<times> sync_db" where
  "drain_intent intent remaining stamp stampText db =
     (let explicit = ci_Scope intent = ''explicit_ids'';
          revision = (if \<not> explicit \<and> ci_processingRevision intent \<noteq> 0 then ci_processingRevision intent else ci_Revision intent);
          ids = intent_targets db intent remaining;
          finished = (explicit \<or> length ids < remaining);
          db = fold (\<lambda>i. markConfigurationSyncPendingTx i revision stamp) ids db;
          db = db\<lparr>sd_intents :=
            (if finished \<and> revision = ci_Revision intent
             then filter (\<lambda>(k, t). \<not> (k = intent_key intent \<and> ci_Revision t = ci_Revision intent)) (sd_intents db)
             else if finished
             then sql_update (\<lambda>k t. k = intent_key intent)
                    (\<lambda>t. t\<lparr>ci_processingRevision := 0, ci_lastServerID := 0, ci_firstChangedAt := stampText\<rparr>) (sd_intents db)
             else sql_update (\<lambda>k t. k = intent_key intent)
                    (\<lambda>t. t\<lparr>ci_processingRevision := revision, ci_lastServerID := last ids, ci_firstChangedAt := stampText\<rparr>) (sd_intents db))\<rparr>
      in ((intent\<lparr>ci_Revision := revision, ci_TargetCount := length ids\<rparr>, remaining - length ids), db))"

fun drain_intents :: "ConfigurationSyncIntent list \<Rightarrow> nat \<Rightarrow> time \<Rightarrow> string \<Rightarrow> sync_db \<Rightarrow> (ConfigurationSyncIntent list \<times> sync_db) result" where
  "drain_intents [] remaining stamp stampText db = Inr ([], db)"
| "drain_intents (intent # intents) remaining stamp stampText db =
     (if remaining = 0 then Inr ([], db)
      else if ci_Scope intent \<notin> {''explicit_ids'', ''all'', ''unresolved''} then Inl ''unknown configuration intent scope''
      else
        (case drain_intent intent remaining stamp stampText db of ((processed, remaining), db) \<Rightarrow>
           (case drain_intents intents remaining stamp stampText db of
              Inl e \<Rightarrow> Inl e
            | Inr (rest, db) \<Rightarrow> Inr (processed # rest, db))))"

definition DrainConfigurationSyncIntents :: "sync_db \<Rightarrow> time \<Rightarrow> string \<Rightarrow> ConfigurationSyncIntent list result \<times> sync_db" where
  "DrainConfigurationSyncIntents db stamp stampText =
     (let intents = map snd (take configurationSyncIntentBatchSize
            (sort_key (\<lambda>(k, t). (ci_firstChangedAt t, ci_Source t, ci_ServerID t)) (sd_intents db)))
      in case drain_intents intents configurationSyncTargetBatchSize stamp stampText db of
           Inl e \<Rightarrow> (Inl e, db)
         | Inr (processed, db) \<Rightarrow> (Inr processed, db))"

section \<open>Delivery policy\<close>

definition defaultServerDeliveryFlags :: "int \<Rightarrow> ServerDeliveryFlags" where
  "defaultServerDeliveryFlags serverID =
     \<lparr>df_ServerID = serverID, df_AuthorizationFastLane = True, df_RuntimeUsersEnabled = True, df_Revision = 0,
      df_AppliedRevision = 0, df_ProcessingRevision = 0, df_ProcessingConfigVersion = 0\<rparr>"

definition updateServerDeliveryFlagsTx :: "sync_db \<Rightarrow> int \<Rightarrow> bool option \<Rightarrow> bool option \<Rightarrow> string \<Rightarrow> ServerDeliveryFlags result \<times> sync_db" where
  "updateServerDeliveryFlagsTx db serverID auth users stamp =
     (if map_of (sd_servers db) serverID = None then (Inl ''sql: no rows in result set'', db)
      else
        (let old = (case map_of (sd_flags db) serverID of Some f \<Rightarrow> f | None \<Rightarrow> defaultServerDeliveryFlags serverID);
             auth' = (case auth of Some v \<Rightarrow> v | None \<Rightarrow> df_AuthorizationFastLane old);
             users' = (case users of Some v \<Rightarrow> v | None \<Rightarrow> df_RuntimeUsersEnabled old);
             flags = (defaultServerDeliveryFlags serverID)\<lparr>df_AuthorizationFastLane := auth', df_RuntimeUsersEnabled := users'\<rparr>
         in if df_AuthorizationFastLane old = auth' \<and> df_RuntimeUsersEnabled old = users' then (Inr flags, db)
            else
              (let db = db\<lparr>sd_revision := sd_revision db + 1\<rparr>;
                   db = db\<lparr>sd_flags := AList.update serverID
                     (old\<lparr>df_AuthorizationFastLane := auth', df_RuntimeUsersEnabled := users', df_Revision := sd_revision db\<rparr>) (sd_flags db)\<rparr>
               in (Inr flags, upsert_intent ''delivery_policy'' ''explicit_ids'' serverID (sd_revision db) stamp db))))"

definition SetServerDeliveryFlags :: "sync_db \<Rightarrow> ServerDeliveryFlags \<Rightarrow> string \<Rightarrow> unit result \<times> sync_db" where
  "SetServerDeliveryFlags db flags stamp =
     (if df_ServerID flags \<le> 0 then (Inl ''server_id is required'', db)
      else (case updateServerDeliveryFlagsTx db (df_ServerID flags) (Some (df_AuthorizationFastLane flags))
                   (Some (df_RuntimeUsersEnabled flags)) stamp of
              (Inl e, _) \<Rightarrow> (Inl e, db)
            | (Inr _, db) \<Rightarrow> (Inr (), db)))"

section \<open>The store as a transition system\<close>

text \<open>
  Next to the tables the state keeps what is owed: for every committed change the servers it affects, with
  the revision it produced. A change owes its explicit targets or the whole fleet, as far as they are sync
  targets at that moment. Servers enrol at any time and the task table changes in any way from outside; a server that
  is deleted is not a step, so the histories are those of servers that stay.
\<close>

record sync_world =
  sw_db :: sync_db
  sw_owed :: "(int \<times> nat) list"

definition fleet :: "sync_db \<Rightarrow> int list" where
  "fleet db = filter (sync_target db) (map fst (sd_servers db))"

definition owes :: "sync_db \<Rightarrow> int list option \<Rightarrow> (int \<times> nat) list" where
  "owes db targets = map (\<lambda>i. (i, sd_revision db + 1))
     (case targets of Some ids \<Rightarrow> filter (sync_target db) ids | None \<Rightarrow> fleet db)"

definition policy_owes :: "sync_db \<Rightarrow> ServerDeliveryFlags \<Rightarrow> (int \<times> nat) list" where
  "policy_owes db flags =
     (let old = (case map_of (sd_flags db) (df_ServerID flags) of Some f \<Rightarrow> f | None \<Rightarrow> defaultServerDeliveryFlags (df_ServerID flags))
      in if sync_target db (df_ServerID flags) \<and>
            (df_AuthorizationFastLane old \<noteq> df_AuthorizationFastLane flags \<or> df_RuntimeUsersEnabled old \<noteq> df_RuntimeUsersEnabled flags)
         then [(df_ServerID flags, sd_revision db + 1)] else [])"

inductive row_step :: "sync_db \<Rightarrow> sync_db \<Rightarrow> bool" where
  row_mark: "row_step db (snd (MarkConfigurationSyncPending db revision ids stamp))"
| row_ensure: "row_step db (snd (EnsureConfigurationSyncRevision db i revision stamp))"
| row_drift: "row_step db (snd (MarkConfigurationSyncDrift db i revision stamp))"
| row_waiting: "row_step db (snd (MarkConfigurationSyncWaiting db i revision retryAt reason problems stamp))"
| row_noop: "row_step db (snd (MarkConfigurationSyncNoop db i revision digest stamp))"
| row_digest: "row_step db (snd (UpdateConfigurationSyncWantedDigest db i digest stamp))"
| row_recover: "row_step db (RecoverConfigurationSyncStates db stamp)"
| row_claim: "row_step db (snd (ClaimConfigurationSync db i revision stamp))"
| row_prepare_failed: "row_step db (snd (MarkConfigurationSyncPreparationFailure db i revision e problems now))"
| row_queued: "row_step db (snd (markConfigurationSyncQueued db i revision version task digest prepared previous stamp))"
| row_unchanged: "row_step db (MarkConfigurationSyncUnchangedFailure db i revision e stamp)"
| row_result: "row_step db (MarkConfigurationSyncResult db i version succeeded e now)"
| row_superseded: "row_step db (MarkConfigurationSyncSuperseded db i version stamp)"
| row_retry: "row_step db (snd (RetryFailedConfigurationSync db ids stamp))"
| row_tasks: "row_step db (db\<lparr>sd_tasks := tasks\<rparr>)"
| row_enrol: "0 < i \<Longrightarrow> agent \<noteq> [] \<Longrightarrow> row_step db (db\<lparr>sd_servers := AList.update i agent (sd_servers db)\<rparr>)"

inductive sync_step :: "sync_world \<Rightarrow> sync_world \<Rightarrow> bool" where
  sync_row: "row_step (sw_db w) db \<Longrightarrow> sync_step w (w\<lparr>sw_db := db\<rparr>)"
| sync_sweep: "sync_step w (w\<lparr>sw_db := QueueConfigurationSyncSweep (sw_db w) stamp\<rparr>)"
| sync_drain: "sync_step w (w\<lparr>sw_db := snd (DrainConfigurationSyncIntents (sw_db w) stamp stampText)\<rparr>)"
| sync_change: "sync_step w \<lparr>sw_db = configuration_change source targets stamp (sw_db w),
    sw_owed = owes (sw_db w) targets @ sw_owed w\<rparr>"
| sync_policy: "sync_step w \<lparr>sw_db = snd (SetServerDeliveryFlags (sw_db w) flags stamp),
    sw_owed = policy_owes (sw_db w) flags @ sw_owed w\<rparr>"

definition empty_db :: sync_db where
  "empty_db = \<lparr>sd_states = [], sd_intents = [], sd_flags = [], sd_servers = [], sd_tasks = [], sd_revision = 0\<rparr>"

definition initial_sync :: sync_world where
  "initial_sync = \<lparr>sw_db = empty_db, sw_owed = []\<rparr>"

section \<open>Revisions only move forward\<close>

definition wanted :: "sync_db \<Rightarrow> int \<Rightarrow> nat" where
  "wanted db i = (case map_of (sd_states db) i of Some s \<Rightarrow> cf_WantedRevision s | None \<Rightarrow> 0)"

text \<open>What the operations on the rows keep: the intents, the revision, and every wanted revision or more.\<close>

definition ids_ok :: "sync_db \<Rightarrow> bool" where
  "ids_ok db \<longleftrightarrow> list_all (\<lambda>i. 0 < i) (map fst (sd_servers db))"

definition forward :: "sync_db \<Rightarrow> sync_db \<Rightarrow> bool" where
  "forward db db' \<longleftrightarrow>
     sd_intents db' = sd_intents db \<and> sd_revision db' = sd_revision db \<and>
     (\<forall>i. sync_target db i \<longrightarrow> sync_target db' i) \<and> (ids_ok db \<longrightarrow> ids_ok db') \<and> (\<forall>i. wanted db i \<le> wanted db' i)"

lemma forward_refl [simp, intro]: "forward db db"
  by (simp add: forward_def)

lemma forward_trans:
  assumes "forward a b" and "forward b c"
  shows "forward a c"
proof -
  have "wanted a i \<le> wanted c i" for i using assms order_trans [of "wanted a i" "wanted b i"] by (simp add: forward_def)
  with assms show ?thesis by (simp add: forward_def)
qed

lemma forward_states:
  assumes "\<And>i s. map_of (sd_states db) i = Some s \<Longrightarrow> \<exists>s'. map_of rows i = Some s' \<and> cf_WantedRevision s \<le> cf_WantedRevision s'"
  shows "forward db (db\<lparr>sd_states := rows\<rparr>)"
proof -
  have "wanted db i \<le> wanted (db\<lparr>sd_states := rows\<rparr>) i" for i
    by (cases "map_of (sd_states db) i") (use assms [of i] in \<open>auto simp: wanted_def\<close>)
  moreover have "sync_target (db\<lparr>sd_states := rows\<rparr>) i" if "sync_target db i" for i
    using assms [of i] that by (auto simp: sync_target_def split: option.splits)
  ultimately show ?thesis by (simp add: forward_def ids_ok_def)
qed

lemma forward_update:
  assumes "\<And>k s. P k s \<Longrightarrow> cf_WantedRevision s \<le> cf_WantedRevision (f s)"
  shows "forward db (update_states P f db)"
  unfolding update_states_def by (rule forward_states) (use assms in \<open>auto simp: sql_update_lookup\<close>)

lemma forward_put:
  assumes "\<And>s0. map_of (sd_states db) i = Some s0 \<Longrightarrow> cf_WantedRevision s0 \<le> cf_WantedRevision s"
  shows "forward db (db\<lparr>sd_states := AList.update i s (sd_states db)\<rparr>)"
  by (rule forward_states) (use assms in \<open>auto simp: AList.update_conv'\<close>)

lemma view_flags [simp]:
  "wanted (db\<lparr>sd_flags := x\<rparr>) = wanted db" "sync_target (db\<lparr>sd_flags := x\<rparr>) = sync_target db" "ids_ok (db\<lparr>sd_flags := x\<rparr>) = ids_ok db"
  and view_tasks [simp]:
  "wanted (db\<lparr>sd_tasks := y\<rparr>) = wanted db" "sync_target (db\<lparr>sd_tasks := y\<rparr>) = sync_target db" "ids_ok (db\<lparr>sd_tasks := y\<rparr>) = ids_ok db"
  and view_intents [simp]:
  "wanted (db\<lparr>sd_intents := z\<rparr>) = wanted db" "sync_target (db\<lparr>sd_intents := z\<rparr>) = sync_target db" "ids_ok (db\<lparr>sd_intents := z\<rparr>) = ids_ok db"
  and view_revision [simp]:
  "wanted (db\<lparr>sd_revision := n\<rparr>) = wanted db" "sync_target (db\<lparr>sd_revision := n\<rparr>) = sync_target db" "ids_ok (db\<lparr>sd_revision := n\<rparr>) = ids_ok db"
  by (simp_all add: wanted_def sync_target_def ids_ok_def fun_eq_iff split: option.split)

lemma forward_flags: "forward db db' \<Longrightarrow> forward db (db'\<lparr>sd_flags := flags\<rparr>)" "forward (db\<lparr>sd_flags := flags\<rparr>) db' \<Longrightarrow> forward db db'"
  by (simp_all add: forward_def)

lemma forward_pending: "forward db (markConfigurationSyncPendingTx i revision stamp db)"
  by (auto simp: markConfigurationSyncPendingTx_def configurationSyncPendingSQL_def intro!: forward_put split: option.split)

lemma forward_fold: "(\<And>x db. forward db (f x db)) \<Longrightarrow> forward db (fold f xs db)"
  by (induction xs arbitrary: db) (auto intro: forward_trans)

lemma forward_queued: "forward db (snd (markConfigurationSyncQueued db i revision version task digest prepared previous stamp))"
proof -
  have u: "forward db (update_states P (\<lambda>s. s\<lparr>cf_State := a, cf_SyncStrategy := b, cf_WantedDigest := c, cf_LastConfigVersion := version,
      cf_LastTaskID := task, cf_NextRetryAt := None, cf_LastError := [], cf_Problems := [], cf_UpdatedAt := stamp\<rparr>) db)" for P a b c
    by (rule forward_update) simp
  show ?thesis
    unfolding markConfigurationSyncQueued_def Let_def capture_policy_def
    by (simp add: u forward_flags(1) split: option.split)
qed

lemma forward_result: "forward db (MarkConfigurationSyncResult db i version succeeded e now)"
proof -
  have u: "forward db' (update_states P (\<lambda>s. s\<lparr>cf_State := a, cf_LastError := [], cf_Problems := [], cf_NextRetryAt := None, cf_UpdatedAt := now\<rparr>) db')"
    for P a db' by (rule forward_update) simp
  have v: "forward db (update_states P (\<lambda>s. s\<lparr>cf_State := a, cf_RetryCount := r, cf_NextRetryAt := t, cf_LastError := m, cf_Problems := [],
      cf_UpdatedAt := now\<rparr>) db)" for P a r t m by (rule forward_update) simp
  show ?thesis
    unfolding MarkConfigurationSyncResult_def Let_def
    by (simp add: v forward_flags(2) [OF u] split: option.split)
qed

lemma forward_prepare_failed: "forward db (snd (MarkConfigurationSyncPreparationFailure db i revision e problems now))"
proof -
  have v: "forward db (update_states P (\<lambda>s. s\<lparr>cf_State := a, cf_RetryCount := r, cf_NextRetryAt := t, cf_LastError := m,
      cf_Problems := (if 0 < cf_LastConfigVersion s \<or> b then c else d), cf_UpdatedAt := now\<rparr>) db)" for P a r t m b c d
    by (rule forward_update) simp
  show ?thesis
    unfolding MarkConfigurationSyncPreparationFailure_def Let_def by (simp add: v split: sum.split option.split)
qed

lemma row_step_forward: "row_step db db' \<Longrightarrow> forward db db'"
proof (induction rule: row_step.induct)
  case (row_mark db revision ids stamp)
  show ?case unfolding MarkConfigurationSyncPending_def Let_def by (simp add: forward_fold forward_pending)
next
  case (row_ensure db i revision stamp)
  show ?case by (auto simp: EnsureConfigurationSyncRevision_def pending_row_def intro!: forward_put split: option.split)
next
  case (row_drift db i revision stamp)
  show ?case unfolding MarkConfigurationSyncDrift_def by (simp, intro impI forward_update, simp)
next
  case (row_waiting db i revision retryAt reason problems stamp)
  have v: "forward db (update_states P (\<lambda>s. s\<lparr>cf_State := a, cf_NextRetryAt := t, cf_LastError := m, cf_Problems := ps, cf_UpdatedAt := stamp\<rparr>) db)"
    for P a t m ps by (rule forward_update) simp
  show ?case unfolding MarkConfigurationSyncWaiting_def Let_def by (cases "EncodeConfigurationSyncProblems problems") (simp_all add: v)
next
  case (row_noop db i revision digest stamp)
  show ?case unfolding MarkConfigurationSyncNoop_def by (simp, intro impI forward_update, simp)
next
  case (row_digest db i digest stamp)
  show ?case unfolding UpdateConfigurationSyncWantedDigest_def by (simp, intro impI forward_update, simp)
next
  case (row_recover db stamp)
  show ?case unfolding RecoverConfigurationSyncStates_def Let_def
    by (rule forward_trans [OF forward_trans [OF forward_update forward_update] forward_update]) simp_all
next
  case (row_claim db i revision stamp)
  show ?case unfolding ClaimConfigurationSync_def Let_def snd_conv by (rule forward_update) simp
next
  case (row_unchanged db i revision e stamp)
  show ?case unfolding MarkConfigurationSyncUnchangedFailure_def Let_def by (rule forward_update) simp
next
  case (row_superseded db i version stamp)
  show ?case unfolding MarkConfigurationSyncSuperseded_def by (simp, intro impI forward_update, simp)
next
  case (row_retry db ids stamp)
  have v: "forward db (update_states P (\<lambda>s. s\<lparr>cf_State := a, cf_RetryCount := 0, cf_NextRetryAt := None, cf_LastError := [], cf_Problems := [],
      cf_TriggerReason := b, cf_UpdatedAt := stamp\<rparr>) db)" for P a b by (rule forward_update) simp
  show ?case unfolding RetryFailedConfigurationSync_def Let_def if_distrib [of snd] by (simp add: v)
next
  case (row_enrol i agent db)
  then show ?case
    by (auto simp: forward_def wanted_def sync_target_def ids_ok_def list_all_iff AList.update_conv' fst_set_update split: option.splits)
next
  case (row_tasks db tasks)
  show ?case by (simp add: forward_def)
qed (rule forward_queued forward_result forward_prepare_failed)+

section \<open>No change is lost\<close>

text \<open>
  An intent still stands for a server and a revision when it is explicit for that server, or when its walk
  over the fleet has not passed the server at that revision yet.
\<close>

definition covers :: "ConfigurationSyncIntent \<Rightarrow> int \<Rightarrow> nat \<Rightarrow> bool" where
  "covers t i r \<longleftrightarrow> r \<le> ci_Revision t \<and>
     (if ci_Scope t = ''explicit_ids'' then ci_ServerID t = i
      else ci_processingRevision t = 0 \<or> ci_processingRevision t < r \<or> ci_lastServerID t < i)"

definition covered :: "sync_db \<Rightarrow> int \<Rightarrow> nat \<Rightarrow> bool" where
  "covered db i r \<longleftrightarrow> r \<le> wanted db i \<or> (\<exists>k t. map_of (sd_intents db) k = Some t \<and> covers t i r)"

definition intent_ok :: "nat \<Rightarrow> ConfigurationSyncIntent \<Rightarrow> bool" where
  "intent_ok rv t \<longleftrightarrow> ci_Scope t \<in> {''explicit_ids'', ''all'', ''unresolved''} \<and> 0 < ci_Revision t \<and> ci_Revision t \<le> rv \<and>
     ci_processingRevision t \<le> ci_Revision t \<and> (ci_processingRevision t = 0 \<longrightarrow> ci_lastServerID t = 0)"

definition intents_ok :: "sync_db \<Rightarrow> bool" where
  "intents_ok db \<longleftrightarrow> gomap_ok (sd_intents db) \<and> ids_ok db \<and>
     (\<forall>k t. map_of (sd_intents db) k = Some t \<longrightarrow> k = intent_key t \<and> intent_ok (sd_revision db) t)"

definition sync_inv :: "sync_world \<Rightarrow> bool" where
  "sync_inv w \<longleftrightarrow> intents_ok (sw_db w) \<and>
     (\<forall>(i, r) \<in> set (sw_owed w). sync_target (sw_db w) i \<and> covered (sw_db w) i r)"

lemma intents_okD:
  assumes "intents_ok db"
  shows "gomap_ok (sd_intents db)" and "ids_ok db" and "map_of (sd_intents db) k = Some t \<Longrightarrow> k = intent_key t"
    and "map_of (sd_intents db) k = Some t \<Longrightarrow> intent_ok (sd_revision db) t"
  using assms unfolding intents_ok_def by blast+

lemma intents_okI:
  assumes "gomap_ok (sd_intents db)" and "ids_ok db"
    and "\<And>k t. map_of (sd_intents db) k = Some t \<Longrightarrow> k = intent_key t \<and> intent_ok (sd_revision db) t"
  shows "intents_ok db"
  using assms unfolding intents_ok_def by blast

lemma coveredI: "r \<le> wanted db i \<Longrightarrow> covered db i r" "map_of (sd_intents db) k = Some t \<Longrightarrow> covers t i r \<Longrightarrow> covered db i r"
  unfolding covered_def by blast+

lemma coveredE:
  assumes "covered db i r"
  obtains "r \<le> wanted db i" | k t where "map_of (sd_intents db) k = Some t" "covers t i r"
  using assms unfolding covered_def by blast

lemma forward_intents_ok:
  assumes "forward db db'" and "intents_ok db"
  shows "intents_ok db'"
  by (rule intents_okI) (use assms intents_okD [OF assms(2)] in \<open>simp_all add: forward_def del: map_of_eq_Some_iff\<close>)

lemma forward_covered:
  assumes "forward db db'" and "covered db i r"
  shows "covered db' i r"
proof -
  have f: "wanted db i \<le> wanted db' i" "sd_intents db' = sd_intents db" using assms(1) by (simp_all add: forward_def)
  from assms(2) show ?thesis
  proof (cases rule: coveredE)
    case 1
    with f show ?thesis by (intro coveredI(1)) simp
  next
    case (2 k t)
    with f show ?thesis by (intro coveredI(2)) simp_all
  qed
qed

lemma sync_invD:
  assumes "sync_inv w"
  shows "intents_ok (sw_db w)" and "(i, r) \<in> set (sw_owed w) \<Longrightarrow> sync_target (sw_db w) i"
    and "(i, r) \<in> set (sw_owed w) \<Longrightarrow> covered (sw_db w) i r"
  using assms unfolding sync_inv_def by auto

lemma sync_invI:
  assumes "intents_ok (sw_db w)" and "\<And>i r. (i, r) \<in> set (sw_owed w) \<Longrightarrow> sync_target (sw_db w) i \<and> covered (sw_db w) i r"
  shows "sync_inv w"
  using assms unfolding sync_inv_def by auto

lemma forward_inv:
  assumes f: "forward (sw_db w) db" and inv: "sync_inv w"
  shows "sync_inv (w\<lparr>sw_db := db\<rparr>)"
proof (rule sync_invI)
  show "intents_ok (sw_db (w\<lparr>sw_db := db\<rparr>))" using forward_intents_ok [OF f sync_invD(1) [OF inv]] by simp
  fix i r assume "(i, r) \<in> set (sw_owed (w\<lparr>sw_db := db\<rparr>))"
  then have "(i, r) \<in> set (sw_owed w)" by simp
  with sync_invD(2,3) [OF inv] f show "sync_target (sw_db (w\<lparr>sw_db := db\<rparr>)) i \<and> covered (sw_db (w\<lparr>sw_db := db\<rparr>)) i r"
    using forward_covered [OF f] by (simp add: forward_def)
qed

subsection \<open>Recording an intent\<close>

lemma upsert_lookup:
  "map_of (sd_intents (upsert_intent source scope i rv stamp db)) k =
     (if k = (source, scope, i)
      then Some (case map_of (sd_intents db) k of
          None \<Rightarrow> \<lparr>ci_Source = source, ci_Scope = scope, ci_ServerID = i, ci_Revision = rv, ci_TargetCount = 0,
                   ci_processingRevision = 0, ci_lastServerID = 0, ci_firstChangedAt = stamp\<rparr>
        | Some t \<Rightarrow> t\<lparr>ci_Revision := rv\<rparr>)
      else map_of (sd_intents db) k)"
  by (simp add: upsert_intent_def AList.update_conv')

lemma upsert_Some:
  "map_of (sd_intents (upsert_intent source scope i rv stamp db)) (source, scope, i) =
     Some (the (map_of (sd_intents (upsert_intent source scope i rv stamp db)) (source, scope, i)))"
  by (simp add: upsert_lookup)

lemma upsert_views [simp]:
  "wanted (upsert_intent source scope i rv stamp db) = wanted db"
  "sync_target (upsert_intent source scope i rv stamp db) = sync_target db"
  "ids_ok (upsert_intent source scope i rv stamp db) = ids_ok db"
  "sd_revision (upsert_intent source scope i rv stamp db) = sd_revision db"
  "sd_servers (upsert_intent source scope i rv stamp db) = sd_servers db"
  by (simp_all add: upsert_intent_def)

lemma upsert_ok:
  assumes ok: "intents_ok db" and scope: "scope \<in> {''explicit_ids'', ''all'', ''unresolved''}" and rv: "rv = sd_revision db" "0 < rv"
  shows "intents_ok (upsert_intent source scope i rv stamp db)"
proof (rule intents_okI)
  show "gomap_ok (sd_intents (upsert_intent source scope i rv stamp db))"
    using intents_okD(1) [OF ok] by (simp add: upsert_intent_def)
  show "ids_ok (upsert_intent source scope i rv stamp db)" using intents_okD(2) [OF ok] by simp
  fix k t assume t: "map_of (sd_intents (upsert_intent source scope i rv stamp db)) k = Some t"
  show "k = intent_key t \<and> intent_ok (sd_revision (upsert_intent source scope i rv stamp db)) t"
  proof (cases "k = (source, scope, i)")
    case False
    with t have "map_of (sd_intents db) k = Some t" by (simp only: upsert_lookup if_False)
    with intents_okD(3,4) [OF ok] show ?thesis by simp
  next
    case True
    show ?thesis
    proof (cases "map_of (sd_intents db) k")
      case None
      with t True scope rv(2) show ?thesis
        unfolding upsert_lookup by (auto simp: rv(1) intent_key_def intent_ok_def)
    next
      case (Some t0)
      with t True have "t = t0\<lparr>ci_Revision := rv\<rparr>" unfolding upsert_lookup by simp
      moreover have "ci_processingRevision t0 \<le> rv" using intents_okD(4) [OF ok Some] by (simp add: intent_ok_def rv(1))
      ultimately show ?thesis using intents_okD(3,4) [OF ok Some] rv by (simp add: intent_key_def intent_ok_def)
    qed
  qed
qed

lemma upsert_covered:
  assumes ok: "intents_ok db" and rv: "rv = sd_revision db" and "covered db j r"
  shows "covered (upsert_intent source scope i rv stamp db) j r"
  using assms(3)
proof (cases rule: coveredE)
  case 1
  then show ?thesis by (intro coveredI(1)) simp
next
  case (2 k t)
  then have "ci_Revision t \<le> rv" using intents_okD(4) [OF ok] by (simp add: intent_ok_def rv)
  with 2 have "covers (t\<lparr>ci_Revision := rv\<rparr>) j r" by (auto simp: covers_def)
  with 2 show ?thesis
    by (intro coveredI(2) [of _ k "if k = (source, scope, i) then t\<lparr>ci_Revision := rv\<rparr> else t"]) (simp_all only: upsert_lookup if_cancel split: if_splits option.splits, simp_all)
qed

lemma upsert_covers_explicit:
  assumes "intents_ok db" and "rv = sd_revision db"
  shows "covered (upsert_intent source ''explicit_ids'' i rv stamp db) i rv"
proof -
  have "ci_Scope t = ''explicit_ids'' \<and> ci_ServerID t = i" if "map_of (sd_intents db) (source, ''explicit_ids'', i) = Some t" for t
    using intents_okD(3) [OF assms(1) that] by (simp add: intent_key_def)
  then have "covers (the (map_of (sd_intents (upsert_intent source ''explicit_ids'' i rv stamp db)) (source, ''explicit_ids'', i))) i rv"
    by (cases "map_of (sd_intents db) (source, ''explicit_ids'', i)") (simp_all add: upsert_lookup covers_def)
  then show ?thesis by (rule coveredI(2) [OF upsert_Some])
qed

lemma upsert_covers_fleet:
  assumes "intents_ok db" and "sd_revision db < rv"
  shows "covered (upsert_intent source ''unresolved'' 0 rv stamp (db\<lparr>sd_revision := n\<rparr>)) i rv"
proof -
  have "ci_Scope t = ''unresolved'' \<and> ci_processingRevision t < rv" if "map_of (sd_intents db) (source, ''unresolved'', 0) = Some t" for t
    using intents_okD(3,4) [OF assms(1) that] assms(2) by (simp add: intent_key_def intent_ok_def)
  then have "covers (the (map_of (sd_intents (upsert_intent source ''unresolved'' 0 rv stamp (db\<lparr>sd_revision := n\<rparr>))) (source, ''unresolved'', 0))) i rv"
    by (cases "map_of (sd_intents db) (source, ''unresolved'', 0)") (simp_all add: upsert_lookup covers_def)
  then show ?thesis by (rule coveredI(2) [OF upsert_Some])
qed

subsection \<open>Draining\<close>

lemma pending_wanted: "wanted (markConfigurationSyncPendingTx i revision stamp db) j = (if j = i then max revision (wanted db j) else wanted db j)"
  by (cases "map_of (sd_states db) i")
    (auto simp: markConfigurationSyncPendingTx_def configurationSyncPendingSQL_def wanted_def AList.update_conv' pending_row_def max_def)

lemma pending_target:
  "sync_target db i \<Longrightarrow> sync_target (markConfigurationSyncPendingTx i revision stamp db) = sync_target db"
  by (rule ext, cases "map_of (sd_states db) i")
    (auto simp: markConfigurationSyncPendingTx_def configurationSyncPendingSQL_def sync_target_def AList.update_conv' split: option.splits)

lemma pending_keeps [simp]:
  "sd_intents (markConfigurationSyncPendingTx i revision stamp db) = sd_intents db"
  "sd_revision (markConfigurationSyncPendingTx i revision stamp db) = sd_revision db"
  "sd_servers (markConfigurationSyncPendingTx i revision stamp db) = sd_servers db"
  by (simp_all add: markConfigurationSyncPendingTx_def configurationSyncPendingSQL_def split: option.split)

definition mark_all :: "int list \<Rightarrow> nat \<Rightarrow> time \<Rightarrow> sync_db \<Rightarrow> sync_db" where
  "mark_all ids revision stamp = fold (\<lambda>i. markConfigurationSyncPendingTx i revision stamp) ids"

lemma mark_all_keeps [simp]:
  "sd_intents (mark_all ids revision stamp db) = sd_intents db"
  "sd_revision (mark_all ids revision stamp db) = sd_revision db"
  "sd_servers (mark_all ids revision stamp db) = sd_servers db"
  unfolding mark_all_def by (induction ids arbitrary: db) simp_all

lemma mark_all_wanted: "wanted (mark_all ids revision stamp db) j = (if j \<in> set ids then max revision (wanted db j) else wanted db j)"
  unfolding mark_all_def by (induction ids arbitrary: db) (auto simp: pending_wanted)

lemma mark_all_target: "list_all (sync_target db) ids \<Longrightarrow> sync_target (mark_all ids revision stamp db) = sync_target db"
  unfolding mark_all_def by (induction ids arbitrary: db) (simp_all add: pending_target)

lemma intent_targets_sync: "list_all (sync_target db) (intent_targets db t remaining)"
  by (auto simp: intent_targets_def list_all_iff dest!: in_set_takeD)

text \<open>The revision an intent is drained at, and what becomes of its row.\<close>

definition drain_revision :: "ConfigurationSyncIntent \<Rightarrow> nat" where
  "drain_revision t = (if ci_Scope t \<noteq> ''explicit_ids'' \<and> ci_processingRevision t \<noteq> 0 then ci_processingRevision t else ci_Revision t)"

definition drain_row :: "ConfigurationSyncIntent \<Rightarrow> int list \<Rightarrow> nat \<Rightarrow> string \<Rightarrow> ConfigurationSyncIntent option" where
  "drain_row t ids remaining stampText =
     (if ci_Scope t = ''explicit_ids'' \<or> length ids < remaining
      then if drain_revision t = ci_Revision t then None
           else Some (t\<lparr>ci_processingRevision := 0, ci_lastServerID := 0, ci_firstChangedAt := stampText\<rparr>)
      else Some (t\<lparr>ci_processingRevision := drain_revision t, ci_lastServerID := last ids, ci_firstChangedAt := stampText\<rparr>))"

lemma drain_intent_eq:
  assumes g: "gomap_ok (sd_intents db)" and t: "map_of (sd_intents db) (intent_key t) = Some t"
    and d: "drain_intent t remaining stamp stampText db = ((processed, remaining'), db')"
  shows "map_of (sd_intents db') k = (if k = intent_key t then drain_row t (intent_targets db t remaining) remaining stampText else map_of (sd_intents db) k)"
    and "gomap_ok (sd_intents db')"
    and "\<exists>z. db' = (mark_all (intent_targets db t remaining) (drain_revision t) stamp db)\<lparr>sd_intents := z\<rparr>"
proof -
  let ?ids = "intent_targets db t remaining"
  let ?rows = "if (ci_Scope t = ''explicit_ids'' \<or> length ?ids < remaining) \<and> drain_revision t = ci_Revision t
     then filter (\<lambda>(k, u). \<not> (k = intent_key t \<and> ci_Revision u = ci_Revision t)) (sd_intents db)
     else if ci_Scope t = ''explicit_ids'' \<or> length ?ids < remaining
     then sql_update (\<lambda>k u. k = intent_key t) (\<lambda>u. u\<lparr>ci_processingRevision := 0, ci_lastServerID := 0, ci_firstChangedAt := stampText\<rparr>) (sd_intents db)
     else sql_update (\<lambda>k u. k = intent_key t) (\<lambda>u. u\<lparr>ci_processingRevision := drain_revision t, ci_lastServerID := last ?ids, ci_firstChangedAt := stampText\<rparr>) (sd_intents db)"
  have db': "db' = (mark_all ?ids (drain_revision t) stamp db)\<lparr>sd_intents := ?rows\<rparr>"
    using d unfolding drain_intent_def Let_def drain_revision_def [symmetric] mark_all_def [symmetric] mark_all_keeps
    by (elim Pair_inject) (erule sym)
  then show "\<exists>z. db' = (mark_all ?ids (drain_revision t) stamp db)\<lparr>sd_intents := z\<rparr>" by blast
  have f: "map_of (filter (\<lambda>(k, u). \<not> (k = intent_key t \<and> ci_Revision u = ci_Revision t)) (sd_intents db)) k =
      (if k = intent_key t then None else map_of (sd_intents db) k)"
    using map_of_filter_key [OF g, of "\<lambda>k u. \<not> (k = intent_key t \<and> ci_Revision u = ci_Revision t)" k] t
    by (auto split: option.splits simp del: map_of_eq_Some_iff)
  show "map_of (sd_intents db') k = (if k = intent_key t then drain_row t ?ids remaining stampText else map_of (sd_intents db) k)"
    unfolding db' using t f by (cases "k = intent_key t") (simp_all add: drain_row_def sql_update_lookup option.map_ident)
  show "gomap_ok (sd_intents db')" unfolding db' using g by simp
qed

text \<open>One intent is drained without losing what it stands for.\<close>

lemma drain_targets_passed:
  assumes "ids = intent_targets db t remaining" and "ci_Scope t \<noteq> ''explicit_ids''" and "sync_target db i"
    and "ci_lastServerID t < i" and "length ids < remaining \<or> i \<le> last ids" and "0 < remaining"
  shows "i \<in> set ids"
proof -
  let ?all = "sort (filter (\<lambda>i. i > ci_lastServerID t \<and> sync_target db i) (map fst (sd_servers db)))"
  have ids: "ids = take remaining ?all" using assms(1,2) by (simp add: intent_targets_def)
  have "map_of (sd_servers db) i \<noteq> None" using assms(3) by (auto simp: sync_target_def split: option.splits)
  then have "i \<in> fst ` set (sd_servers db)" by (auto dest!: map_of_mem intro: rev_image_eqI)
  then have i: "i \<in> set ?all" using assms(3,4) by auto
  show ?thesis
  proof (cases "length ?all \<le> remaining")
    case True
    then show ?thesis using i ids by simp
  next
    case False
    then have len: "length ids = remaining" by (simp add: ids)
    with assms(5) have le: "i \<le> last ids" by simp
    obtain n where n: "n < length ?all" "?all ! n = i" using i unfolding in_set_conv_nth by blast
    show ?thesis
    proof (cases "n < remaining")
      case True
      then show ?thesis using n by (auto simp: ids in_set_conv_nth intro!: exI [of _ n])
    next
      case False
      have ne: "ids \<noteq> []" using len \<open>0 < remaining\<close> by auto
      have "last ids = ?all ! (remaining - 1)" using ne len by (simp add: last_conv_nth) (simp add: ids \<open>0 < remaining\<close>)
      also have "\<dots> \<le> ?all ! n" using False n by (intro sorted_nth_mono) auto
      finally have "last ids = i" using n le by simp
      then show ?thesis using ne last_in_set [of ids] by simp
    qed
  qed
qed

lemma drain_row_ok:
  assumes "intent_ok rv t" and "drain_row t ids remaining stampText = Some t'"
  shows "intent_key t' = intent_key t" and "intent_ok rv t'"
  using assms by (auto simp: drain_row_def intent_key_def intent_ok_def drain_revision_def split: if_splits)

lemma drain_intent_ok:
  assumes ok: "intents_ok db" and t: "map_of (sd_intents db) (intent_key t) = Some t"
    and d: "drain_intent t remaining stamp stampText db = ((processed, remaining'), db')"
  shows "intents_ok db'" and "sync_target db' = sync_target db" and "sd_servers db' = sd_servers db"
proof -
  note eq = drain_intent_eq [OF intents_okD(1) [OF ok] t d]
  obtain z where z: "db' = (mark_all (intent_targets db t remaining) (drain_revision t) stamp db)\<lparr>sd_intents := z\<rparr>" using eq(3) by blast
  then show "sync_target db' = sync_target db" and servers: "sd_servers db' = sd_servers db"
    by (simp_all add: mark_all_target [OF intent_targets_sync])
  show "intents_ok db'"
  proof (rule intents_okI [OF eq(2)])
    show "ids_ok db'" using intents_okD(2) [OF ok] by (simp add: ids_ok_def servers)
    fix k u assume u: "map_of (sd_intents db') k = Some u"
    have rv: "sd_revision db' = sd_revision db" by (simp add: z)
    show "k = intent_key u \<and> intent_ok (sd_revision db') u"
    proof (cases "k = intent_key t")
      case True
      with u eq(1) have "drain_row t (intent_targets db t remaining) remaining stampText = Some u" by simp
      from drain_row_ok [OF intents_okD(4) [OF ok t] this] True show ?thesis by (simp add: rv)
    next
      case False
      with u eq(1) have "map_of (sd_intents db) k = Some u" by simp
      with intents_okD(3,4) [OF ok] show ?thesis by (simp add: rv)
    qed
  qed
qed

lemma drain_intent_covered:
  assumes ok: "intents_ok db" and t: "map_of (sd_intents db) (intent_key t) = Some t" and "0 < remaining"
    and d: "drain_intent t remaining stamp stampText db = ((processed, remaining'), db')"
    and c: "covered db i r" and i: "sync_target db i"
  shows "covered db' i r"
proof -
  let ?ids = "intent_targets db t remaining"
  note eq = drain_intent_eq [OF intents_okD(1) [OF ok] t d]
  obtain z where z: "db' = (mark_all ?ids (drain_revision t) stamp db)\<lparr>sd_intents := z\<rparr>" using eq(3) by blast
  have w: "wanted db' i = (if i \<in> set ?ids then max (drain_revision t) (wanted db i) else wanted db i)"
    by (simp add: z mark_all_wanted)
  have it: "intent_ok (sd_revision db) t" by (rule intents_okD(4) [OF ok t])
  have pos: "0 < i"
    using intents_okD(2) [OF ok] i by (auto simp: ids_ok_def list_all_iff sync_target_def split: option.splits dest!: map_of_mem)
  from c show ?thesis
  proof (cases rule: coveredE)
    case 1
    then show ?thesis by (intro coveredI(1)) (simp add: w le_max_iff_disj)
  next
    case (2 k u)
    show ?thesis
    proof (cases "k = intent_key t")
      case False
      with 2 eq(1) show ?thesis by (intro coveredI(2) [of _ k u]) simp_all
    next
      case True
      with 2(1) t have u: "u = t" by simp
      show ?thesis
      proof (cases "drain_row t ?ids remaining stampText")
        case (Some t')
        show ?thesis
        proof (cases "covers t' i r")
          case True
          then show ?thesis by (rule coveredI(2) [of _ "intent_key t", rotated]) (simp add: eq(1) Some)
        next
          case False
          have "r \<le> drain_revision t" "ci_Scope t \<noteq> ''explicit_ids''" "ci_lastServerID t < i" "i \<le> last ?ids"
            using False Some 2(2) it pos unfolding u by (auto simp: drain_row_def covers_def drain_revision_def intent_ok_def split: if_splits)
          with drain_targets_passed [OF refl _ i _ _ assms(3)] have "i \<in> set ?ids" by simp
          with \<open>r \<le> drain_revision t\<close> show ?thesis by (intro coveredI(1)) (simp add: w)
        qed
      next
        case None
        then have n: "ci_Scope t = ''explicit_ids'' \<or> length ?ids < remaining" "drain_revision t = ci_Revision t"
          by (auto simp: drain_row_def split: if_splits)
        have "i \<in> set ?ids"
        proof (cases "ci_Scope t = ''explicit_ids''")
          case True
          with 2(2) i show ?thesis unfolding u by (simp add: covers_def intent_targets_def)
        next
          case False
          have "ci_lastServerID t < i"
            using 2(2) it pos n(2) False unfolding u by (auto simp: covers_def drain_revision_def intent_ok_def split: if_splits)
          with False n(1) show ?thesis by (intro drain_targets_passed [OF refl _ i _ _ assms(3)]) auto
        qed
        moreover have "r \<le> drain_revision t" using 2(2) n(2) unfolding u by (simp add: covers_def)
        ultimately show ?thesis by (intro coveredI(1)) (simp add: w)
      qed
    qed
  qed
qed

text \<open>
  The work that is left: an intent that has to start over weighs more than the whole fleet, then the servers
  its walk has not reached, and the row itself.
\<close>

definition beyond :: "sync_db \<Rightarrow> ConfigurationSyncIntent \<Rightarrow> nat" where
  "beyond db t = length (filter (\<lambda>i. i > ci_lastServerID t \<and> sync_target db i) (map fst (sd_servers db)))"

definition intent_weight :: "sync_db \<Rightarrow> ConfigurationSyncIntent \<Rightarrow> nat" where
  "intent_weight db t =
     Suc (if ci_Scope t = ''explicit_ids'' then 0
          else (if ci_processingRevision t \<noteq> 0 \<and> ci_processingRevision t \<noteq> ci_Revision t then Suc (length (fleet db)) else 0) + beyond db t)"

definition backlog :: "sync_db \<Rightarrow> nat" where
  "backlog db = (\<Sum>k \<in> dom (map_of (sd_intents db)). intent_weight db (the (map_of (sd_intents db) k)))"

lemma weight_pos: "0 < intent_weight db t"
  by (simp add: intent_weight_def)

lemma length_filter_less:
  "\<forall>x. P x \<longrightarrow> Q x \<Longrightarrow> y \<in> set xs \<Longrightarrow> Q y \<Longrightarrow> \<not> P y \<Longrightarrow> length (filter P xs) < length (filter Q xs)"
proof (induction xs)
  case (Cons x xs)
  have le: "length (filter P xs) \<le> length (filter Q xs)"
    using Cons.prems(1) length_filter_le [of P "filter Q xs"] by (simp add: filter_filter conj_absorb) (metis (mono_tags, lifting) filter_cong)
  show ?case
  proof (cases "y \<in> set xs")
    case True
    with Cons show ?thesis by auto
  next
    case False
    with Cons.prems le show ?thesis by auto
  qed
qed simp

lemma beyond_fleet: "beyond db t \<le> length (fleet db)"
proof -
  have "filter (\<lambda>i. i > ci_lastServerID t \<and> sync_target db i) xs = filter (\<lambda>i. i > ci_lastServerID t) (filter (sync_target db) xs)" for xs
    by (simp add: conj_commute)
  then show ?thesis by (simp only: beyond_def fleet_def length_filter_le)
qed

lemma drain_row_weight:
  assumes "drain_row t (intent_targets db t remaining) remaining stampText = Some t'" and "0 < remaining"
  shows "intent_weight db t' < intent_weight db t"
proof (cases "length (intent_targets db t remaining) < remaining")
  case True
  with assms(1) have "ci_Scope t \<noteq> ''explicit_ids''" "ci_processingRevision t \<noteq> 0" "ci_processingRevision t \<noteq> ci_Revision t"
    "t' = t\<lparr>ci_processingRevision := 0, ci_lastServerID := 0, ci_firstChangedAt := stampText\<rparr>"
    by (auto simp: drain_row_def drain_revision_def split: if_splits)
  then show ?thesis using beyond_fleet [of db t'] by (simp add: intent_weight_def)
next
  case False
  let ?ids = "intent_targets db t remaining"
  have ne: "?ids \<noteq> []" using False assms(2) by auto
  have ex: "ci_Scope t \<noteq> ''explicit_ids''" and t': "t' = t\<lparr>ci_processingRevision := drain_revision t, ci_lastServerID := last ?ids, ci_firstChangedAt := stampText\<rparr>"
    using assms(1) False by (auto simp: drain_row_def drain_revision_def split: if_splits)
  have "last ?ids \<in> set ?ids" using ne by simp
  then have l: "last ?ids \<in> set (map fst (sd_servers db))" "last ?ids > ci_lastServerID t" "sync_target db (last ?ids)"
    using ex by (auto simp: intent_targets_def dest!: in_set_takeD)
  have "beyond db t' < beyond db t"
    unfolding beyond_def t' by (rule length_filter_less [OF _ l(1)]) (use l in auto)
  moreover have "drain_revision t \<noteq> 0 \<and> drain_revision t \<noteq> ci_Revision t \<longrightarrow> ci_processingRevision t \<noteq> 0 \<and> ci_processingRevision t \<noteq> ci_Revision t"
    by (simp add: drain_revision_def)
  ultimately show ?thesis using ex by (auto simp: intent_weight_def t')
qed

lemma drain_intent_backlog:
  assumes ok: "intents_ok db" and t: "map_of (sd_intents db) (intent_key t) = Some t" and "0 < remaining"
    and d: "drain_intent t remaining stamp stampText db = ((processed, remaining'), db')"
  shows "backlog db' < backlog db"
proof -
  let ?m = "map_of (sd_intents db)" and ?k = "intent_key t"
  let ?row = "drain_row t (intent_targets db t remaining) remaining stampText"
  note eq = drain_intent_eq(1) [OF intents_okD(1) [OF ok] t d]
  have w: "intent_weight db' = intent_weight db"
    using drain_intent_ok(2,3) [OF ok t d] by (auto simp: intent_weight_def beyond_def fleet_def)
  have fin: "finite (dom ?m)" by (rule finite_dom_map_of)
  have k: "?k \<in> dom ?m" using t by auto
  let ?rest = "\<Sum>k \<in> dom ?m - {?k}. intent_weight db (the (?m k))"
  have old: "backlog db = intent_weight db t + ?rest"
    unfolding backlog_def using sum.remove [OF fin k, of "\<lambda>k. intent_weight db (the (?m k))"] t by simp
  have rest: "(\<Sum>k \<in> dom ?m - {?k}. intent_weight db (the (map_of (sd_intents db') k))) = ?rest"
    by (rule sum.cong) (auto simp: eq)
  show ?thesis
  proof (cases ?row)
    case None
    then have "dom (map_of (sd_intents db')) = dom ?m - {?k}" by (auto simp: eq dom_def)
    then show ?thesis unfolding old unfolding backlog_def w by (simp add: rest weight_pos)
  next
    case (Some t')
    then have "dom (map_of (sd_intents db')) = dom ?m" using t by (auto simp: eq dom_def)
    then have "backlog db' = intent_weight db t' + ?rest"
      unfolding backlog_def w using sum.remove [OF fin k, of "\<lambda>k. intent_weight db (the (map_of (sd_intents db') k))"] rest by (simp add: eq Some)
    with old drain_row_weight [OF Some assms(3)] show ?thesis by simp
  qed
qed

lemma drain_intents_ok:
  assumes "intents_ok db" and "distinct (map intent_key ts)" and "\<And>t. t \<in> set ts \<Longrightarrow> map_of (sd_intents db) (intent_key t) = Some t"
  obtains ps db' where "drain_intents ts remaining stamp stampText db = Inr (ps, db')" and "intents_ok db'"
    and "sync_target db' = sync_target db" and "\<forall>i r. sync_target db i \<longrightarrow> covered db i r \<longrightarrow> covered db' i r"
    and "ts \<noteq> [] \<longrightarrow> 0 < remaining \<longrightarrow> backlog db' < backlog db" and "backlog db' \<le> backlog db"
  using assms
proof (induction ts arbitrary: remaining db thesis)
  case Nil
  show ?case by (rule Nil.prems(1)) (use Nil.prems in auto)
next
  case (Cons t ts)
  show ?case
  proof (cases "remaining = 0")
    case True
    show ?thesis by (rule Cons.prems(1)) (use Cons.prems True in auto)
  next
    case False
    then have pos: "0 < remaining" by simp
    have t: "map_of (sd_intents db) (intent_key t) = Some t" by (rule Cons.prems(4)) simp
    have scope: "ci_Scope t \<in> {''explicit_ids'', ''all'', ''unresolved''}"
      using intents_okD(4) [OF Cons.prems(2) t] by (simp add: intent_ok_def)
    obtain p rm db1 where d: "drain_intent t remaining stamp stampText db = ((p, rm), db1)"
      by (cases "drain_intent t remaining stamp stampText db") auto
    note eq = drain_intent_eq [OF intents_okD(1) [OF Cons.prems(2)] t d]
    note ok = drain_intent_ok [OF Cons.prems(2) t d]
    have rest: "map_of (sd_intents db1) (intent_key u) = Some u" if "u \<in> set ts" for u
    proof -
      have "intent_key u \<in> intent_key ` set ts" "intent_key t \<notin> intent_key ` set ts" using Cons.prems(3) that by simp_all
      then have "intent_key u \<noteq> intent_key t" by metis
      with eq(1) [of "intent_key u"] Cons.prems(4) [of u] that show ?thesis by simp
    qed
    obtain ps db' where IH: "drain_intents ts rm stamp stampText db1 = Inr (ps, db')" "intents_ok db'"
      "sync_target db' = sync_target db1" "\<forall>i r. sync_target db1 i \<longrightarrow> covered db1 i r \<longrightarrow> covered db' i r" "backlog db' \<le> backlog db1"
      using Cons.prems(3) by (rule_tac Cons.IH [OF _ ok(1) _ rest, of rm]) auto
    have less: "backlog db' < backlog db" using drain_intent_backlog [OF Cons.prems(2) t pos d] IH(5) by simp
    show ?thesis
    proof (rule Cons.prems(1))
      show "drain_intents (t # ts) remaining stamp stampText db = Inr (p # ps, db')" using False scope d IH(1) by simp
      show "\<forall>i r. sync_target db i \<longrightarrow> covered db i r \<longrightarrow> covered db' i r"
        using IH(4) drain_intent_covered [OF Cons.prems(2) t pos d] ok(2) by simp
    qed (use IH ok less in auto)
  qed
qed

lemma batch_rows:
  assumes ok: "intents_ok db" and ts_def: "ts = map snd (take n (sort_key f (sd_intents db)))"
  shows "distinct (map intent_key ts)" and "\<And>t. t \<in> set ts \<Longrightarrow> map_of (sd_intents db) (intent_key t) = Some t"
proof -
  have row: "fst x = intent_key (snd x)" "map_of (sd_intents db) (fst x) = Some (snd x)" if "x \<in> set (sd_intents db)" for x
  proof -
    show "map_of (sd_intents db) (fst x) = Some (snd x)" using that intents_okD(1) [OF ok] by (intro map_of_is_SomeI) simp_all
    then show "fst x = intent_key (snd x)" by (rule intents_okD(3) [OF ok])
  qed
  have sub: "x \<in> set (sd_intents db)" if "x \<in> set (take n (sort_key f (sd_intents db)))" for x
    using in_set_takeD [OF that] by simp
  then have "map intent_key ts = map fst (take n (sort_key f (sd_intents db)))"
    unfolding ts_def using row(1) by simp
  also have "distinct \<dots>" using intents_okD(1) [OF ok] by (simp add: take_map [symmetric] distinct_map_sort_key del: distinct_map)
  finally show "distinct (map intent_key ts)" .
  show "map_of (sd_intents db) (intent_key t) = Some t" if "t \<in> set ts" for t
  proof -
    from that obtain x where "x \<in> set (take n (sort_key f (sd_intents db)))" "t = snd x" unfolding ts_def set_map by blast
    with row [OF sub] show ?thesis by metis
  qed
qed

lemma drain_ok:
  assumes ok: "intents_ok db"
  shows "intents_ok (snd (DrainConfigurationSyncIntents db stamp stampText))"
    and "sync_target (snd (DrainConfigurationSyncIntents db stamp stampText)) = sync_target db"
    and "\<And>i r. sync_target db i \<Longrightarrow> covered db i r \<Longrightarrow> covered (snd (DrainConfigurationSyncIntents db stamp stampText)) i r"
    and "sd_intents db \<noteq> [] \<Longrightarrow> backlog (snd (DrainConfigurationSyncIntents db stamp stampText)) < backlog db"
proof -
  let ?f = "\<lambda>(k, t). (ci_firstChangedAt t, ci_Source t, ci_ServerID t)"
  let ?ts = "map snd (take configurationSyncIntentBatchSize (sort_key ?f (sd_intents db)))"
  have ne: "?ts \<noteq> []" if "sd_intents db \<noteq> []"
  proof -
    have "length ?ts = min configurationSyncIntentBatchSize (length (sd_intents db))" by (simp only: length_map length_take length_sort min.commute)
    then have "length ?ts \<noteq> 0" using that by (simp only: configurationSyncIntentBatchSize_def) simp
    then show ?thesis by (simp only: length_0_conv) simp
  qed
  obtain ps db' where d: "drain_intents ?ts configurationSyncTargetBatchSize stamp stampText db = Inr (ps, db')"
    "intents_ok db'" "sync_target db' = sync_target db" "\<forall>i r. sync_target db i \<longrightarrow> covered db i r \<longrightarrow> covered db' i r"
    "?ts \<noteq> [] \<longrightarrow> 0 < configurationSyncTargetBatchSize \<longrightarrow> backlog db' < backlog db"
    by (rule drain_intents_ok [OF ok batch_rows [OF ok refl [of ?ts]], where remaining = configurationSyncTargetBatchSize and stamp = stamp and stampText = stampText])
      (assumption | rule that)+
  then have eq: "snd (DrainConfigurationSyncIntents db stamp stampText) = db'"
    by (simp add: DrainConfigurationSyncIntents_def Let_def)
  from d ne show "intents_ok (snd (DrainConfigurationSyncIntents db stamp stampText))"
    "sync_target (snd (DrainConfigurationSyncIntents db stamp stampText)) = sync_target db"
    "\<And>i r. sync_target db i \<Longrightarrow> covered db i r \<Longrightarrow> covered (snd (DrainConfigurationSyncIntents db stamp stampText)) i r"
    "sd_intents db \<noteq> [] \<Longrightarrow> backlog (snd (DrainConfigurationSyncIntents db stamp stampText)) < backlog db"
    unfolding eq by (simp_all add: configurationSyncTargetBatchSize_def)
qed

subsection \<open>Changes\<close>

lemma bump_ok:
  assumes "intents_ok db"
  shows "intents_ok (db\<lparr>sd_revision := sd_revision db + 1, sd_flags := flags\<rparr>)"
    and "covered db i r \<Longrightarrow> covered (db\<lparr>sd_revision := sd_revision db + 1, sd_flags := flags\<rparr>) i r"
proof -
  show "intents_ok (db\<lparr>sd_revision := sd_revision db + 1, sd_flags := flags\<rparr>)"
  proof (rule intents_okI)
    fix k t assume "map_of (sd_intents (db\<lparr>sd_revision := sd_revision db + 1, sd_flags := flags\<rparr>)) k = Some t"
    then have "map_of (sd_intents db) k = Some t" by simp
    from intents_okD(3,4) [OF assms this]
    show "k = intent_key t \<and> intent_ok (sd_revision (db\<lparr>sd_revision := sd_revision db + 1, sd_flags := flags\<rparr>)) t"
      by (simp add: intent_ok_def)
  qed (use intents_okD(1,2) [OF assms] in simp_all)
  show "covered db i r \<Longrightarrow> covered (db\<lparr>sd_revision := sd_revision db + 1, sd_flags := flags\<rparr>) i r"
    by (erule coveredE) (rule coveredI(1), simp, rule coveredI(2), simp_all)
qed

lemma explicit_upserts:
  assumes "intents_ok db" and "rv = sd_revision db" and "0 < rv"
    and db'_def: "db' = fold (\<lambda>i. upsert_intent source ''explicit_ids'' i rv stamp) ids db"
  shows "intents_ok db' \<and> sync_target db' = sync_target db \<and>
    (\<forall>i r. covered db i r \<longrightarrow> covered db' i r) \<and> (\<forall>i \<in> set ids. covered db' i rv)"
  using assms(1,2) unfolding db'_def
proof (induction ids arbitrary: db)
  case (Cons i ids)
  let ?db = "upsert_intent source ''explicit_ids'' i rv stamp db"
  have ok: "intents_ok ?db" using Cons.prems assms(3) by (intro upsert_ok) simp_all
  have "covered ?db i rv" using Cons.prems by (rule upsert_covers_explicit)
  with Cons.IH [OF ok] Cons.prems upsert_covered [OF Cons.prems] show ?case by auto
qed simp

lemma change_ok:
  assumes ok: "intents_ok db" and db': "db' = configuration_change source targets stamp db"
  shows "intents_ok db' \<and> sync_target db' = sync_target db \<and> (\<forall>i r. covered db i r \<longrightarrow> covered db' i r) \<and>
    (\<forall>(i, r) \<in> set (owes db targets). covered db' i r)"
proof -
  let ?db = "db\<lparr>sd_revision := sd_revision db + 1\<rparr>"
  have b: "intents_ok ?db" "covered db i r \<Longrightarrow> covered ?db i r" for i r
    using bump_ok [OF ok, where flags = "sd_flags db"] by simp_all
  show ?thesis
  proof (cases targets)
    case (Some ids)
    have pos: "0 < i" if "sync_target db i" for i
      using intents_okD(2) [OF ok] that by (auto simp: ids_ok_def list_all_iff sync_target_def split: option.splits dest!: map_of_mem)
    have "db' = fold (\<lambda>i. upsert_intent source ''explicit_ids'' i (sd_revision db + 1) stamp) (filter (\<lambda>i. i > 0) ids) ?db"
      by (simp add: db' Some configuration_change_def)
    with explicit_upserts [OF b(1) _ _ this] b(2) pos show ?thesis
      by (auto simp: owes_def Some)
  next
    case None
    have d: "db' = upsert_intent source ''unresolved'' 0 (sd_revision db + 1) stamp ?db"
      by (simp add: db' None configuration_change_def)
    have "intents_ok db'" unfolding d by (rule upsert_ok [OF b(1)]) simp_all
    moreover have "covered db i r \<longrightarrow> covered db' i r" for i r
      unfolding d using b by (intro impI upsert_covered) simp_all
    moreover have "covered db' i (sd_revision db + 1)" for i
      unfolding d by (rule upsert_covers_fleet [OF ok]) simp
    ultimately show ?thesis by (auto simp: owes_def None d)
  qed
qed

lemma policy_ok:
  assumes ok: "intents_ok db" and db': "db' = snd (SetServerDeliveryFlags db flags stamp)"
  shows "intents_ok db' \<and> sync_target db' = sync_target db \<and> (\<forall>i r. covered db i r \<longrightarrow> covered db' i r) \<and>
    (\<forall>(i, r) \<in> set (policy_owes db flags). covered db' i r)"
proof -
  let ?i = "df_ServerID flags"
  let ?old = "case map_of (sd_flags db) ?i of Some f \<Rightarrow> f | None \<Rightarrow> defaultServerDeliveryFlags ?i"
  have pos: "0 < ?i \<and> map_of (sd_servers db) ?i \<noteq> None" if "sync_target db ?i"
    using intents_okD(2) [OF ok] that by (auto simp: ids_ok_def list_all_iff sync_target_def split: option.splits dest!: map_of_mem)
  show ?thesis
  proof (cases "?i \<le> 0 \<or> map_of (sd_servers db) ?i = None \<or>
      df_AuthorizationFastLane ?old = df_AuthorizationFastLane flags \<and> df_RuntimeUsersEnabled ?old = df_RuntimeUsersEnabled flags")
    case True
    then have "db' = db" by (auto simp: db' SetServerDeliveryFlags_def updateServerDeliveryFlagsTx_def Let_def)
    with True ok pos show ?thesis by (auto simp: policy_owes_def Let_def)
  next
    case False
    then have "db' = upsert_intent ''delivery_policy'' ''explicit_ids'' ?i (sd_revision db + 1) stamp
        (db\<lparr>sd_revision := sd_revision db + 1, sd_flags := AList.update ?i (?old\<lparr>df_AuthorizationFastLane := df_AuthorizationFastLane flags,
           df_RuntimeUsersEnabled := df_RuntimeUsersEnabled flags, df_Revision := sd_revision db + 1\<rparr>) (sd_flags db)\<rparr>)"
      by (auto simp: db' SetServerDeliveryFlags_def updateServerDeliveryFlagsTx_def Let_def)
    then obtain z where z: "db' = upsert_intent ''delivery_policy'' ''explicit_ids'' ?i (sd_revision db + 1) stamp
        (db\<lparr>sd_revision := sd_revision db + 1, sd_flags := z\<rparr>)" by blast
    note b = bump_ok [OF ok, where flags = z]
    have "intents_ok db'" unfolding z by (rule upsert_ok [OF b(1)]) simp_all
    moreover have "covered db i r \<longrightarrow> covered db' i r" for i r
      unfolding z using b by (intro impI upsert_covered) simp_all
    moreover have "covered db' ?i (sd_revision db + 1)"
      unfolding z by (rule upsert_covers_explicit [OF b(1)]) simp
    ultimately show ?thesis by (auto simp: policy_owes_def Let_def z)
  qed
qed

lemma sweep_ok:
  assumes ok: "intents_ok db"
  shows "intents_ok (QueueConfigurationSyncSweep db stamp)" and "sync_target (QueueConfigurationSyncSweep db stamp) = sync_target db"
    and "covered db i r \<Longrightarrow> covered (QueueConfigurationSyncSweep db stamp) i r"
  using ok upsert_ok [OF ok, of "''unresolved''" "sd_revision db"] upsert_covered [OF ok refl]
  by (simp_all add: QueueConfigurationSyncSweep_def)

lemma sync_step_inv:
  assumes "sync_step w w'" and inv: "sync_inv w"
  shows "sync_inv w'"
  using assms(1)
proof cases
  case (sync_row db)
  with row_step_forward [OF sync_row(2)] inv show ?thesis by (simp add: forward_inv)
next
  case (sync_sweep stamp)
  note k = sweep_ok [OF sync_invD(1) [OF inv], where stamp = stamp]
  show ?thesis by (rule sync_invI) (use k sync_invD(2,3) [OF inv] in \<open>simp_all add: sync_sweep\<close>)
next
  case (sync_drain stamp stampText)
  note k = drain_ok [OF sync_invD(1) [OF inv], where stamp = stamp and stampText = stampText]
  show ?thesis by (rule sync_invI) (use k sync_invD(2,3) [OF inv] in \<open>simp_all add: sync_drain\<close>)
next
  case (sync_change source targets stamp)
  note k = change_ok [OF sync_invD(1) [OF inv] refl, of source targets stamp]
  have "sync_target (sw_db w) i" if "(i, r) \<in> set (owes (sw_db w) targets)" for i r
    using that by (auto simp: owes_def fleet_def split: option.splits)
  then show ?thesis by (intro sync_invI) (use k sync_invD(2,3) [OF inv] in \<open>auto simp: sync_change\<close>)
next
  case (sync_policy flags stamp)
  note k = policy_ok [OF sync_invD(1) [OF inv] refl, of flags stamp]
  have "sync_target (sw_db w) i" if "(i, r) \<in> set (policy_owes (sw_db w) flags)" for i r
    using that by (auto simp: policy_owes_def Let_def split: if_splits)
  then show ?thesis by (intro sync_invI) (use k sync_invD(2,3) [OF inv] in \<open>auto simp: sync_policy\<close>)
qed

interpretation cs: inv_system "\<lambda>w. w = initial_sync" sync_step sync_inv
proof unfold_locales
  fix w assume "w = initial_sync"
  then show "sync_inv w"
    by (intro sync_invI intents_okI) (simp_all add: initial_sync_def empty_db_def ids_ok_def)
qed (rule sync_step_inv)

section \<open>What the store guarantees\<close>

text \<open>C8. A committed change is never lost between the database and the sync state machine. In every history of
  changes, policy saves, sweeps, drains, crashes between them and operations on the rows, each server that a
  change owes a revision either wants that revision or a newer one, or an intent still stands for it.\<close>

theorem committed_change_not_lost:
  assumes "sync_step\<^sup>*\<^sup>* initial_sync w" and "(i, r) \<in> set (sw_owed w)"
  shows "r \<le> wanted (sw_db w) i \<or> (\<exists>t \<in> snd ` set (sd_intents (sw_db w)). covers t i r)"
proof -
  have "covered (sw_db w) i r" using sync_invD(3) [OF cs.reached_inv [OF refl assms(1)] assms(2)] .
  then show ?thesis
  proof (cases rule: coveredE)
    case (2 k t)
    from map_of_mem [OF 2(1)] have "t \<in> snd ` set (sd_intents (sw_db w))" by (rule rev_image_eqI) simp
    with 2(2) show ?thesis by blast
  qed simp
qed

definition demo_enrolled :: sync_db where
  "demo_enrolled = empty_db\<lparr>sd_servers := [(1, ''a'')]\<rparr>"

definition demo_changed :: sync_world where
  "demo_changed = \<lparr>sw_db = configuration_change ''inbounds.update'' None ''t'' demo_enrolled, sw_owed = [(1, 1)]\<rparr>"

lemma demo_changed_reached: "sync_step\<^sup>*\<^sup>* initial_sync demo_changed"
proof -
  have "row_step (sw_db initial_sync) demo_enrolled"
    using row_enrol [of 1 "''a''" empty_db] by (simp add: initial_sync_def demo_enrolled_def empty_db_def)
  then have 1: "sync_step initial_sync \<lparr>sw_db = demo_enrolled, sw_owed = []\<rparr>"
    using sync_row [of initial_sync demo_enrolled] by (simp add: initial_sync_def)
  have "owes demo_enrolled None = [(1, 1)]" by (simp add: owes_def fleet_def sync_target_def demo_enrolled_def empty_db_def)
  then have "sync_step \<lparr>sw_db = demo_enrolled, sw_owed = []\<rparr> demo_changed"
    using sync_change [of "\<lparr>sw_db = demo_enrolled, sw_owed = []\<rparr>" "''inbounds.update''" None "''t''"] by (simp add: demo_changed_def)
  with 1 show ?thesis by (rule converse_rtranclp_into_rtranclp [OF _ r_into_rtranclp])
qed

theorem committed_change_not_lost_witness:
  "(1, 1) \<in> set (sw_owed demo_changed) \<and>
   (1 \<le> wanted (sw_db demo_changed) 1 \<or> (\<exists>t \<in> snd ` set (sd_intents (sw_db demo_changed)). covers t 1 1))"
proof -
  have o: "(1, 1) \<in> set (sw_owed demo_changed)" by (simp add: demo_changed_def)
  with committed_change_not_lost [OF demo_changed_reached o] show ?thesis by blast
qed

definition drained :: "time \<Rightarrow> string \<Rightarrow> nat \<Rightarrow> sync_db \<Rightarrow> sync_db" where
  "drained stamp stampText n db = ((\<lambda>db. snd (DrainConfigurationSyncIntents db stamp stampText)) ^^ n) db"

lemma drained_Suc: "drained stamp stampText (Suc n) db = drained stamp stampText n (snd (DrainConfigurationSyncIntents db stamp stampText))"
  by (simp add: drained_def funpow_Suc_right del: funpow.simps)

lemma drained_ok:
  assumes "intents_ok db"
  shows "intents_ok (drained stamp stampText n db) \<and> sync_target (drained stamp stampText n db) = sync_target db \<and>
    (\<forall>i r. sync_target db i \<longrightarrow> covered db i r \<longrightarrow> covered (drained stamp stampText n db) i r)"
proof (induction n)
  case (Suc n)
  from drain_ok(1-3) [OF conjunct1 [OF Suc.IH]] Suc.IH show ?case by (simp add: drained_def)
qed (simp add: drained_def assms)

lemma drains_finish:
  assumes "intents_ok db"
  shows "\<exists>n. sd_intents (drained stamp stampText n db) = []"
  using assms
proof (induction "backlog db" arbitrary: db rule: less_induct)
  case less
  show ?case
  proof (cases "sd_intents db = []")
    case True
    then show ?thesis by (intro exI [of _ 0]) (simp add: drained_def)
  next
    case False
    let ?db = "snd (DrainConfigurationSyncIntents db stamp stampText)"
    have "\<exists>n. sd_intents (drained stamp stampText n ?db) = []"
      using drain_ok(4) [OF less.prems False] drain_ok(1) [OF less.prems] by (rule less.hyps)
    then obtain n where "sd_intents (drained stamp stampText n ?db) = []" ..
    then show ?thesis by (intro exI [of _ "Suc n"]) (simp only: drained_Suc)
  qed
qed

text \<open>C29. Draining terminates and delivers: from every reachable state finitely many drains, each with its bounded
  batches, empty the intents even when an intent was updated during its walk over the fleet, and then every
  server wants at least every revision it is owed.\<close>

theorem drains_deliver_every_change:
  assumes "sync_step\<^sup>*\<^sup>* initial_sync w"
  shows "\<exists>n. sd_intents (drained stamp stampText n (sw_db w)) = [] \<and>
    (\<forall>(i, r) \<in> set (sw_owed w). r \<le> wanted (drained stamp stampText n (sw_db w)) i)"
proof -
  note inv = cs.reached_inv [OF refl assms]
  note ok = sync_invD(1) [OF inv]
  obtain n where n: "sd_intents (drained stamp stampText n (sw_db w)) = []" using drains_finish [OF ok] ..
  have "r \<le> wanted (drained stamp stampText n (sw_db w)) i" if "(i, r) \<in> set (sw_owed w)" for i r
  proof -
    have "covered (drained stamp stampText n (sw_db w)) i r"
      using drained_ok [OF ok, of stamp stampText n] sync_invD(2,3) [OF inv that] by simp
    then show ?thesis by (rule coveredE) (simp_all add: n)
  qed
  with n show ?thesis by blast
qed

theorem drains_deliver_every_change_witness:
  "\<exists>n. sd_intents (drained 5 ''t'' n (sw_db demo_changed)) = [] \<and> 1 \<le> wanted (drained 5 ''t'' n (sw_db demo_changed)) 1"
  using drains_deliver_every_change [OF demo_changed_reached, of 5 "''t''"] by (auto simp: demo_changed_def)

lemma policy_outstanding_lookup:
  "gomap_ok (sd_flags db) \<Longrightarrow>
   policy_outstanding db k \<longleftrightarrow> (case map_of (sd_flags db) k of Some f \<Rightarrow> df_Revision f > df_AppliedRevision f | None \<Rightarrow> False)"
proof -
  assume g: "gomap_ok (sd_flags db)"
  have "policy_outstanding db k \<longleftrightarrow> (\<exists>f. (k, f) \<in> set (sd_flags db) \<and> df_Revision f > df_AppliedRevision f)"
    by (auto simp: policy_outstanding_def list_ex_iff)
  then show ?thesis unfolding map_of_eq_Some_iff [OF g, symmetric] by (auto split: option.split)
qed

text \<open>A delivery policy that was saved after a deployment had been prepared is not confirmed by that
  deployment: when the task succeeds, the policy is still outstanding and the server goes back to pending
  instead of synced. When the captured policy is the newest one, the server is synced.\<close>

theorem late_policy_stays_outstanding:
  assumes s: "map_of (sd_states db) i = Some s" and flight: "in_flight i version i s"
    and f: "map_of (sd_flags db) i = Some f" and g: "gomap_ok (sd_flags db)"
    and cap: "df_ProcessingConfigVersion f = version" "df_ProcessingRevision f \<le> cf_WantedRevision s"
    and order: "df_AppliedRevision f \<le> df_ProcessingRevision f" "df_ProcessingRevision f \<le> df_Revision f"
    and db': "db' = MarkConfigurationSyncResult db i version True e now"
  shows "\<exists>s' f'. map_of (sd_states db') i = Some s' \<and> map_of (sd_flags db') i = Some f' \<and>
    df_AppliedRevision f' = df_ProcessingRevision f \<and>
    cf_State s' = (if df_ProcessingRevision f < df_Revision f then ''pending'' else ''synced'')"
proof -
  let ?p = "\<lambda>k f. k = i \<and> df_ProcessingConfigVersion f = version \<and>
     list_ex (\<lambda>(k, s). in_flight i version k s \<and> cf_WantedRevision s \<ge> df_ProcessingRevision f) (sd_states db)"
  let ?flags = "sql_update ?p (\<lambda>f. f\<lparr>df_AppliedRevision := max (df_AppliedRevision f) (df_ProcessingRevision f)\<rparr>) (sd_flags db)"
  let ?f = "f\<lparr>df_AppliedRevision := df_ProcessingRevision f\<rparr>"
  have "?p i f" using map_of_mem [OF s] flight cap by (auto simp: list_ex_iff)
  then have f': "map_of ?flags i = Some ?f" using f order(1) by (simp add: sql_update_lookup max_absorb2)
  have out: "policy_outstanding (db\<lparr>sd_flags := ?flags\<rparr>) i \<longleftrightarrow> df_ProcessingRevision f < df_Revision f"
    using policy_outstanding_lookup [of "db\<lparr>sd_flags := ?flags\<rparr>" i] g f' by simp
  have fl: "sd_flags db' = ?flags" by (simp add: db' MarkConfigurationSyncResult_def Let_def update_states_def)
  have "map_of (sd_states db') i = Some (s\<lparr>cf_State := (if df_ProcessingRevision f < df_Revision f then ''pending'' else ''synced''),
      cf_LastError := [], cf_Problems := [], cf_NextRetryAt := None, cf_UpdatedAt := now\<rparr>)"
    using s flight out by (simp add: db' MarkConfigurationSyncResult_def Let_def update_states_def sql_update_lookup)
  with fl f' show ?thesis by simp
qed

definition demo_row :: ConfigurationSyncState where
  "demo_row = (pending_row 1 4 2)\<lparr>cf_State := ''queued'', cf_LastConfigVersion := 9\<rparr>"

definition demo_flags :: ServerDeliveryFlags where
  "demo_flags = (defaultServerDeliveryFlags 1)\<lparr>df_Revision := 5, df_ProcessingRevision := 4, df_ProcessingConfigVersion := 9\<rparr>"

definition demo_queued :: sync_db where
  "demo_queued = empty_db\<lparr>sd_states := [(1, demo_row)], sd_flags := [(1, demo_flags)]\<rparr>"

theorem late_policy_stays_outstanding_witness:
  "\<exists>s' f'. map_of (sd_states (MarkConfigurationSyncResult demo_queued 1 9 True [] 7)) 1 = Some s' \<and>
    map_of (sd_flags (MarkConfigurationSyncResult demo_queued 1 9 True [] 7)) 1 = Some f' \<and>
    df_AppliedRevision f' = 4 \<and> cf_State s' = ''pending''"
proof -
  have f: "df_ProcessingConfigVersion demo_flags = 9" "df_ProcessingRevision demo_flags = 4" "df_AppliedRevision demo_flags = 0"
    "df_Revision demo_flags = 5" by (simp_all add: demo_flags_def defaultServerDeliveryFlags_def)
  have w: "cf_WantedRevision demo_row = 4" "in_flight 1 9 1 demo_row" by (simp_all add: demo_row_def pending_row_def in_flight_def)
  have m: "map_of (sd_states demo_queued) 1 = Some demo_row" "map_of (sd_flags demo_queued) 1 = Some demo_flags" "gomap_ok (sd_flags demo_queued)"
    by (simp_all add: demo_queued_def)
  show ?thesis
    using late_policy_stays_outstanding [OF m(1) w(2) m(2,3) f(1) _ _ _ refl, of "[]" 7] unfolding f w by simp
qed

text \<open>A failed preparation is retried with a bounded exponential delay and a bounded number of times: the row
  becomes failed with one more retry, the next attempt is between one and thirty seconds away, and the row is
  listed for the reconciler exactly when that time has come, no task was ever queued for it and fewer than
  six attempts failed.\<close>

theorem preparation_failure_backs_off:
  assumes s: "map_of (sd_states db) i = Some s" and "claimed_at i revision i s"
    and db': "db' = snd (MarkConfigurationSyncPreparationFailure db i revision e [] now)"
  shows "\<exists>s' t. map_of (sd_states db') i = Some s' \<and> cf_State s' = ''failed'' \<and> cf_RetryCount s' = cf_RetryCount s + 1 \<and>
    cf_NextRetryAt s' = Some t \<and> now + second \<le> t \<and> t \<le> now + 30 * second \<and>
    (reconcilable later s' \<longleftrightarrow> cf_LastConfigVersion s = 0 \<and> cf_RetryCount s + 1 < 6 \<and> \<not> sql_time_less later t)"
proof -
  let ?t = "now + retry_backoff (cf_RetryCount s + 1)"
  have "second * 2 ^ 0 \<le> second * 2 ^ min (cf_RetryCount s) 5"
    by (intro mult_left_mono power_increasing) (simp_all add: go_defs)
  then have t: "now + second \<le> ?t" "?t \<le> now + 30 * second" by (simp_all add: retry_backoff_def Let_def go_defs)
  show ?thesis
    using assms(1,2) t by (intro exI [of _ "the (map_of (sd_states db') i)"] exI [of _ ?t])
      (simp add: db' MarkConfigurationSyncPreparationFailure_def EncodeConfigurationSyncProblems_def Let_def claimed_at_def
        update_states_def sql_update_lookup reconcilable_def due_def ConfigurationSyncMaxPreparationRetries_def)
qed

definition demo_preparing :: ConfigurationSyncState where
  "demo_preparing = (pending_row 1 4 2)\<lparr>cf_State := ''preparing'', cf_RetryCount := 2\<rparr>"

definition demo_claimed :: sync_db where
  "demo_claimed = empty_db\<lparr>sd_states := [(1, demo_preparing)]\<rparr>"

theorem preparation_failure_backs_off_witness:
  "\<exists>s' t. map_of (sd_states (snd (MarkConfigurationSyncPreparationFailure demo_claimed 1 4 [] [] 7))) 1 = Some s' \<and>
    cf_RetryCount s' = 3 \<and> cf_NextRetryAt s' = Some t \<and> t \<le> 7 + 30 * second"
proof -
  have m: "map_of (sd_states demo_claimed) 1 = Some demo_preparing" by (simp add: demo_claimed_def)
  have c: "claimed_at 1 4 1 demo_preparing" "cf_RetryCount demo_preparing + 1 = 3"
    by (simp_all add: demo_preparing_def pending_row_def claimed_at_def)
  show ?thesis using preparation_failure_backs_off [OF m c(1) refl, of "[]" 7 0] unfolding c(2) by blast
qed

end
