(* ===== verification/Audit_Risk.thy ===== *)
theory Audit_Risk
  imports
    Complex_Main
    Oboard_Prelude
    "HOL-Library.Word"
    "HOL-Library.Signed_Division"
begin

text \<open>
  The account-level risk evaluation of \<open>internal/auditrisk\<close> (\<open>model.go\<close>), which has no state and no input but its
  arguments: the policy and its validation, the quality of the evidence, the scores and \<open>Evaluate\<close>. A \<open>big.Rat\<close> is a
  rational number; the fixed arrays of thirty minutes are lists. The lemmas show that every score is an interval of
  percentages and that narrower evidence gives narrower scores.
\<close>

section \<open>Policies and evidence\<close>

definition WindowMinutes :: nat where "WindowMinutes = 30"

type_synonym State = string

abbreviation Satisfied :: State where "Satisfied \<equiv> ''satisfied''"
abbreviation Unsatisfied :: State where "Unsatisfied \<equiv> ''unsatisfied''"
abbreviation Unknown :: State where "Unknown \<equiv> ''unknown''"

record Dimension =
  dm_State :: State
  dm_ReasonCode :: string

record Quality =
  ql_IdentityTrusted :: Dimension
  ql_SourceUsable :: Dimension
  ql_Deduplicated :: Dimension
  ql_MeasurementValid :: Dimension
  ql_CoverageComplete :: Dimension
  ql_TimeAligned :: Dimension
  ql_SourceSetComplete :: Dimension
  ql_BaselineReady :: Dimension
  ql_HistoryComplete :: Dimension
  ql_Freshness :: Dimension
  ql_CapabilitySupported :: Dimension

definition Quality_dimensions :: "Quality \<Rightarrow> Dimension list" where
  "Quality_dimensions q =
     [ql_IdentityTrusted q, ql_SourceUsable q, ql_Deduplicated q, ql_MeasurementValid q, ql_CoverageComplete q, ql_TimeAligned q,
      ql_SourceSetComplete q, ql_BaselineReady q, ql_HistoryComplete q, ql_Freshness q, ql_CapabilitySupported q]"

record Scale =
  sc_Start :: int
  sc_Full :: int

record Policy =
  po_Version :: string
  po_ActivitySources :: Scale
  po_ActivityMinutes :: Scale
  po_ExposureSources :: Scale
  po_SourceCapacity :: int
  po_MinimumBytes :: "64 word"
  po_MinimumSlices :: int

definition DefaultPolicy :: Policy where
  "DefaultPolicy =
     \<lparr>po_Version = ''account-risk-v1'', po_ActivitySources = \<lparr>sc_Start = 3, sc_Full = 8\<rparr>,
      po_ActivityMinutes = \<lparr>sc_Start = 5, sc_Full = 20\<rparr>, po_ExposureSources = \<lparr>sc_Start = 3, sc_Full = 8\<rparr>,
      po_SourceCapacity = 32, po_MinimumBytes = 16 * 1024, po_MinimumSlices = 3\<rparr>"

definition validScale :: "Scale \<Rightarrow> bool" where
  "validScale s \<longleftrightarrow> sc_Start s \<ge> 0 \<and> sc_Full s > sc_Start s"

definition Policy_Validate :: "Policy \<Rightarrow> unit result" where
  "Policy_Validate p =
     (if po_Version p = [] \<or> \<not> validScale (po_ActivitySources p) \<or> \<not> validScale (po_ActivityMinutes p) \<or>
         \<not> validScale (po_ExposureSources p) \<or> po_SourceCapacity p < 1 \<or> po_SourceCapacity p > 32 \<or>
         sc_Full (po_ActivitySources p) > po_SourceCapacity p \<or> sc_Full (po_ExposureSources p) > po_SourceCapacity p \<or>
         sc_Full (po_ActivityMinutes p) > int WindowMinutes \<or> po_MinimumBytes p = 0 \<or> po_MinimumSlices p < 1 \<or> po_MinimumSlices p > 12
      then Inl ''invalid risk policy'' else Inr ())"

record CountRange =
  rg_Lower :: int
  rg_Upper :: int

record Minute =
  mi_Start :: time
  mi_Sources :: CountRange

record Contribution =
  co_Sources :: int
  co_Minutes :: int
  co_SourceThresholds :: Scale
  co_DurationThresholds :: Scale

record Score =
  sr_Lower :: int
  sr_Upper :: int
  sr_Status :: string
  sr_Level :: string
  sr_LowerContribution :: "Contribution option"
  sr_UpperContribution :: "Contribution option"

record ResourceDimension =
  rd_Name :: string
  rd_Unit :: string
  rd_Value :: "nat option"
  rd_Start :: "nat option"
  rd_Full :: "nat option"

record Features =
  fe_AccountID :: int
  fe_Activity :: "Minute list"
  fe_ExposureActivity :: "Minute list"
  fe_NovelRepeatedSources :: CountRange
  fe_Resources :: "ResourceDimension list"
  fe_DataRevision :: nat
  fe_EvidenceCutoff :: time

record Versions =
  ve_Model :: string
  ve_Baseline :: string
  ve_Source :: string

record Snapshot =
  sn_AccountID :: int
  sn_Activity :: "Score option"
  sn_Exposure :: "Score option"
  sn_Resource :: "Score option"
  sn_Attention :: "Score option"
  sn_Quality :: Quality
  sn_Features :: Features
  sn_Policy :: Policy
  sn_Versions :: Versions
  sn_AsOf :: time
  sn_WindowStart :: time
  sn_WindowEnd :: time
  sn_Status :: string
  sn_AutomaticActionEligible :: bool
  sn_ActionBlockReasons :: "string list"

section \<open>Scores\<close>

definition normalized :: "int \<Rightarrow> Scale \<Rightarrow> rat" where
  "normalized x s =
     (if x \<le> sc_Start s then 0
      else if x \<ge> sc_Full s then 1
      else Fract (x - sc_Start s) (sc_Full s - sc_Start s))"

definition halfUp :: "rat \<Rightarrow> int" where
  "halfUp r = (case quotient_of r of (num, denom) \<Rightarrow> (num * 200 + denom) sdiv (denom * 2))"

definition level :: "int \<Rightarrow> string" where
  "level n = (if n \<ge> 90 then ''very_high'' else if n \<ge> 70 then ''high'' else if n \<ge> 40 then ''medium'' else ''low'')"

definition score :: "rat \<Rightarrow> rat \<Rightarrow> Score" where
  "score lo hi =
     \<lparr>sr_Lower = halfUp lo, sr_Upper = halfUp hi, sr_Status = (if lo \<noteq> hi then ''range'' else ''complete''),
      sr_Level = (if lo \<noteq> hi then ''uncertain'' else level (halfUp lo)), sr_LowerContribution = None, sr_UpperContribution = None\<rparr>"

definition minute_count :: "bool \<Rightarrow> Minute \<Rightarrow> int" where
  "minute_count upper m = (if upper then rg_Upper (mi_Sources m) else rg_Lower (mi_Sources m))"

definition activity_step :: "Minute list \<Rightarrow> Policy \<Rightarrow> bool \<Rightarrow> int \<Rightarrow> rat \<times> Contribution option \<Rightarrow> rat \<times> Contribution option" where
  "activity_step minutes p upper k acc =
     (let d = int (length (filter (\<lambda>m. minute_count upper m \<ge> k) minutes));
          v = normalized k (po_ActivitySources p) * normalized d (po_ActivityMinutes p)
      in if v > fst acc
         then (v, Some \<lparr>co_Sources = k, co_Minutes = d, co_SourceThresholds = po_ActivitySources p, co_DurationThresholds = po_ActivityMinutes p\<rparr>)
         else acc)"

definition activity :: "Minute list \<Rightarrow> Policy \<Rightarrow> bool \<Rightarrow> rat \<times> Contribution option" where
  "activity minutes p upper =
     fold (activity_step minutes p upper) [sc_Start (po_ActivitySources p) + 1 .. sc_Full (po_ActivitySources p)] (0, None)"

definition activityBounds :: "Minute list \<Rightarrow> Policy \<Rightarrow> rat \<times> rat \<times> Score" where
  "activityBounds m p =
     (case activity m p False of (lo, lc) \<Rightarrow>
        (case activity m p True of (hi, hc) \<Rightarrow>
           (lo, hi, (score lo hi)\<lparr>sr_LowerContribution := lc, sr_UpperContribution := hc\<rparr>)))"

fun validateMinutes_from :: "nat \<Rightarrow> Minute list \<Rightarrow> time \<Rightarrow> int \<Rightarrow> unit result" where
  "validateMinutes_from i [] ends capacity = Inr ()"
| "validateMinutes_from i (v # m) ends capacity =
     (if mi_Start v \<noteq> ends + (int i - int WindowMinutes) * minute \<or> rg_Lower (mi_Sources v) < 0 \<or>
         rg_Upper (mi_Sources v) < rg_Lower (mi_Sources v) \<or> rg_Upper (mi_Sources v) > capacity
      then Inl (''invalid minute '' @ FormatInt (int i))
      else validateMinutes_from (i + 1) m ends capacity)"

definition validateMinutes :: "Minute list \<Rightarrow> time \<Rightarrow> int \<Rightarrow> unit result" where
  "validateMinutes m ends capacity = validateMinutes_from 0 m ends capacity"

definition maxRat :: "rat \<Rightarrow> rat \<Rightarrow> rat" where
  "maxRat a b = (if a \<ge> b then a else b)"

text \<open>The loop over the resource dimensions, with the accumulated bounds, the known ones and the names seen.\<close>

definition resource_value :: "nat \<Rightarrow> nat \<Rightarrow> nat \<Rightarrow> rat" where
  "resource_value v start full =
     (if v \<ge> full then 1 else if v > start then Fract (int (v - start)) (int (full - start)) else 0)"

fun resource_loop :: "ResourceDimension list \<Rightarrow> rat \<Rightarrow> rat \<Rightarrow> nat \<Rightarrow> string list \<Rightarrow> (rat \<times> rat \<times> nat) result" where
  "resource_loop [] lo hi known seen = Inr (lo, hi, known)"
| "resource_loop (d # ds) lo hi known seen =
     (if rd_Name d \<notin> {''request_rate'', ''connections'', ''traffic_rate''} \<or> rd_Unit d = [] \<or> rd_Name d \<in> set seen
      then Inl ''invalid resource dimension''
      else if (rd_Start d = None) \<noteq> (rd_Full d = None) then Inl ''incomplete resource thresholds''
      else
        (case (rd_Value d, rd_Start d, rd_Full d) of
           (Some v, Some start, Some full) \<Rightarrow>
             if full \<le> start then Inl ''invalid resource thresholds''
             else
               (let r = resource_value v start full
                in resource_loop ds (maxRat lo r) (maxRat hi r) (known + 1) (rd_Name d # seen))
         | (None, Some start, Some full) \<Rightarrow>
             if full \<le> start then Inl ''invalid resource thresholds'' else resource_loop ds lo 1 known (rd_Name d # seen)
         | _ \<Rightarrow> resource_loop ds lo 1 known (rd_Name d # seen)))"

definition resource :: "ResourceDimension list \<Rightarrow> Score option result" where
  "resource ds =
     (if length ds > 3 then Inl ''at most three resource dimensions''
      else (case resource_loop ds 0 0 0 [] of
              Inl e \<Rightarrow> Inl e
            | Inr (lo, hi, known) \<Rightarrow>
                if known = 0 then Inr None
                else (let hi = (if length ds < 3 then 1 else hi) in Inr (Some (score lo hi)))))"

section \<open>Evaluation\<close>

definition exposure :: "Policy \<Rightarrow> int \<Rightarrow> rat \<Rightarrow> rat" where
  "exposure p n m = (1 + m) / 2 * normalized n (po_ExposureSources p)"

definition initial_snapshot :: "Features \<Rightarrow> Quality \<Rightarrow> Policy \<Rightarrow> Versions \<Rightarrow> time \<Rightarrow> Snapshot" where
  "initial_snapshot f q p v asOf =
     (let ends = asOf - asOf mod minute
      in \<lparr>sn_AccountID = fe_AccountID f, sn_Activity = None, sn_Exposure = None, sn_Resource = None, sn_Attention = None,
          sn_Quality = q, sn_Features = f, sn_Policy = p, sn_Versions = v, sn_AsOf = asOf,
          sn_WindowStart = ends - int WindowMinutes * minute, sn_WindowEnd = ends, sn_Status = ''not_evaluable'',
          sn_AutomaticActionEligible = False, sn_ActionBlockReasons = [''behavior_alert_only'']\<rparr>)"

text \<open>The scores, once the evidence is trusted.\<close>

definition evaluate_scores :: "Features \<Rightarrow> Quality \<Rightarrow> Policy \<Rightarrow> Snapshot \<Rightarrow> Snapshot" where
  "evaluate_scores f q p s =
     (let unsupported = dm_State (ql_CapabilitySupported q) = Unsatisfied;
          minutes = (if unsupported
                     then map (\<lambda>m. m\<lparr>mi_Sources := \<lparr>rg_Lower = 0, rg_Upper = sc_Full (po_ActivitySources p)\<rparr>\<rparr>) (fe_Activity f)
                     else fe_Activity f);
          (al, ah, a) = activityBounds minutes p;
          (ml, mh, _) = activityBounds (fe_ExposureActivity f) p;
          (ml, mh) = (if unsupported then (0, 1) else (ml, mh));
          n = (if dm_State (ql_HistoryComplete q) \<noteq> Satisfied
               then \<lparr>rg_Lower = 0, rg_Upper = sc_Full (po_ExposureSources p)\<rparr> else fe_NovelRepeatedSources f);
          el = exposure p (rg_Lower n) ml;
          eh = exposure p (rg_Upper n) mh;
          s = s\<lparr>sn_Activity := Some a, sn_Exposure := Some (score el eh), sn_Attention := Some (score (maxRat al el) (maxRat ah eh)),
                sn_Status := ''evaluated''\<rparr>
      in if dm_State (ql_Freshness q) \<noteq> Satisfied
         then s\<lparr>sn_Status := ''stale'', sn_ActionBlockReasons := sn_ActionBlockReasons s @ [''evidence_not_fresh'']\<rparr> else s)"

text \<open>The snapshot is returned with or without an error.\<close>

definition Evaluate :: "Features \<Rightarrow> Quality \<Rightarrow> Policy \<Rightarrow> Versions \<Rightarrow> time \<Rightarrow> Snapshot \<times> string option" where
  "Evaluate f q p v asOf =
     (let s = initial_snapshot f q p v asOf; n = fe_NovelRepeatedSources f in
      case Policy_Validate p of
        Inl e \<Rightarrow> (s, Some e)
      | Inr _ \<Rightarrow>
          if fe_AccountID f \<le> 0 \<or> IsZero asOf \<or> ve_Model v = [] \<or> ve_Baseline v = [] \<or> ve_Source v = [] \<or>
             IsZero (fe_EvidenceCutoff f) \<or> fe_EvidenceCutoff f > asOf
          then (s, Some ''invalid evaluation identity, versions or time'')
          else if list_ex (\<lambda>d. dm_State d \<notin> {Satisfied, Unsatisfied, Unknown} \<or> dm_ReasonCode d = []) (Quality_dimensions q)
          then (s, Some ''invalid quality dimension'')
          else (case validateMinutes (fe_Activity f) (sn_WindowEnd s) (po_SourceCapacity p) of
             Inl e \<Rightarrow> (s, Some e)
           | Inr _ \<Rightarrow> (case validateMinutes (fe_ExposureActivity f) (sn_WindowEnd s) (po_SourceCapacity p) of
             Inl e \<Rightarrow> (s, Some e)
           | Inr _ \<Rightarrow>
               if rg_Lower n < 0 \<or> rg_Upper n < rg_Lower n \<or> rg_Upper n > po_SourceCapacity p
               then (s, Some ''invalid novelty bounds'')
               else (case resource (fe_Resources f) of
                  Inl e \<Rightarrow> (s, Some e)
                | Inr r \<Rightarrow>
                    (let s = s\<lparr>sn_Resource := r\<rparr> in
                     case filter (\<lambda>d. dm_State d \<noteq> Satisfied)
                            [ql_IdentityTrusted q, ql_SourceUsable q, ql_Deduplicated q, ql_MeasurementValid q, ql_TimeAligned q] of
                       d # _ \<Rightarrow> (s\<lparr>sn_ActionBlockReasons := sn_ActionBlockReasons s @ [dm_ReasonCode d]\<rparr>, None)
                     | [] \<Rightarrow> (evaluate_scores f q p s, None))))))"

section \<open>Scores are percentages\<close>

lemma normalized_between:
  assumes "sc_Start s < x" and "x < sc_Full s"
  shows "normalized x s = of_int (x - sc_Start s) / of_int (sc_Full s - sc_Start s)"
  using assms by (simp add: normalized_def Fract_of_int_quotient)

lemma normalized_range:
  assumes "validScale s"
  shows "0 \<le> normalized x s" and "normalized x s \<le> 1"
proof -
  have "0 \<le> normalized x s \<and> normalized x s \<le> 1"
  proof (cases "x \<le> sc_Start s \<or> x \<ge> sc_Full s")
    case True
    then show ?thesis by (auto simp: normalized_def)
  next
    case False
    then show ?thesis by (subst (1 2) normalized_between) (auto simp: divide_le_eq)
  qed
  then show "0 \<le> normalized x s" and "normalized x s \<le> 1" by simp_all
qed

lemma normalized_mono:
  assumes v: "validScale s" and "x \<le> y"
  shows "normalized x s \<le> normalized y s"
proof -
  consider "x \<le> sc_Start s" | "sc_Full s \<le> y" | "sc_Start s < x" "y < sc_Full s" by linarith
  then show ?thesis
  proof cases
    case 1
    then have "normalized x s = 0" by (simp add: normalized_def)
    then show ?thesis using normalized_range(1) [OF v] by simp
  next
    case 2
    then have "normalized y s = 1" using v by (simp add: normalized_def validScale_def)
    then show ?thesis using normalized_range(2) [OF v] by simp
  next
    case 3
    with assms(2) have "sc_Start s < y" "x < sc_Full s" by simp_all
    with 3 assms(2) show ?thesis by (simp add: normalized_between divide_right_mono)
  qed
qed

lemma halfUp_floor:
  assumes "0 \<le> r"
  shows "halfUp r = \<lfloor>100 * r + 1 / 2\<rfloor>"
proof -
  obtain n d where q: "quotient_of r = (n, d)" by (cases "quotient_of r")
  have d: "0 < d" and r: "r = of_int n / of_int d" using quotient_of_denom_pos [OF q] quotient_of_div [OF q] by simp_all
  have n: "0 \<le> n" using assms d by (simp add: r zero_le_divide_iff)
  have "100 * r + 1 / 2 = of_int (n * 200 + d) / of_int (d * 2)" using d by (simp add: r field_simps)
  then have "\<lfloor>100 * r + 1 / 2\<rfloor> = (n * 200 + d) div (d * 2)" by (simp only: floor_divide_of_int_eq)
  moreover have "(n * 200 + d) sdiv (d * 2) = (n * 200 + d) div (d * 2)"
    using n d by (simp add: signed_divide_int_def sgn_if)
  ultimately show ?thesis by (simp add: halfUp_def q)
qed

lemma halfUp_mono: "0 \<le> a \<Longrightarrow> a \<le> b \<Longrightarrow> halfUp a \<le> halfUp b"
  by (simp add: halfUp_floor floor_mono)

lemma halfUp_range: "0 \<le> a \<Longrightarrow> a \<le> 1 \<Longrightarrow> 0 \<le> halfUp a \<and> halfUp a \<le> 100"
proof -
  have "\<lfloor>1 / 2 :: rat\<rfloor> = 0" "\<lfloor>201 / 2 :: rat\<rfloor> = 100" by (simp_all add: floor_eq_iff)
  then show "0 \<le> a \<Longrightarrow> a \<le> 1 \<Longrightarrow> ?thesis"
    using halfUp_mono [of 0 a] halfUp_mono [of a 1] by (simp add: halfUp_floor [of 0] halfUp_floor [of 1])
qed

lemma halfUp_max: "0 \<le> a \<Longrightarrow> 0 \<le> b \<Longrightarrow> halfUp (maxRat a b) = max (halfUp a) (halfUp b)"
  using halfUp_mono [of a b] halfUp_mono [of b a] by (auto simp: maxRat_def max_def)

definition score_ok :: "Score \<Rightarrow> bool" where
  "score_ok s \<longleftrightarrow> 0 \<le> sr_Lower s \<and> sr_Lower s \<le> sr_Upper s \<and> sr_Upper s \<le> 100"

lemma score_bounds:
  assumes "0 \<le> lo" "lo \<le> hi" "hi \<le> 1"
  shows "score_ok (score lo hi)"
  using assms halfUp_range [of lo] halfUp_range [of hi] halfUp_mono [of lo hi] by (simp add: score_ok_def score_def)

subsection \<open>Activity\<close>

definition activity_value :: "Minute list \<Rightarrow> Policy \<Rightarrow> bool \<Rightarrow> int \<Rightarrow> rat" where
  "activity_value minutes p upper k =
     normalized k (po_ActivitySources p) * normalized (int (length (filter (\<lambda>m. minute_count upper m \<ge> k) minutes))) (po_ActivityMinutes p)"

definition running_max :: "('a \<Rightarrow> rat) \<Rightarrow> 'a list \<Rightarrow> rat \<Rightarrow> rat" where
  "running_max v ks b = fold (\<lambda>k b. max b (v k)) ks b"

lemma activity_fold:
  "fst (fold (activity_step m p u) ks acc) = running_max (activity_value m p u) ks (fst acc)"
  unfolding running_max_def by (induction ks arbitrary: acc) (auto simp: activity_step_def activity_value_def Let_def max_def)

lemma activity_fst:
  "fst (activity m p u) = running_max (activity_value m p u) [sc_Start (po_ActivitySources p) + 1 .. sc_Full (po_ActivitySources p)] 0"
  by (simp add: activity_def activity_fold)

lemma running_max_mono: "(\<And>k. v k \<le> v' k) \<Longrightarrow> b \<le> b' \<Longrightarrow> running_max v ks b \<le> running_max v' ks b'"
  unfolding running_max_def
proof (induction ks arbitrary: b b')
  case (Cons k ks)
  have "max b (v k) \<le> max b' (v' k)" using Cons.prems by (intro max.mono) auto
  with Cons.IH [of "max b (v k)" "max b' (v' k)"] Cons.prems(1) show ?case by simp
qed simp

lemma running_max_range: "(\<And>k. 0 \<le> v k \<and> v k \<le> 1) \<Longrightarrow> 0 \<le> b \<Longrightarrow> b \<le> 1 \<Longrightarrow> 0 \<le> running_max v ks b \<and> running_max v ks b \<le> 1"
  unfolding running_max_def by (induction ks arbitrary: b) (simp_all add: max_def)

definition policy_ok :: "Policy \<Rightarrow> bool" where
  "policy_ok p \<longleftrightarrow> validScale (po_ActivitySources p) \<and> validScale (po_ActivityMinutes p) \<and> validScale (po_ExposureSources p)"

lemma Validate_ok: "Policy_Validate p = Inr u \<Longrightarrow> policy_ok p"
  by (simp add: Policy_Validate_def policy_ok_def split: if_splits)

lemma activity_range:
  assumes "policy_ok p"
  shows "0 \<le> fst (activity m p u)" and "fst (activity m p u) \<le> 1"
proof -
  have "0 \<le> activity_value m p u k \<and> activity_value m p u k \<le> 1" for k
    using assms normalized_range by (simp add: activity_value_def policy_ok_def mult_le_one)
  then show "0 \<le> fst (activity m p u)" and "fst (activity m p u) \<le> 1"
    unfolding activity_fst by (simp_all add: running_max_range)
qed

text \<open>More sources in a minute can only raise the value.\<close>

lemma activity_mono:
  assumes "policy_ok p" and "list_all2 (\<lambda>a b. minute_count u a \<le> minute_count u' b) m m'"
  shows "fst (activity m p u) \<le> fst (activity m' p u')"
proof -
  have count: "length (filter (\<lambda>a. k \<le> minute_count u a) m) \<le> length (filter (\<lambda>b. k \<le> minute_count u' b) m')" for k
    using assms(2) by (induction rule: list_all2_induct) auto
  have "activity_value m p u k \<le> activity_value m' p u' k" for k
    unfolding activity_value_def using assms(1) count [of k]
    by (intro mult_left_mono normalized_mono normalized_range) (simp_all add: policy_ok_def)
  then show ?thesis unfolding activity_fst by (intro running_max_mono) simp_all
qed

subsection \<open>The evaluated snapshot\<close>

text \<open>The two bounds of the activity and of the exposure, the lower ones with \<open>u = False\<close>.\<close>

definition activity_bound :: "Features \<Rightarrow> Quality \<Rightarrow> Policy \<Rightarrow> bool \<Rightarrow> rat" where
  "activity_bound f q p u =
     fst (activity
       (if dm_State (ql_CapabilitySupported q) = Unsatisfied
        then map (\<lambda>m. m\<lparr>mi_Sources := \<lparr>rg_Lower = 0, rg_Upper = sc_Full (po_ActivitySources p)\<rparr>\<rparr>) (fe_Activity f)
        else fe_Activity f) p u)"

definition novelty_bound :: "Features \<Rightarrow> Quality \<Rightarrow> Policy \<Rightarrow> bool \<Rightarrow> int" where
  "novelty_bound f q p u =
     (if dm_State (ql_HistoryComplete q) \<noteq> Satisfied then (if u then sc_Full (po_ExposureSources p) else 0)
      else if u then rg_Upper (fe_NovelRepeatedSources f) else rg_Lower (fe_NovelRepeatedSources f))"

definition update_bound :: "Features \<Rightarrow> Quality \<Rightarrow> Policy \<Rightarrow> bool \<Rightarrow> rat" where
  "update_bound f q p u =
     (if dm_State (ql_CapabilitySupported q) = Unsatisfied then of_bool u else fst (activity (fe_ExposureActivity f) p u))"

definition exposure_bound :: "Features \<Rightarrow> Quality \<Rightarrow> Policy \<Rightarrow> bool \<Rightarrow> rat" where
  "exposure_bound f q p u = exposure p (novelty_bound f q p u) (update_bound f q p u)"

lemma evaluate_scores_fields:
  fixes f q p
  defines "A \<equiv> activity_bound f q p" and "E \<equiv> exposure_bound f q p"
  shows "\<exists>a. sn_Activity (evaluate_scores f q p s) = Some a \<and> sr_Lower a = halfUp (A False) \<and> sr_Upper a = halfUp (A True)"
    and "sn_Exposure (evaluate_scores f q p s) = Some (score (E False) (E True))"
    and "sn_Attention (evaluate_scores f q p s) = Some (score (maxRat (A False) (E False)) (maxRat (A True) (E True)))"
    and "sn_Resource (evaluate_scores f q p s) = sn_Resource s"
  unfolding A_def E_def
  by (simp_all add: evaluate_scores_def activityBounds_def Let_def split_beta score_def
        activity_bound_def exposure_bound_def update_bound_def novelty_bound_def)

definition range_ok :: "CountRange \<Rightarrow> bool" where
  "range_ok r \<longleftrightarrow> 0 \<le> rg_Lower r \<and> rg_Lower r \<le> rg_Upper r"

definition evidence_ok :: "Features \<Rightarrow> bool" where
  "evidence_ok f \<longleftrightarrow> list_all (range_ok \<circ> mi_Sources) (fe_Activity f) \<and>
     list_all (range_ok \<circ> mi_Sources) (fe_ExposureActivity f) \<and> range_ok (fe_NovelRepeatedSources f)"

lemma validateMinutes_from_ok: "validateMinutes_from i m t c = Inr u \<Longrightarrow> list_all (range_ok \<circ> mi_Sources) m"
  by (induction m arbitrary: i) (auto simp: range_ok_def split: if_splits)

text \<open>The checks an evaluation without an error has passed, and what it then returns.\<close>

definition evaluated :: "Features \<Rightarrow> Quality \<Rightarrow> Policy \<Rightarrow> Snapshot \<Rightarrow> Snapshot" where
  "evaluated f q p s =
     (case filter (\<lambda>d. dm_State d \<noteq> Satisfied)
             [ql_IdentityTrusted q, ql_SourceUsable q, ql_Deduplicated q, ql_MeasurementValid q, ql_TimeAligned q] of
        d # _ \<Rightarrow> s\<lparr>sn_ActionBlockReasons := sn_ActionBlockReasons s @ [dm_ReasonCode d]\<rparr>
      | [] \<Rightarrow> evaluate_scores f q p s)"

lemma Evaluate_ok:
  assumes ev: "Evaluate f q p v t = (s, None)"
  shows "\<exists>r. policy_ok p \<and> evidence_ok f \<and> resource (fe_Resources f) = Inr r \<and>
     s = evaluated f q p ((initial_snapshot f q p v t)\<lparr>sn_Resource := r\<rparr>)"
proof -
  note E = ev [unfolded Evaluate_def Let_def]
  obtain u where P: "Policy_Validate p = Inr u" using E by (cases "Policy_Validate p") simp_all
  note E = E [unfolded P sum.case]
  define w where "w = sn_WindowEnd (initial_snapshot f q p v t)"
  obtain u1 where V1: "validateMinutes (fe_Activity f) w (po_SourceCapacity p) = Inr u1"
    using E unfolding w_def [symmetric] by (cases "validateMinutes (fe_Activity f) w (po_SourceCapacity p)") (simp_all split: if_splits)
  obtain u2 where V2: "validateMinutes (fe_ExposureActivity f) w (po_SourceCapacity p) = Inr u2"
    using E V1 unfolding w_def [symmetric]
    by (cases "validateMinutes (fe_ExposureActivity f) w (po_SourceCapacity p)") (simp_all split: if_splits)
  note E = E [folded w_def, unfolded V1 V2 sum.case]
  have N: "range_ok (fe_NovelRepeatedSources f)" using E by (simp add: range_ok_def split: if_splits)
  obtain r where R: "resource (fe_Resources f) = Inr r" using E by (cases "resource (fe_Resources f)") (simp_all split: if_splits)
  have "s = evaluated f q p ((initial_snapshot f q p v t)\<lparr>sn_Resource := r\<rparr>)"
    using E unfolding R sum.case evaluated_def by (simp del: filter.simps split: if_splits list.splits)
  with P V1 V2 N R show ?thesis
    by (auto simp: evidence_ok_def validateMinutes_def dest: Validate_ok validateMinutes_from_ok)
qed

text \<open>One order on the counts of a bound gives the order of the values: of the lower and the upper bound
  of one evidence, and of the same bound of a wider and a narrower evidence.\<close>

definition range_count :: "bool \<Rightarrow> CountRange \<Rightarrow> int" where
  "range_count u r = (if u then rg_Upper r else rg_Lower r)"

definition minutes_le :: "bool \<Rightarrow> Minute list \<Rightarrow> bool \<Rightarrow> Minute list \<Rightarrow> bool" where
  "minutes_le u m u' m' \<longleftrightarrow> list_all2 (\<lambda>a b. minute_count u a \<le> minute_count u' b) m m'"

definition counts_le :: "bool \<Rightarrow> Features \<Rightarrow> bool \<Rightarrow> Features \<Rightarrow> bool" where
  "counts_le u f u' f' \<longleftrightarrow> (u \<longrightarrow> u') \<and> minutes_le u (fe_Activity f) u' (fe_Activity f') \<and>
     minutes_le u (fe_ExposureActivity f) u' (fe_ExposureActivity f') \<and>
     range_count u (fe_NovelRepeatedSources f) \<le> range_count u' (fe_NovelRepeatedSources f')"

lemma minutes_le_ranges: "list_all (range_ok \<circ> mi_Sources) m \<Longrightarrow> minutes_le False m True m"
  by (induction m) (simp_all add: minutes_le_def minute_count_def range_ok_def)

lemma counts_le_bounds: "evidence_ok f \<Longrightarrow> counts_le False f True f"
  by (simp add: evidence_ok_def counts_le_def minutes_le_ranges) (simp add: range_count_def range_ok_def)

definition evidence_within :: "Features \<Rightarrow> Features \<Rightarrow> bool" where
  "evidence_within f' f \<longleftrightarrow> counts_le False f False f' \<and> counts_le True f' True f"

lemma activity_bound_mono:
  assumes p: "policy_ok p" and c: "counts_le u f u' f'"
  shows "activity_bound f q p u \<le> activity_bound f' q p u'"
proof -
  have "0 \<le> sc_Full (po_ActivitySources p)" using p by (simp add: policy_ok_def validScale_def)
  with c show ?thesis unfolding activity_bound_def
    by (intro activity_mono [OF p])
      (auto simp: counts_le_def minutes_le_def minute_count_def list_all2_conv_all_nth)
qed

lemma novelty_bound_mono: "policy_ok p \<Longrightarrow> counts_le u f u' f' \<Longrightarrow> novelty_bound f q p u \<le> novelty_bound f' q p u'"
  by (auto simp: counts_le_def novelty_bound_def range_count_def policy_ok_def validScale_def split: if_splits)

lemma update_bound_mono: "policy_ok p \<Longrightarrow> counts_le u f u' f' \<Longrightarrow> update_bound f q p u \<le> update_bound f' q p u'"
  by (auto simp: update_bound_def counts_le_def minutes_le_def intro: activity_mono)

lemma update_bound_range: "policy_ok p \<Longrightarrow> 0 \<le> update_bound f q p u \<and> update_bound f q p u \<le> 1"
  by (simp add: update_bound_def activity_range)

lemma exposure_bound_mono:
  assumes p: "policy_ok p" and c: "counts_le u f u' f'"
  shows "exposure_bound f q p u \<le> exposure_bound f' q p u'"
proof -
  have e: "validScale (po_ExposureSources p)" using p by (simp add: policy_ok_def)
  show ?thesis unfolding exposure_bound_def exposure_def
    using update_bound_mono [OF p c, of q] update_bound_range [OF p, of f' q u']
    by (intro mult_mono normalized_mono [OF e] novelty_bound_mono [OF p c] normalized_range(1) [OF e]) simp_all
qed

lemma bounds_range:
  assumes "policy_ok p"
  shows "0 \<le> activity_bound f q p u" "activity_bound f q p u \<le> 1" "0 \<le> exposure_bound f q p u" "exposure_bound f q p u \<le> 1"
proof -
  have e: "validScale (po_ExposureSources p)" using assms by (simp add: policy_ok_def)
  show "0 \<le> activity_bound f q p u" "activity_bound f q p u \<le> 1"
    using assms by (simp_all add: activity_bound_def activity_range)
  show "0 \<le> exposure_bound f q p u" "exposure_bound f q p u \<le> 1"
    unfolding exposure_bound_def exposure_def using update_bound_range [OF assms, of f q u] normalized_range [OF e]
    by (intro mult_nonneg_nonneg mult_le_one; simp)+
qed

lemma maxRat_max: "maxRat a b = max a b"
  by (simp add: maxRat_def max_def)

subsection \<open>Resources\<close>

lemma resource_value_range: "start < full \<Longrightarrow> 0 \<le> resource_value v start full \<and> resource_value v start full \<le> 1"
  by (auto simp: resource_value_def Fract_of_int_quotient divide_le_eq)

lemma resource_loop_range:
  "resource_loop ds lo hi known seen = Inr (lo', hi', known') \<Longrightarrow> 0 \<le> lo \<Longrightarrow> lo \<le> hi \<Longrightarrow> hi \<le> 1 \<Longrightarrow>
     0 \<le> lo' \<and> lo' \<le> hi' \<and> hi' \<le> 1"
proof (induction ds arbitrary: lo hi known seen)
  case (Cons d ds)
  show ?case
  proof (cases "rd_Value d = None \<or> rd_Start d = None \<or> rd_Full d = None")
    case True
    with Cons.prems(1) have "resource_loop ds lo 1 known (rd_Name d # seen) = Inr (lo', hi', known')"
      by (auto split: if_splits option.splits)
    from Cons.IH [OF this] Cons.prems(2-4) show ?thesis by simp
  next
    case False
    then obtain v start full where d: "rd_Value d = Some v" "rd_Start d = Some start" "rd_Full d = Some full" by auto
    with Cons.prems(1) have sf: "start < full" by (simp split: if_splits)
    have "resource_loop ds (maxRat lo (resource_value v start full)) (maxRat hi (resource_value v start full))
        (known + 1) (rd_Name d # seen) = Inr (lo', hi', known')"
      using Cons.prems(1) d by (simp add: Let_def split: if_splits)
    from Cons.IH [OF this] resource_value_range [OF sf, of v] Cons.prems(2-4) show ?thesis
      by (simp add: maxRat_max le_max_iff_disj) linarith
  qed
qed simp

lemma resource_score_ok:
  assumes "resource ds = Inr (Some sc)"
  shows "score_ok sc"
proof -
  from assms obtain lo hi known where l: "resource_loop ds 0 0 0 [] = Inr (lo, hi, known)"
    and sc: "sc = score lo (if length ds < 3 then 1 else hi)"
    by (auto simp: resource_def Let_def split: if_splits sum.splits prod.splits)
  from resource_loop_range [OF l] have "0 \<le> lo" "lo \<le> hi" "hi \<le> 1" by simp_all
  then show ?thesis unfolding sc by (intro score_bounds) auto
qed

subsection \<open>What an evaluation promises\<close>

definition scores :: "Snapshot \<Rightarrow> Score set" where
  "scores s = set_option (sn_Activity s) \<union> set_option (sn_Exposure s) \<union> set_option (sn_Resource s) \<union> set_option (sn_Attention s)"

definition score_within :: "Score \<Rightarrow> Score \<Rightarrow> bool" where
  "score_within a b \<longleftrightarrow> sr_Lower b \<le> sr_Lower a \<and> sr_Upper a \<le> sr_Upper b"

definition attention_is_worst :: "Snapshot \<Rightarrow> bool" where
  "attention_is_worst s =
     (case (sn_Activity s, sn_Exposure s, sn_Attention s) of
        (Some a, Some e, Some t) \<Rightarrow> sr_Lower t = max (sr_Lower a) (sr_Lower e) \<and> sr_Upper t = max (sr_Upper a) (sr_Upper e)
      | (None, None, None) \<Rightarrow> True
      | _ \<Rightarrow> False)"

definition trusted :: "Quality \<Rightarrow> bool" where
  "trusted q \<longleftrightarrow> list_all (\<lambda>d. dm_State d = Satisfied)
     [ql_IdentityTrusted q, ql_SourceUsable q, ql_Deduplicated q, ql_MeasurementValid q, ql_TimeAligned q]"

lemma evaluated_trusted: "trusted q \<Longrightarrow> evaluated f q p s = evaluate_scores f q p s"
  by (simp add: evaluated_def trusted_def)

lemma evaluated_untrusted:
  assumes "\<not> trusted q"
  shows "\<exists>reasons. evaluated f q p s = s\<lparr>sn_ActionBlockReasons := reasons\<rparr>"
proof -
  have "filter (\<lambda>d. dm_State d \<noteq> Satisfied)
      [ql_IdentityTrusted q, ql_SourceUsable q, ql_Deduplicated q, ql_MeasurementValid q, ql_TimeAligned q] \<noteq> []"
    using assms unfolding trusted_def filter_empty_conv list_all_iff by simp
  then show ?thesis unfolding evaluated_def by (auto simp del: filter.simps simp: neq_Nil_conv)
qed

lemma score_ends: "sr_Lower (score lo hi) = halfUp lo" "sr_Upper (score lo hi) = halfUp hi"
  by (simp_all add: score_def)

lemma evaluate_scores_ok:
  assumes p: "policy_ok p" and f: "evidence_ok f"
  shows "\<exists>a e t. sn_Activity (evaluate_scores f q p s) = Some a \<and> sn_Exposure (evaluate_scores f q p s) = Some e \<and>
    sn_Attention (evaluate_scores f q p s) = Some t \<and> score_ok a \<and> score_ok e \<and> score_ok t \<and>
    sr_Lower t = max (sr_Lower a) (sr_Lower e) \<and> sr_Upper t = max (sr_Upper a) (sr_Upper e)"
proof -
  note F = evaluate_scores_fields [of f q p s] and B = bounds_range [OF p, of f q]
    and A = activity_bound_mono [OF p counts_le_bounds [OF f], of q] and E = exposure_bound_mono [OF p counts_le_bounds [OF f], of q]
  from F(1) obtain a where a: "sn_Activity (evaluate_scores f q p s) = Some a"
    "sr_Lower a = halfUp (activity_bound f q p False)" "sr_Upper a = halfUp (activity_bound f q p True)" by blast
  have "score_ok a" using score_bounds [of "activity_bound f q p False" "activity_bound f q p True"] A B
    by (simp add: score_ok_def a score_ends)
  moreover have "score_ok (score (exposure_bound f q p False) (exposure_bound f q p True))" using E B by (intro score_bounds)
  moreover have "score_ok (score (maxRat (activity_bound f q p False) (exposure_bound f q p False))
      (maxRat (activity_bound f q p True) (exposure_bound f q p True)))"
    unfolding maxRat_max using A E B by (intro score_bounds max.mono) (simp_all add: le_max_iff_disj)
  ultimately show ?thesis using a(1) F(2,3) B by (simp add: score_ends a(2,3) halfUp_max)
qed

definition demo_features :: "int \<Rightarrow> int \<Rightarrow> Features" where
  "demo_features lo hi =
     (let minutes = map (\<lambda>i. \<lparr>mi_Start = (10 + int i) * minute, mi_Sources = \<lparr>rg_Lower = lo, rg_Upper = hi\<rparr>\<rparr>) [0..<30]
      in \<lparr>fe_AccountID = 7, fe_Activity = minutes, fe_ExposureActivity = minutes,
          fe_NovelRepeatedSources = \<lparr>rg_Lower = lo, rg_Upper = hi\<rparr>,
          fe_Resources = [\<lparr>rd_Name = ''connections'', rd_Unit = ''n'', rd_Value = Some 30, rd_Start = Some 20, rd_Full = Some 40\<rparr>],
          fe_DataRevision = 1, fe_EvidenceCutoff = 40 * minute\<rparr>)"

definition demo_quality :: Quality where
  "demo_quality =
     (let ok = \<lparr>dm_State = Satisfied, dm_ReasonCode = ''ok''\<rparr>
      in \<lparr>ql_IdentityTrusted = ok, ql_SourceUsable = ok, ql_Deduplicated = ok, ql_MeasurementValid = ok, ql_CoverageComplete = ok,
          ql_TimeAligned = ok, ql_SourceSetComplete = ok, ql_BaselineReady = ok, ql_HistoryComplete = ok, ql_Freshness = ok,
          ql_CapabilitySupported = ok\<rparr>)"

definition demo_versions :: Versions where
  "demo_versions = \<lparr>ve_Model = ''m'', ve_Baseline = ''b'', ve_Source = ''s''\<rparr>"

definition demo_evaluation :: "int \<Rightarrow> int \<Rightarrow> Snapshot \<times> string option" where
  "demo_evaluation lo hi = Evaluate (demo_features lo hi) demo_quality DefaultPolicy demo_versions (40 * minute)"

lemma demo_accepted: "snd (demo_evaluation 4 8) = None" "snd (demo_evaluation 5 6) = None"
  by code_simp+

lemma demo_scores:
  "map_option (\<lambda>s. (sr_Lower s, sr_Upper s)) (sn_Attention (fst (demo_evaluation 4 8))) = Some (20, 100)"
  "map_option (\<lambda>s. (sr_Lower s, sr_Upper s)) (sn_Attention (fst (demo_evaluation 5 6))) = Some (40, 60)"
  by code_simp+

text \<open>C31. Every score of an accepted evaluation, of the activity, the exposure, the resources and the attention, is
  an interval of percentages, \<open>0 \<le> Lower \<le> Upper \<le> 100\<close>; the attention interval is, bound by bound, the larger
  of the activity and the exposure, although it is rounded from the larger rational and not from the rounded scores;
  and the first three of them are present or absent together.\<close>

theorem evaluation_bounds:
  assumes "Evaluate f q p v asOf = (s, None)"
  shows "(\<forall>sc. sc \<in> scores s \<longrightarrow> score_ok sc) \<and> attention_is_worst s"
proof -
  from Evaluate_ok [OF assms] obtain r where p: "policy_ok p" and f: "evidence_ok f" and r: "resource (fe_Resources f) = Inr r"
    and s: "s = evaluated f q p ((initial_snapshot f q p v asOf)\<lparr>sn_Resource := r\<rparr>)" by blast
  have ro: "sc \<in> set_option r \<Longrightarrow> score_ok sc" for sc using r resource_score_ok by (cases r) auto
  show ?thesis
  proof (cases "trusted q")
    case False
    then show ?thesis using evaluated_untrusted [OF False, of f p "(initial_snapshot f q p v asOf)\<lparr>sn_Resource := r\<rparr>"] ro
      by (auto simp: s scores_def attention_is_worst_def initial_snapshot_def Let_def)
  next
    case True
    from evaluate_scores_ok [OF p f, of q "(initial_snapshot f q p v asOf)\<lparr>sn_Resource := r\<rparr>"] ro show ?thesis
      by (auto simp: s evaluated_trusted [OF True] scores_def attention_is_worst_def evaluate_scores_fields(4))
  qed
qed

theorem evaluation_bounds_witness:
  "\<exists>s. demo_evaluation 4 8 = (s, None) \<and> (\<forall>sc. sc \<in> scores s \<longrightarrow> score_ok sc) \<and> attention_is_worst s \<and>
     map_option (\<lambda>sc. (sr_Lower sc, sr_Upper sc)) (sn_Attention s) = Some (20, 100)"
proof -
  have e: "demo_evaluation 4 8 = (fst (demo_evaluation 4 8), None)" using demo_accepted(1) by (simp add: prod_eq_iff)
  show ?thesis using evaluation_bounds [OF e [unfolded demo_evaluation_def]] demo_scores(1) e
    by (intro exI [of _ "fst (demo_evaluation 4 8)"]) (simp add: demo_evaluation_def)
qed

text \<open>C30. The evaluation is sound for uncertain evidence: when an account's counts are known more precisely (every
  minute interval, every post-update minute interval and the novelty interval is contained in the former one) the
  new activity, exposure and attention intervals are contained in the former ones, so that a published interval
  holds for whatever the exact counts turn out to be.\<close>

theorem narrower_evidence_narrows_scores:
  assumes ev: "Evaluate f q p v asOf = (s, None)" and ev': "Evaluate f' q p v' asOf' = (s', None)"
    and w: "evidence_within f' f" and t: "trusted q"
  shows "\<exists>a a' e e' t t'. sn_Activity s = Some a \<and> sn_Activity s' = Some a' \<and> score_within a' a \<and>
     sn_Exposure s = Some e \<and> sn_Exposure s' = Some e' \<and> score_within e' e \<and>
     sn_Attention s = Some t \<and> sn_Attention s' = Some t' \<and> score_within t' t"
proof -
  from Evaluate_ok [OF ev] obtain r where p: "policy_ok p" and f: "evidence_ok f"
    and s: "s = evaluated f q p ((initial_snapshot f q p v asOf)\<lparr>sn_Resource := r\<rparr>)" by blast
  from Evaluate_ok [OF ev'] obtain r' where f': "evidence_ok f'"
    and s': "s' = evaluated f' q p ((initial_snapshot f' q p v' asOf')\<lparr>sn_Resource := r'\<rparr>)" by blast
  from w have c: "counts_le False f False f'" "counts_le True f' True f" by (simp_all add: evidence_within_def)
  note A = activity_bound_mono [OF p c(1), of q] activity_bound_mono [OF p c(2), of q]
  note E = exposure_bound_mono [OF p c(1), of q] exposure_bound_mono [OF p c(2), of q]
  note B = bounds_range [OF p, of f q] bounds_range [OF p, of f' q]
  note F = evaluate_scores_fields [of f q p] and F' = evaluate_scores_fields [of f' q p]
  have "score_within (score (exposure_bound f' q p False) (exposure_bound f' q p True))
      (score (exposure_bound f q p False) (exposure_bound f q p True))"
    unfolding score_within_def score_ends using E B by (simp add: halfUp_mono)
  moreover have "score_within (score (maxRat (activity_bound f' q p False) (exposure_bound f' q p False))
         (maxRat (activity_bound f' q p True) (exposure_bound f' q p True)))
      (score (maxRat (activity_bound f q p False) (exposure_bound f q p False))
         (maxRat (activity_bound f q p True) (exposure_bound f q p True)))"
    unfolding score_within_def score_ends maxRat_max using A E B
    by (intro conjI halfUp_mono max.mono) (simp_all add: le_max_iff_disj)
  moreover have "sr_Lower a = halfUp (activity_bound f q p False) \<Longrightarrow> sr_Upper a = halfUp (activity_bound f q p True) \<Longrightarrow>
      sr_Lower a' = halfUp (activity_bound f' q p False) \<Longrightarrow> sr_Upper a' = halfUp (activity_bound f' q p True) \<Longrightarrow>
      score_within a' a" for a a'
    unfolding score_within_def using A B by (simp add: halfUp_mono)
  ultimately show ?thesis
    using F(1) [of "(initial_snapshot f q p v asOf)\<lparr>sn_Resource := r\<rparr>"] F'(1) [of "(initial_snapshot f' q p v' asOf')\<lparr>sn_Resource := r'\<rparr>"]
    unfolding s s' evaluated_trusted [OF t] F(2,3) F'(2,3) by blast
qed

theorem narrower_evidence_narrows_scores_witness:
  "\<exists>t t'. sn_Attention (fst (demo_evaluation 4 8)) = Some t \<and> sn_Attention (fst (demo_evaluation 5 6)) = Some t' \<and>
     score_within t' t \<and> (sr_Lower t', sr_Upper t') = (40, 60)"
proof -
  have e: "demo_evaluation 4 8 = (fst (demo_evaluation 4 8), None)" "demo_evaluation 5 6 = (fst (demo_evaluation 5 6), None)"
    using demo_accepted by (simp_all add: prod_eq_iff)
  have "evidence_within (demo_features 5 6) (demo_features 4 8)" "trusted demo_quality" by code_simp+
  from narrower_evidence_narrows_scores [OF e [unfolded demo_evaluation_def] this] demo_scores(2) show ?thesis
    by (auto simp: demo_evaluation_def)
qed

end
