(* ===== verification/Audit_Activity.thy ===== *)
theory Audit_Activity
  imports Audit_Risk
begin

text \<open>
  The evidence side of \<open>internal/auditrisk\<close>, the file \<open>activity.go\<close>: the aggregation of the source rows of one minute
  into the interval of sustained sources (\<open>AggregateMinute\<close>), the summary of the daily histograms of an account
  (\<open>SummarizeBaseline\<close>) and the policy adapted to it (\<open>AdaptPolicy\<close>). The counters keep their width, sixteen bits
  for the slice bitmap and a histogram cell and sixty-four for the bytes; the map of groups is an association list.
\<close>

unbundle bit_operations_syntax

section \<open>Aggregation of a minute\<close>

record SourceActivity =
  sa_SourceGroup :: string
  sa_Bitmap :: "16 word"
  sa_Bytes :: "64 word"

record Aggregation =
  ag_Sources :: CountRange
  ag_Qualified :: int
  ag_Overflow :: bool
  ag_CounterOverflow :: bool

definition activity_valid :: "SourceActivity \<Rightarrow> bool" where
  "activity_valid r \<longleftrightarrow>
     \<not> (sa_SourceGroup r = [] \<or> length (sa_SourceGroup r) > 128 \<or> sa_Bitmap r AND NOT 0xfff \<noteq> 0 \<or>
        (sa_Bytes r > 0 \<and> sa_Bitmap r = 0) \<or> (sa_Bytes r = 0 \<and> sa_Bitmap r \<noteq> 0))"

text \<open>The map of groups with the two overflow flags, row by row; the zero group stands for a missing one.\<close>

fun merge_rows :: "int \<Rightarrow> SourceActivity list \<Rightarrow> (string, SourceActivity) gomap \<Rightarrow> bool \<Rightarrow> bool \<Rightarrow>
    ((string, SourceActivity) gomap \<times> bool \<times> bool) result" where
  "merge_rows capacity [] groups overflow counter = Inr (groups, overflow, counter)"
| "merge_rows capacity (r # rows) groups overflow counter =
     (if \<not> activity_valid r then Inl ''invalid source activity''
      else if map_of groups (sa_SourceGroup r) = None \<and> int (length groups) \<ge> capacity
      then merge_rows capacity rows groups True counter
      else
        (let old = (case map_of groups (sa_SourceGroup r) of
                      Some g \<Rightarrow> g | None \<Rightarrow> \<lparr>sa_SourceGroup = [], sa_Bitmap = 0, sa_Bytes = 0\<rparr>);
             old = old\<lparr>sa_Bitmap := sa_Bitmap old OR sa_Bitmap r\<rparr>;
             full = (NOT 0 - sa_Bytes old < sa_Bytes r);
             old = old\<lparr>sa_Bytes := (if full then NOT 0 else sa_Bytes old + sa_Bytes r)\<rparr>
         in merge_rows capacity rows (AList.update (sa_SourceGroup r) old groups) overflow (counter \<or> full)))"

definition OnesCount16 :: "16 word \<Rightarrow> int" where
  "OnesCount16 w = int (length (filter (bit w) [0..<16]))"

definition group_qualifies :: "Policy \<Rightarrow> SourceActivity \<Rightarrow> bool" where
  "group_qualifies p g \<longleftrightarrow> \<not> (sa_Bytes g < po_MinimumBytes p \<or> OnesCount16 (sa_Bitmap g) < po_MinimumSlices p)"

definition slice_counts :: "SourceActivity list \<Rightarrow> int list" where
  "slice_counts gs = map (\<lambda>j. int (length (filter (\<lambda>g. sa_Bitmap g AND push_bit j 1 \<noteq> 0) gs))) [0..<12]"

text \<open>The inner loop that keeps the three largest counts in descending order.\<close>

definition push_top :: "int \<Rightarrow> int \<times> int \<times> int \<Rightarrow> int \<times> int \<times> int" where
  "push_top n best =
     (case best of (a, b, c) \<Rightarrow>
        (let (n, a) = (if n > a then (a, n) else (n, a));
             (n, b) = (if n > b then (b, n) else (n, b));
             c = (if n > c then n else c)
         in (a, b, c)))"

definition third_largest :: "int list \<Rightarrow> int" where
  "third_largest counts = snd (snd (fold push_top counts (0, 0, 0)))"

definition AggregateMinute :: "SourceActivity list \<Rightarrow> bool \<Rightarrow> Policy \<Rightarrow> Aggregation result" where
  "AggregateMinute rows whole p =
     (case Policy_Validate p of
        Inl e \<Rightarrow> Inl e
      | Inr _ \<Rightarrow>
          if length rows > 65536 then Inl ''activity input exceeds budget''
          else
            (case merge_rows (po_SourceCapacity p) rows [] False False of
               Inl e \<Rightarrow> Inl e
             | Inr (groups, overflow, counter) \<Rightarrow>
                 (let qualified = filter (group_qualifies p) (map snd groups);
                      third = third_largest (slice_counts qualified);
                      upper = (if \<not> whole \<or> overflow \<or> counter
                               then (if third > sc_Full (po_ActivitySources p) then third else sc_Full (po_ActivitySources p))
                               else third)
                  in Inr \<lparr>ag_Sources = \<lparr>rg_Lower = third, rg_Upper = upper\<rparr>, ag_Qualified = int (length qualified),
                          ag_Overflow = overflow, ag_CounterOverflow = counter\<rparr>)))"

section \<open>Baselines\<close>

record BaselineDay =
  bd_Histogram :: "16 word list"
  bd_Overflow :: bool

record Baseline =
  bl_Ready :: bool
  bl_Limited :: bool
  bl_ValidDays :: int
  bl_ActiveMinutes :: int
  bl_Q95 :: int

definition day_total :: "BaselineDay \<Rightarrow> int" where
  "day_total d = sum_list (map uint (bd_Histogram d))"

fun summarize_days :: "BaselineDay list \<Rightarrow> Baseline \<Rightarrow> int list \<Rightarrow> (Baseline \<times> int list) result" where
  "summarize_days [] b merged = Inr (b, merged)"
| "summarize_days (d # days) b merged =
     (if bd_Overflow d then summarize_days days (b\<lparr>bl_Limited := True\<rparr>) merged
      else if hd (bd_Histogram d) \<noteq> 0 then Inl ''baseline contains inactive minutes''
      else if day_total d > 1440 then Inl ''baseline day exceeds 1440 minutes''
      else if day_total d = 0 then summarize_days days b merged
      else summarize_days days
             (b\<lparr>bl_ValidDays := bl_ValidDays b + 1, bl_ActiveMinutes := bl_ActiveMinutes b + day_total d\<rparr>)
             (map2 (\<lambda>m n. m + uint n) merged (bd_Histogram d)))"

fun first_reaching :: "int list \<Rightarrow> nat \<Rightarrow> int \<Rightarrow> int \<Rightarrow> int" where
  "first_reaching [] i acc target = 0"
| "first_reaching (n # ns) i acc target = (if acc + n \<ge> target then int i else first_reaching ns (i + 1) (acc + n) target)"

definition SummarizeBaseline :: "BaselineDay list \<Rightarrow> Baseline result" where
  "SummarizeBaseline days =
     (if length days > 14 then Inl ''baseline exceeds 14 days''
      else
        (case summarize_days days \<lparr>bl_Ready = False, bl_Limited = False, bl_ValidDays = 0, bl_ActiveMinutes = 0, bl_Q95 = 0\<rparr> (replicate 33 0) of
           Inl e \<Rightarrow> Inl e
         | Inr (b, merged) \<Rightarrow>
             (let b = b\<lparr>bl_Ready := bl_ValidDays b \<ge> 7 \<and> bl_ActiveMinutes b \<ge> 200\<rparr>;
                  target = (bl_ActiveMinutes b * 95 + 99) div 100
              in Inr (b\<lparr>bl_Q95 := first_reaching merged 0 0 target\<rparr>))))"

definition AdaptPolicy :: "Policy \<Rightarrow> Baseline \<Rightarrow> (Policy \<times> bool) result" where
  "AdaptPolicy p b =
     (case Policy_Validate p of
        Inl e \<Rightarrow> Inl e
      | Inr _ \<Rightarrow>
          if \<not> bl_Ready b \<or> bl_Limited b then Inr (p, False)
          else
            (let start = max (sc_Start (po_ActivitySources p)) (bl_Q95 b + 1);
                 full = start + sc_Full (po_ActivitySources p) - sc_Start (po_ActivitySources p)
             in if full > po_SourceCapacity p then Inr (p, True)
                else Inr (p\<lparr>po_ActivitySources := \<lparr>sc_Start = start, sc_Full = full\<rparr>\<rparr>, False)))"

section \<open>The sustained count of a minute\<close>

text \<open>The loop over the slices keeps the three largest counts: they are the last three of the sorted list.\<close>

definition last3 :: "'a list \<Rightarrow> 'a list" where
  "last3 xs = drop (length xs - 3) xs"

lemma last3_Cons: "3 \<le> length xs \<Longrightarrow> last3 (x # xs) = last3 xs"
  by (simp add: last3_def drop_Cons')

lemma last3_append: "last3 (xs @ [c, b, a]) = [c, b, a]"
  by (simp add: last3_def)

lemma insort_last3:
  fixes x :: int
  assumes "sorted (pre @ [c, b, a])" and "push_top x (a, b, c) = (a', b', c')"
  shows "last3 (insort x (pre @ [c, b, a])) = [c', b', a']"
  using assms(1)
proof (induction pre)
  case Nil
  then show ?case using assms(2) by (auto simp: push_top_def last3_def split: if_splits)
next
  case (Cons y pre)
  show ?case
  proof (cases "x \<le> y")
    case True
    with Cons.prems assms(2) have "a' = a" "b' = b" "c' = c" by (auto simp: push_top_def split: if_splits)
    with True show ?thesis using last3_append [of "x # y # pre"] by simp
  next
    case False
    then show ?thesis using Cons by (simp add: last3_Cons)
  qed
qed

lemma top_three:
  "fold push_top counts (0, 0, 0) = (a, b, c) \<Longrightarrow> last3 (sort ([0, 0, 0] @ counts)) = [c, b, a]"
proof (induction counts arbitrary: a b c rule: rev_induct)
  case Nil
  then show ?case by (simp add: last3_def)
next
  case (snoc x counts)
  obtain a0 b0 c0 where f: "fold push_top counts (0, 0, 0) = (a0, b0, c0)" by (cases "fold push_top counts (0, 0, 0)") auto
  define L where "L = sort ([0, 0, 0] @ counts)"
  have l: "last3 L = [c0, b0, a0]" unfolding L_def by (rule snoc.IH [OF f])
  then obtain pre where L: "L = pre @ [c0, b0, a0]" unfolding last3_def by (metis append_take_drop_id)
  have "sorted L" by (simp add: L_def del: sort_key_simps)
  moreover have "sort ([0, 0, 0] @ counts @ [x]) = insort x L"
    unfolding L_def by (intro properties_for_sort) (simp_all add: sorted_insort del: sort_key_simps)
  moreover have "push_top x (a0, b0, c0) = (a, b, c)" using snoc.prems f by simp
  ultimately show ?case using insort_last3 [of pre c0 b0 a0 x a b c] L by simp
qed

lemma third_largest_sorted:
  assumes "\<forall>n \<in> set counts. 0 \<le> n" and "3 \<le> length counts"
  shows "third_largest counts = sort counts ! (length counts - 3)"
proof -
  obtain a b c where f: "fold push_top counts (0, 0, 0) = (a, b, c)" by (cases "fold push_top counts (0, 0, 0)") auto
  have s: "sort ([0, 0, 0] @ counts) = [0, 0, 0] @ sort counts"
    using assms(1) by (intro properties_for_sort) (auto simp: sorted_append)
  have "last3 (sort counts) = last3 (sort ([0, 0, 0] @ counts))" unfolding s using assms(2) by (simp add: last3_Cons)
  also have "\<dots> = [c, b, a]" by (rule top_three [OF f])
  finally have "last3 (sort counts) ! 0 = c" by simp
  then show ?thesis using assms(2) by (simp add: third_largest_def f last3_def)
qed

subsection \<open>Merging the rows\<close>

definition group_bytes :: "SourceActivity list \<Rightarrow> string \<Rightarrow> nat" where
  "group_bytes rows g = sum_list (map (unat \<circ> sa_Bytes) (filter (\<lambda>r. sa_SourceGroup r = g) rows))"

definition group_slices :: "SourceActivity list \<Rightarrow> string \<Rightarrow> nat set" where
  "group_slices rows g = {j. \<exists>r \<in> set rows. sa_SourceGroup r = g \<and> bit (sa_Bitmap r) j}"

definition held_bytes :: "(string, SourceActivity) gomap \<Rightarrow> string \<Rightarrow> nat" where
  "held_bytes groups g = (case map_of groups g of None \<Rightarrow> 0 | Some a \<Rightarrow> unat (sa_Bytes a))"

definition held_slices :: "(string, SourceActivity) gomap \<Rightarrow> string \<Rightarrow> nat set" where
  "held_slices groups g = (case map_of groups g of None \<Rightarrow> {} | Some a \<Rightarrow> {j. bit (sa_Bitmap a) j})"

text \<open>The saturating addition of the byte counters.\<close>

lemma word_not_zero: "unat (NOT 0 :: 64 word) = 2 ^ 64 - 1"
  by (simp add: unsigned_minus_1_eq_mask mask_eq_exp_minus_1)

lemma saturating_full:
  fixes a b :: "64 word"
  shows "NOT 0 - a < b \<longleftrightarrow> 2 ^ 64 \<le> unat a + unat b"
proof -
  have a: "unat a < 2 ^ 64" by (rule order_less_le_trans [OF unsigned_less], simp)
  have d: "unat (NOT 0 - a) = 2 ^ 64 - 1 - unat a" by (subst unat_sub) (simp_all add: word_not_zero [simplified])
  show ?thesis using a by (auto simp: word_less_nat_alt d [simplified])
qed

lemma saturating_add:
  fixes a b :: "64 word"
  shows "unat (if NOT 0 - a < b then NOT 0 else a + b) = min (2 ^ 64 - 1) (unat a + unat b)"
proof (cases "unat a + unat b < 2 ^ 64")
  case True
  then have "unat (a + b) = unat a + unat b" by (subst unat_add_lem [symmetric]) simp
  with True show ?thesis using saturating_full [of a b] by simp
next
  case False
  then show ?thesis using saturating_full [of a b] word_not_zero by simp
qed

text \<open>One row added to the map of groups.\<close>

definition held :: "(string, SourceActivity) gomap \<Rightarrow> string \<Rightarrow> SourceActivity" where
  "held groups g = (case map_of groups g of Some a \<Rightarrow> a | None \<Rightarrow> \<lparr>sa_SourceGroup = [], sa_Bitmap = 0, sa_Bytes = 0\<rparr>)"

definition counter_full :: "SourceActivity \<Rightarrow> (string, SourceActivity) gomap \<Rightarrow> bool" where
  "counter_full r groups \<longleftrightarrow> NOT 0 - sa_Bytes (held groups (sa_SourceGroup r)) < sa_Bytes r"

definition absorb :: "SourceActivity \<Rightarrow> (string, SourceActivity) gomap \<Rightarrow> (string, SourceActivity) gomap" where
  "absorb r groups =
     (let old = held groups (sa_SourceGroup r)
      in AList.update (sa_SourceGroup r)
           (old\<lparr>sa_Bitmap := sa_Bitmap old OR sa_Bitmap r,
                sa_Bytes := (if counter_full r groups then NOT 0 else sa_Bytes old + sa_Bytes r)\<rparr>) groups)"

lemma merge_rows_Cons:
  "merge_rows cap (r # rows) groups ov co =
     (if \<not> activity_valid r then Inl ''invalid source activity''
      else if map_of groups (sa_SourceGroup r) = None \<and> cap \<le> int (length groups) then merge_rows cap rows groups True co
      else merge_rows cap rows (absorb r groups) ov (co \<or> counter_full r groups))"
  by (simp add: Let_def absorb_def counter_full_def held_def [symmetric])

lemma held_bytes_alt: "held_bytes groups g = unat (sa_Bytes (held groups g))"
  by (simp add: held_bytes_def held_def split: option.splits)

lemma held_slices_alt: "held_slices groups g = {j. bit (sa_Bitmap (held groups g)) j}"
  by (simp add: held_slices_def held_def split: option.splits)

lemma absorb_other: "g \<noteq> sa_SourceGroup r \<Longrightarrow> map_of (absorb r groups) g = map_of groups g"
  by (simp add: absorb_def Let_def update_conv')

lemma absorb_own:
  "held (absorb r groups) (sa_SourceGroup r) =
     (held groups (sa_SourceGroup r))\<lparr>sa_Bitmap := sa_Bitmap (held groups (sa_SourceGroup r)) OR sa_Bitmap r,
        sa_Bytes := (if counter_full r groups then NOT 0 else sa_Bytes (held groups (sa_SourceGroup r)) + sa_Bytes r)\<rparr>"
  by (simp add: absorb_def Let_def update_conv' held_def [of "AList.update _ _ _"])

lemma absorb_bytes:
  "held_bytes (absorb r groups) g =
     (if g = sa_SourceGroup r then min (2 ^ 64 - 1) (held_bytes groups g + unat (sa_Bytes r)) else held_bytes groups g)"
proof (cases "g = sa_SourceGroup r")
  case True
  show ?thesis
    using saturating_add [of "sa_Bytes (held groups (sa_SourceGroup r))" "sa_Bytes r"]
    unfolding True held_bytes_alt absorb_own counter_full_def by simp
qed (simp add: held_bytes_def absorb_other)

lemma absorb_slices:
  "held_slices (absorb r groups) g =
     (if g = sa_SourceGroup r then held_slices groups g \<union> {j. bit (sa_Bitmap r) j} else held_slices groups g)"
proof (cases "g = sa_SourceGroup r")
  case True
  then show ?thesis by (auto simp: held_slices_alt absorb_own bit_or_iff)
qed (simp add: held_slices_def absorb_other)

lemma absorb_length: "length (absorb r groups) = length groups + of_bool (map_of groups (sa_SourceGroup r) = None)"
  by (simp add: absorb_def Let_def length_update_alist map_of_eq_None_iff)

lemma absorb_ok: "gomap_ok groups \<Longrightarrow> gomap_ok (absorb r groups)"
  by (simp add: absorb_def Let_def)

lemma merge_rows_ConsE:
  assumes "merge_rows cap (r # rows) groups ov co = Inr z"
  obtains (skipped) "map_of groups (sa_SourceGroup r) = None" "cap \<le> int (length groups)" "merge_rows cap rows groups True co = Inr z"
  | (absorbed) "map_of groups (sa_SourceGroup r) = None \<Longrightarrow> int (length groups) < cap"
      "merge_rows cap rows (absorb r groups) ov (co \<or> counter_full r groups) = Inr z"
  using assms unfolding merge_rows_Cons by (auto simp: not_le split: if_splits)

lemma merge_rows_keeps_out:
  "merge_rows cap rows groups ov co = Inr (groups', ov', co') \<Longrightarrow> map_of groups g = None \<Longrightarrow> cap \<le> int (length groups) \<Longrightarrow>
     map_of groups' g = None"
proof (induction rows arbitrary: groups ov co)
  case (Cons r rows)
  from Cons.prems(1) show ?case
  proof (cases rule: merge_rows_ConsE)
    case skipped
    with Cons.IH Cons.prems show ?thesis by blast
  next
    case absorbed
    with Cons.prems have "g \<noteq> sa_SourceGroup r" by auto
    with Cons.prems show ?thesis by (intro Cons.IH [OF absorbed(2)]) (simp_all add: absorb_other absorb_length)
  qed
qed simp

lemma merge_rows_size:
  "merge_rows cap rows groups ov co = Inr (groups', ov', co') \<Longrightarrow> gomap_ok groups \<Longrightarrow> int (length groups) \<le> cap \<Longrightarrow>
     gomap_ok groups' \<and> int (length groups') \<le> cap"
proof (induction rows arbitrary: groups ov co)
  case (Cons r rows)
  from Cons.prems(1) show ?case
  proof (cases rule: merge_rows_ConsE)
    case skipped
    with Cons.IH Cons.prems show ?thesis by blast
  next
    case absorbed
    then have "int (length (absorb r groups)) \<le> cap"
      using Cons.prems(3) by (cases "map_of groups (sa_SourceGroup r)") (simp_all add: absorb_length)
    with Cons.prems show ?thesis by (intro Cons.IH [OF absorbed(2)] absorb_ok)
  qed
qed simp

lemma group_bytes_Cons: "group_bytes (r # rows) g = (if sa_SourceGroup r = g then unat (sa_Bytes r) else 0) + group_bytes rows g"
  by (simp add: group_bytes_def)

lemma group_slices_Cons: "group_slices (r # rows) g = (if sa_SourceGroup r = g then {j. bit (sa_Bitmap r) j} else {}) \<union> group_slices rows g"
  by (auto simp: group_slices_def)

text \<open>A group that is held at the end was never turned away: it holds all its rows.\<close>

lemma merge_rows_exact:
  "merge_rows cap rows groups ov co = Inr (groups', ov', co') \<Longrightarrow> map_of groups' g \<noteq> None \<Longrightarrow> held_bytes groups g < 2 ^ 64 \<Longrightarrow>
     held_bytes groups' g = min (2 ^ 64 - 1) (held_bytes groups g + group_bytes rows g) \<and>
     held_slices groups' g = held_slices groups g \<union> group_slices rows g"
proof (induction rows arbitrary: groups ov co)
  case Nil
  then show ?case by (simp add: group_bytes_def group_slices_def)
next
  case (Cons r rows)
  from Cons.prems(1) show ?case
  proof (cases rule: merge_rows_ConsE)
    case skipped
    then have "sa_SourceGroup r \<noteq> g" using merge_rows_keeps_out [OF skipped(3), of g] Cons.prems(2) by auto
    with Cons.IH [OF skipped(3) Cons.prems(2,3)] show ?thesis by (simp add: group_bytes_Cons group_slices_Cons)
  next
    case absorbed
    have "held_bytes (absorb r groups) g < 2 ^ 64" using Cons.prems(3) by (auto simp: absorb_bytes min_def)
    from Cons.IH [OF absorbed(2) Cons.prems(2) this] show ?thesis
      by (auto simp: absorb_bytes absorb_slices group_bytes_Cons group_slices_Cons)
  qed
qed

text \<open>Without an overflow no group was turned away.\<close>

lemma merge_rows_holds_all:
  "merge_rows cap rows groups ov co = Inr (groups', ov', co') \<Longrightarrow> (ov \<longrightarrow> ov') \<and>
     (\<forall>g. map_of groups g \<noteq> None \<longrightarrow> map_of groups' g \<noteq> None) \<and>
     (\<not> ov' \<longrightarrow> (\<forall>r \<in> set rows. map_of groups' (sa_SourceGroup r) \<noteq> None))"
proof (induction rows arbitrary: groups ov co)
  case (Cons r rows)
  from Cons.prems show ?case
  proof (cases rule: merge_rows_ConsE)
    case skipped
    from Cons.IH [OF skipped(3)] show ?thesis by simp
  next
    case absorbed
    have "map_of (absorb r groups) g \<noteq> None \<longleftrightarrow> map_of groups g \<noteq> None \<or> g = sa_SourceGroup r" for g
      by (simp add: absorb_def Let_def update_conv')
    with Cons.IH [OF absorbed(2)] show ?thesis by (simp del: not_None_eq)
  qed
qed simp

lemma AggregateMinuteE:
  assumes "AggregateMinute rows whole p = Inr a"
  obtains groups overflow counter qs where "Policy_Validate p = Inr ()"
    "merge_rows (po_SourceCapacity p) rows [] False False = Inr (groups, overflow, counter)"
    "qs = filter (group_qualifies p) (map snd groups)"
    "rg_Lower (ag_Sources a) = third_largest (slice_counts qs)"
    "rg_Upper (ag_Sources a) =
       (if whole \<and> \<not> overflow \<and> \<not> counter then third_largest (slice_counts qs)
        else max (third_largest (slice_counts qs)) (sc_Full (po_ActivitySources p)))"
    "ag_Qualified a = int (length qs)" "ag_Overflow a = overflow" "ag_CounterOverflow a = counter"
proof -
  have P: "Policy_Validate p = Inr ()" using assms by (cases "Policy_Validate p") (simp_all add: AggregateMinute_def)
  note A = assms [unfolded AggregateMinute_def P sum.case]
  obtain groups overflow counter where m: "merge_rows (po_SourceCapacity p) rows [] False False = Inr (groups, overflow, counter)"
    using A by (cases "merge_rows (po_SourceCapacity p) rows [] False False") (auto split: if_splits)
  show thesis using A unfolding m Let_def by (intro that [OF P m refl]) (auto simp: max_def split: if_splits)
qed

text \<open>The groups that a minute counts: with their bytes and slices over the whole input.\<close>

definition counted :: "SourceActivity list \<Rightarrow> Policy \<Rightarrow> string \<Rightarrow> bool" where
  "counted rows p g \<longleftrightarrow> unat (po_MinimumBytes p) \<le> min (2 ^ 64 - 1) (group_bytes rows g) \<and>
     po_MinimumSlices p \<le> int (card (group_slices rows g \<inter> {..<16}))"

definition active_in :: "SourceActivity list \<Rightarrow> Policy \<Rightarrow> nat \<Rightarrow> string set" where
  "active_in rows p j = {g. counted rows p g \<and> j \<in> group_slices rows g}"

lemma length_filter_card:
  assumes "gomap_ok m"
  shows "length (filter P m) = card {k. \<exists>v. map_of m k = Some v \<and> P (k, v)}"
proof -
  have "distinct (map fst (filter P m))" using assms by (rule gomap_ok_filter)
  then have "length (filter P m) = card (set (map fst (filter P m)))" using distinct_card [of "map fst (filter P m)"] by simp
  also have "set (map fst (filter P m)) = {k. \<exists>v. map_of m k = Some v \<and> P (k, v)}" using assms by force
  finally show ?thesis .
qed

lemma slice_counts_range: "n \<in> set (slice_counts gs) \<Longrightarrow> 0 \<le> n \<and> n \<le> int (length gs)"
  by (auto simp: slice_counts_def simp del: upt.simps)

lemma slice_counts_length: "length (slice_counts gs) = 12"
  by (simp add: slice_counts_def del: upt.simps)

lemma slice_counts_third: "third_largest (slice_counts gs) = sort (slice_counts gs) ! 9"
  using third_largest_sorted [of "slice_counts gs"] slice_counts_range [of _ gs] by (simp add: slice_counts_length)

lemma bit_test: "(w :: 16 word) AND push_bit j 1 \<noteq> 0 \<longleftrightarrow> bit w j"
  by (simp add: and_exp_eq_0_iff_not_bit)

lemma OnesCount16_card: "OnesCount16 w = int (card ({j. bit w j} \<inter> {..<16}))"
proof -
  have "length (filter (bit w) [0..<16]) = card (set (filter (bit w) [0..<16]))" by (rule distinct_card [symmetric]) simp
  also have "set (filter (bit w) [0..<16]) = {j. bit w j} \<inter> {..<16}" by auto
  finally show ?thesis by (simp add: OnesCount16_def)
qed

subsection \<open>The rows that are admitted\<close>

text \<open>The distinct values of a list in the order of their first occurrence, and the rows whose group is among the first
  \<open>capacity\<close> groups of the minute.\<close>

fun first_seen :: "'a list \<Rightarrow> 'a list" where
  "first_seen [] = []"
| "first_seen (x # xs) = x # filter (\<lambda>y. y \<noteq> x) (first_seen xs)"

definition admitted :: "int \<Rightarrow> SourceActivity list \<Rightarrow> SourceActivity list" where
  "admitted capacity rows = filter (\<lambda>r. sa_SourceGroup r \<in> set (take (nat capacity) (first_seen (map sa_SourceGroup rows)))) rows"

lemma first_seen_set [simp]: "set (first_seen xs) = set xs"
  by (induction xs) auto

lemma first_seen_distinct: "distinct (first_seen xs)"
  by (induction xs) auto

lemma first_seen_id: "distinct xs \<Longrightarrow> first_seen xs = xs"
  by (induction xs) (auto simp: filter_id_conv)

lemma first_seen_append: "first_seen (xs @ ys) = first_seen xs @ filter (\<lambda>y. y \<notin> set xs) (first_seen ys)"
  by (induction xs) (auto intro: filter_cong simp: conj_commute)

lemma first_seen_known: "x \<in> set xs \<Longrightarrow> first_seen (xs @ x # ys) = first_seen (xs @ ys)"
  by (auto simp: first_seen_append intro: filter_cong)

lemma first_seen_length: "length (first_seen xs) = card (set xs)"
  using distinct_card [OF first_seen_distinct [of xs]] by simp

lemma absorb_keys:
  "map fst (absorb r groups) = map fst groups @ (if map_of groups (sa_SourceGroup r) = None then [sa_SourceGroup r] else [])"
  by (simp add: absorb_def Let_def update_keys map_of_eq_None_iff)

text \<open>The pass holds exactly the groups that come first, and overflows exactly when there are more.\<close>

lemma merge_rows_keys:
  "merge_rows cap rows groups ov co = Inr (groups', ov', co') \<Longrightarrow> gomap_ok groups \<Longrightarrow> int (length groups) \<le> cap \<Longrightarrow>
     map fst groups' = take (nat cap) (first_seen (map fst groups @ map sa_SourceGroup rows)) \<and>
     (ov' \<longleftrightarrow> ov \<or> cap < int (length (first_seen (map fst groups @ map sa_SourceGroup rows))))"
proof (induction rows arbitrary: groups ov co)
  case Nil
  then show ?case by (auto simp: first_seen_id)
next
  case (Cons r rows)
  have d: "first_seen (map fst groups) = map fst groups" using Cons.prems(2) by (simp add: first_seen_id)
  from Cons.prems(1) show ?case
  proof (cases rule: merge_rows_ConsE)
    case skipped
    then have full: "nat cap = length groups" "cap = int (length groups)" using Cons.prems(3) by simp_all
    have new: "sa_SourceGroup r \<notin> fst ` set groups" using skipped(1) by (simp add: map_of_eq_None_iff)
    from Cons.IH [OF skipped(3) Cons.prems(2,3)] new full show ?thesis by (simp add: first_seen_append d)
  next
    case absorbed
    then have len: "int (length (absorb r groups)) \<le> cap"
      using Cons.prems(3) by (cases "map_of groups (sa_SourceGroup r)") (simp_all add: absorb_length)
    have "first_seen (map fst (absorb r groups) @ map sa_SourceGroup rows) = first_seen (map fst groups @ map sa_SourceGroup (r # rows))"
      using first_seen_known [of "sa_SourceGroup r" "map fst groups"] by (simp add: absorb_keys map_of_eq_None_iff)
    with Cons.IH [OF absorbed(2) absorb_ok [OF Cons.prems(2)] len] show ?thesis by simp
  qed
qed

text \<open>The flag of the counters is set exactly when the bytes of a held group exceed a 64-bit counter.\<close>

lemma counter_full_iff: "counter_full r groups \<longleftrightarrow> 2 ^ 64 \<le> held_bytes groups (sa_SourceGroup r) + unat (sa_Bytes r)"
  unfolding counter_full_def held_bytes_alt by (rule saturating_full)

lemma merge_rows_counter:
  "merge_rows cap rows groups ov co = Inr (groups', ov', co') \<Longrightarrow> (\<And>g. held_bytes groups g < 2 ^ 64) \<Longrightarrow>
     co' \<longleftrightarrow> co \<or> (\<exists>g. map_of groups' g \<noteq> None \<and> 2 ^ 64 \<le> held_bytes groups g + group_bytes rows g)"
proof (induction rows arbitrary: groups ov co)
  case Nil
  then have "\<not> 2 ^ 64 \<le> held_bytes groups g + group_bytes [] g" for g by (simp add: group_bytes_def not_le del: power_numeral)
  with Nil(1) show ?case by (simp del: power_numeral)
next
  case (Cons r rows)
  from Cons.prems(1) show ?case
  proof (cases rule: merge_rows_ConsE)
    case skipped
    then have "map_of groups' g \<noteq> None \<Longrightarrow> sa_SourceGroup r \<noteq> g" for g using merge_rows_keeps_out [OF skipped(3), of g] by auto
    with Cons.IH [OF skipped(3) Cons.prems(2)] show ?thesis by (auto simp: group_bytes_Cons)
  next
    case absorbed
    have b: "held_bytes (absorb r groups) g < 2 ^ 64" for g using Cons.prems(2) [of g] by (auto simp: absorb_bytes min_def)
    have g: "map_of groups' (sa_SourceGroup r) \<noteq> None"
      using merge_rows_holds_all [OF absorbed(2)] by (simp add: absorb_def Let_def update_conv')
    note IH = Cons.IH [OF absorbed(2) b]
    show ?thesis
    proof (cases "counter_full r groups")
      case True
      then have "2 ^ 64 \<le> held_bytes groups (sa_SourceGroup r) + group_bytes (r # rows) (sa_SourceGroup r)"
        by (simp add: counter_full_iff group_bytes_Cons)
      with IH True g show ?thesis by blast
    next
      case False
      then have "held_bytes (absorb r groups) g + group_bytes rows g = held_bytes groups g + group_bytes (r # rows) g" for g
        by (auto simp: absorb_bytes counter_full_iff group_bytes_Cons)
      with IH False show ?thesis by simp
    qed
  qed
qed

lemma merged_groups:
  assumes m: "merge_rows cap rows [] False False = Inr (groups, overflow, counter)" and cap: "0 \<le> cap"
  shows "int (length (filter (\<lambda>g. bit (sa_Bitmap g) j) (filter (group_qualifies p) (map snd groups)))) =
    int (card (active_in (admitted cap rows) p j))"
proof -
  have ok: "gomap_ok groups" using merge_rows_size [OF m] cap by simp
  have keys: "map_of groups g \<noteq> None \<longleftrightarrow> g \<in> set (take (nat cap) (first_seen (map sa_SourceGroup rows)))" for g
    using merge_rows_keys [OF m] cap by (simp add: map_of_eq_None_iff del: not_None_eq flip: set_map)
  have same: "group_bytes (admitted cap rows) g = group_bytes rows g" "group_slices (admitted cap rows) g = group_slices rows g"
    if "map_of groups g = Some a" for g a
    using keys [of g] that by (auto simp: admitted_def group_bytes_def group_slices_def intro!: arg_cong [where f = sum_list] map_cong filter_cong)
  have held: "held_bytes groups g = min (2 ^ 64 - 1) (group_bytes (admitted cap rows) g)" "held_slices groups g = group_slices (admitted cap rows) g"
    if "map_of groups g = Some a" for g a
    using merge_rows_exact [OF m, of g] that same [OF that] by (simp_all add: held_bytes_def [of "[]"] held_slices_def [of "[]"])
  have out: "group_slices (admitted cap rows) g = {}" if "map_of groups g = None" for g
    using keys [of g] that by (auto simp: admitted_def group_slices_def)
  have q: "group_qualifies p a \<and> bit (sa_Bitmap a) j \<longleftrightarrow> counted (admitted cap rows) p g \<and> j \<in> group_slices (admitted cap rows) g"
    if "map_of groups g = Some a" for g a
  proof -
    have "unat (sa_Bytes a) = min (2 ^ 64 - 1) (group_bytes (admitted cap rows) g)" "{j. bit (sa_Bitmap a) j} = group_slices (admitted cap rows) g"
      using held [OF that] that by (simp_all add: held_bytes_def held_slices_def)
    then show ?thesis by (auto simp: group_qualifies_def counted_def OnesCount16_card word_less_nat_alt not_less)
  qed
  have "filter (\<lambda>g. bit (sa_Bitmap g) j) (filter (group_qualifies p) (map snd groups)) =
      map snd (filter (\<lambda>e. group_qualifies p (snd e) \<and> bit (sa_Bitmap (snd e)) j) groups)"
    by (simp add: filter_map comp_def conj_commute)
  moreover have "{k. \<exists>v. map_of groups k = Some v \<and> group_qualifies p v \<and> bit (sa_Bitmap v) j} = active_in (admitted cap rows) p j"
    unfolding active_in_def
  proof (rule Collect_cong)
    show "(\<exists>v. map_of groups k = Some v \<and> group_qualifies p v \<and> bit (sa_Bitmap v) j) \<longleftrightarrow>
        counted (admitted cap rows) p k \<and> j \<in> group_slices (admitted cap rows) k" for k
      by (cases "map_of groups k") (simp_all add: out q)
  qed
  ultimately show ?thesis using length_filter_card [OF ok, of "\<lambda>e. group_qualifies p (snd e) \<and> bit (sa_Bitmap (snd e)) j"] by simp
qed

definition demo_rows :: "SourceActivity list" where
  "demo_rows =
     [\<lparr>sa_SourceGroup = ''a'', sa_Bitmap = 0x00f, sa_Bytes = 10000\<rparr>, \<lparr>sa_SourceGroup = ''b'', sa_Bitmap = 0x0ff, sa_Bytes = 20000\<rparr>,
      \<lparr>sa_SourceGroup = ''a'', sa_Bitmap = 0x070, sa_Bytes = 10000\<rparr>, \<lparr>sa_SourceGroup = ''c'', sa_Bitmap = 0x001, sa_Bytes = 90000\<rparr>]"

lemma demo_merge:
  "merge_rows 32 demo_rows [] False False =
     Inr ([(''a'', \<lparr>sa_SourceGroup = [], sa_Bitmap = 0x07f, sa_Bytes = 20000\<rparr>), (''b'', \<lparr>sa_SourceGroup = [], sa_Bitmap = 0x0ff, sa_Bytes = 20000\<rparr>),
       (''c'', \<lparr>sa_SourceGroup = [], sa_Bitmap = 1, sa_Bytes = 90000\<rparr>)], False, False)"
  by code_simp

lemma demo_qualified:
  "filter (group_qualifies DefaultPolicy) (map snd
     [(''a'', \<lparr>sa_SourceGroup = [], sa_Bitmap = 0x07f, sa_Bytes = 20000\<rparr>), (''b'', \<lparr>sa_SourceGroup = [], sa_Bitmap = 0x0ff, sa_Bytes = 20000\<rparr>),
      (''c'', \<lparr>sa_SourceGroup = [], sa_Bitmap = 1, sa_Bytes = 90000\<rparr>)]) =
   [\<lparr>sa_SourceGroup = [], sa_Bitmap = 0x07f, sa_Bytes = 20000\<rparr>, \<lparr>sa_SourceGroup = [], sa_Bitmap = 0x0ff, sa_Bytes = 20000\<rparr>]"
  by code_simp

lemma demo_third:
  "third_largest (slice_counts
     [\<lparr>sa_SourceGroup = [], sa_Bitmap = 0x07f, sa_Bytes = 20000\<rparr>, \<lparr>sa_SourceGroup = [], sa_Bitmap = 0x0ff, sa_Bytes = 20000\<rparr>]) = 2"
  by code_simp

lemma demo_aggregation:
  "AggregateMinute demo_rows whole DefaultPolicy =
     Inr \<lparr>ag_Sources = \<lparr>rg_Lower = 2, rg_Upper = (if whole then 2 else 8)\<rparr>, ag_Qualified = 2, ag_Overflow = False, ag_CounterOverflow = False\<rparr>"
proof -
  have "Policy_Validate DefaultPolicy = Inr ()" "po_SourceCapacity DefaultPolicy = 32" "sc_Full (po_ActivitySources DefaultPolicy) = 8"
    "length demo_rows = 4" by code_simp+
  then show ?thesis unfolding AggregateMinute_def
    by (simp only: sum.case prod.case demo_merge demo_qualified demo_third Let_def) simp
qed

text \<open>More active sources in every slice give no smaller sustained count.\<close>

lemma push_top_eq: "push_top n (a, b, c) = (max a n, max b (min a n), max c (min b (min a n)))"
  by (auto simp: push_top_def Let_def max_def min_def)

lemma third_largest_mono: "list_all2 (\<le>) xs ys \<Longrightarrow> third_largest xs \<le> third_largest ys"
proof -
  have "list_all2 (\<le>) xs ys \<Longrightarrow> a \<le> a' \<Longrightarrow> b \<le> b' \<Longrightarrow> c \<le> c' \<Longrightarrow>
      snd (snd (fold push_top xs (a, b, c))) \<le> snd (snd (fold push_top ys (a', b', c')))" for a b c a' b' c'
  proof (induction arbitrary: a b c a' b' c' rule: list_all2_induct)
    case (Cons x xs y ys)
    show ?case using Cons.prems Cons.hyps(1) by (simp add: push_top_eq) (intro Cons.IH max.mono min.mono)
  qed simp
  then show "list_all2 (\<le>) xs ys \<Longrightarrow> ?thesis" by (simp add: third_largest_def)
qed

lemma active_admitted: "active_in (admitted cap rows) p j \<subseteq> active_in rows p j"
proof
  fix g
  assume g: "g \<in> active_in (admitted cap rows) p j"
  then have "g \<in> set (take (nat cap) (first_seen (map sa_SourceGroup rows)))" by (auto simp: active_in_def admitted_def group_slices_def)
  then have "group_bytes (admitted cap rows) g = group_bytes rows g" "group_slices (admitted cap rows) g = group_slices rows g"
    by (auto simp: admitted_def group_bytes_def group_slices_def intro!: arg_cong [where f = sum_list] map_cong filter_cong)
  with g show "g \<in> active_in rows p j" by (simp add: active_in_def counted_def)
qed

lemma active_finite: "finite (active_in rows p j)"
  by (rule finite_subset [of _ "sa_SourceGroup ` set rows"]) (auto simp: active_in_def group_slices_def)

text \<open>The number of active sources in each of the twelve slices, and its third largest value.\<close>

definition active_counts :: "SourceActivity list \<Rightarrow> Policy \<Rightarrow> int list" where
  "active_counts rows p = map (\<lambda>j. int (card (active_in rows p j))) [0..<12]"

lemma active_counts_third: "third_largest (active_counts rows p) = sort (active_counts rows p) ! 9"
proof -
  have "length (active_counts rows p) = 12" "\<forall>n \<in> set (active_counts rows p). 0 \<le> n" by (auto simp: active_counts_def simp del: upt.simps)
  then show ?thesis using third_largest_sorted [of "active_counts rows p"] by simp
qed

text \<open>C16. The sustained source count of a minute, computed by one pass that merges the rows into groups and one pass that
  keeps the three largest slice counts, is what the rule asks for over the admitted rows, those of the first
  \<open>SourceCapacity\<close> distinct groups: with the bytes of a group saturated at the largest 64-bit counter, a source is
  active when its bytes and its distinct slices reach the minima of the policy, and the lower end is the third largest
  of the numbers of active sources in the twelve slices. All rows are admitted unless the minute has more distinct groups
  than the capacity, which is exactly when the overflow is reported; a counter overflow is reported exactly when the
  bytes of an admitted group exceed 64 bits. Over the whole input the lower end never exceeds the count. The interval
  is that single value when the collection is complete and nothing overflowed; otherwise it reaches up to the
  saturation point of the policy.\<close>

theorem sustained_count_exact:
  assumes a: "AggregateMinute rows whole p = Inr a"
  shows "rg_Lower (ag_Sources a) = sort (active_counts (admitted (po_SourceCapacity p) rows) p) ! 9 \<and>
    rg_Lower (ag_Sources a) \<le> sort (active_counts rows p) ! 9 \<and>
    (ag_Overflow a \<longleftrightarrow> po_SourceCapacity p < int (card (sa_SourceGroup ` set rows))) \<and>
    (\<not> ag_Overflow a \<longrightarrow> admitted (po_SourceCapacity p) rows = rows) \<and>
    (ag_CounterOverflow a \<longleftrightarrow> (\<exists>g. 2 ^ 64 \<le> group_bytes (admitted (po_SourceCapacity p) rows) g)) \<and>
    rg_Upper (ag_Sources a) = (if whole \<and> \<not> ag_Overflow a \<and> \<not> ag_CounterOverflow a then rg_Lower (ag_Sources a)
      else max (rg_Lower (ag_Sources a)) (sc_Full (po_ActivitySources p)))"
  using a
proof (cases rule: AggregateMinuteE)
  case (1 groups overflow counter qs)
  let ?cap = "po_SourceCapacity p" and ?seen = "first_seen (map sa_SourceGroup rows)"
  have c: "0 \<le> ?cap" using 1(1) by (simp add: Policy_Validate_def split: if_splits)
  have counts: "slice_counts qs = active_counts (admitted ?cap rows) p"
    unfolding slice_counts_def active_counts_def bit_test 1(3) merged_groups [OF 1(2) c] ..
  then have third: "third_largest (slice_counts qs) = sort (active_counts (admitted ?cap rows) p) ! 9"
    by (simp only: active_counts_third)
  have "list_all2 (\<le>) (active_counts (admitted ?cap rows) p) (active_counts rows p)"
    using card_mono [OF active_finite active_admitted]
    by (simp add: active_counts_def list_all2_conv_all_nth del: upt.simps)
  then have low: "third_largest (slice_counts qs) \<le> sort (active_counts rows p) ! 9"
    unfolding counts active_counts_third [symmetric] by (rule third_largest_mono)
  have keys: "map fst groups = take (nat ?cap) ?seen" "overflow \<longleftrightarrow> ?cap < int (length ?seen)"
    using merge_rows_keys [OF 1(2)] c by simp_all
  then have over: "overflow \<longleftrightarrow> ?cap < int (card (sa_SourceGroup ` set rows))" by (simp add: first_seen_length)
  have all: "admitted ?cap rows = rows" if "\<not> overflow"
    using that keys(2) c by (auto simp: admitted_def filter_id_conv)
  have held: "map_of groups g \<noteq> None \<longleftrightarrow> g \<in> set (take (nat ?cap) ?seen)" for g
    using keys(1) by (simp add: map_of_eq_None_iff del: not_None_eq flip: set_map)
  have "group_bytes (admitted ?cap rows) g = (if map_of groups g \<noteq> None then group_bytes rows g else 0)" for g
    unfolding held by (auto simp: admitted_def group_bytes_def intro!: arg_cong [where f = sum_list] map_cong filter_cong)
  then have co: "counter \<longleftrightarrow> (\<exists>g. 2 ^ 64 \<le> group_bytes (admitted ?cap rows) g)"
    using merge_rows_counter [OF 1(2)] by (auto simp: held_bytes_def [of "[]"] simp del: not_None_eq)
  show ?thesis unfolding 1(4-8) using third low over all co by simp
qed

theorem sustained_count_exact_witness:
  "\<exists>a. AggregateMinute demo_rows True DefaultPolicy = Inr a \<and> rg_Lower (ag_Sources a) = 2 \<and>
     rg_Lower (ag_Sources a) = sort (active_counts demo_rows DefaultPolicy) ! 9"
proof -
  define a where "a = \<lparr>ag_Sources = \<lparr>rg_Lower = 2, rg_Upper = 2\<rparr>, ag_Qualified = 2, ag_Overflow = False, ag_CounterOverflow = False\<rparr>"
  have e: "AggregateMinute demo_rows True DefaultPolicy = Inr a" by (simp add: a_def demo_aggregation)
  have no: "\<not> ag_Overflow a" and two: "rg_Lower (ag_Sources a) = 2" by (simp_all add: a_def)
  note s = sustained_count_exact [OF e]
  from s no have "admitted (po_SourceCapacity DefaultPolicy) demo_rows = demo_rows" by blast
  with s two e show ?thesis by metis
qed

text \<open>Aggregation is within its bounds whatever the rows are: at most \<open>SourceCapacity\<close> sources qualify, the
  interval is ordered, never negative and never above the larger of the qualified sources and the saturation point of
  the policy, hence within the capacity; so the minute passes the check that \<open>Evaluate\<close> makes of its input.\<close>

theorem aggregation_within_capacity:
  assumes a: "AggregateMinute rows whole p = Inr a"
  shows "0 \<le> rg_Lower (ag_Sources a) \<and> rg_Lower (ag_Sources a) \<le> ag_Qualified a \<and> ag_Qualified a \<le> po_SourceCapacity p \<and>
    rg_Lower (ag_Sources a) \<le> rg_Upper (ag_Sources a) \<and> rg_Upper (ag_Sources a) \<le> po_SourceCapacity p \<and>
    validateMinutes_from i [\<lparr>mi_Start = ends + (int i - int WindowMinutes) * minute, mi_Sources = ag_Sources a\<rparr>] ends (po_SourceCapacity p) = Inr ()"
  using a
proof (cases rule: AggregateMinuteE)
  case (1 groups overflow counter qs)
  have c: "1 \<le> po_SourceCapacity p" "sc_Full (po_ActivitySources p) \<le> po_SourceCapacity p"
    using 1(1) by (simp_all add: Policy_Validate_def split: if_splits)
  have "int (length groups) \<le> po_SourceCapacity p" using merge_rows_size [OF 1(2)] c by simp
  moreover have "length qs \<le> length groups" unfolding 1(3) using length_filter_le [of _ "map snd groups"] by simp
  ultimately have q: "int (length qs) \<le> po_SourceCapacity p" by simp
  have "third_largest (slice_counts qs) \<in> set (slice_counts qs)"
    using nth_mem [of 9 "sort (slice_counts qs)"] by (simp add: slice_counts_third slice_counts_length)
  then have "0 \<le> third_largest (slice_counts qs)" "third_largest (slice_counts qs) \<le> int (length qs)"
    using slice_counts_range by blast+
  moreover from this q c have "rg_Upper (ag_Sources a) \<le> po_SourceCapacity p" "rg_Lower (ag_Sources a) \<le> rg_Upper (ag_Sources a)"
    unfolding 1(4,5) by (simp_all add: max_def)
  ultimately show ?thesis using 1(4,6) q by simp
qed

theorem aggregation_within_capacity_witness:
  "\<exists>a. AggregateMinute demo_rows False DefaultPolicy = Inr a \<and> rg_Lower (ag_Sources a) = 2 \<and> rg_Upper (ag_Sources a) = 8 \<and>
     rg_Upper (ag_Sources a) \<le> po_SourceCapacity DefaultPolicy"
proof -
  have "AggregateMinute demo_rows False DefaultPolicy = Inr a \<Longrightarrow> ?thesis" for a
    using aggregation_within_capacity [of demo_rows False DefaultPolicy a] by (auto simp: demo_aggregation)
  then show ?thesis by (simp add: demo_aggregation)
qed

section \<open>Baselines\<close>

lemma Validate_new_sources:
  "Policy_Validate p = Inr () \<Longrightarrow> validScale sc \<Longrightarrow> sc_Full sc \<le> po_SourceCapacity p \<Longrightarrow> Policy_Validate (p\<lparr>po_ActivitySources := sc\<rparr>) = Inr ()"
  by (simp add: Policy_Validate_def split: if_splits)

lemma AdaptPolicyE:
  assumes "AdaptPolicy p b = Inr (p', exhausted)"
  obtains (same) "Policy_Validate p = Inr ()" "p' = p" "bl_Ready b \<and> \<not> bl_Limited b \<longrightarrow> exhausted"
  | (moved) start sc where "Policy_Validate p = Inr ()" "sc_Start (po_ActivitySources p) \<le> start" "bl_Q95 b < start"
      "sc = \<lparr>sc_Start = start, sc_Full = start + sc_Full (po_ActivitySources p) - sc_Start (po_ActivitySources p)\<rparr>"
      "sc_Full sc \<le> po_SourceCapacity p" "p' = p\<lparr>po_ActivitySources := sc\<rparr>"
proof -
  have P: "Policy_Validate p = Inr ()" using assms by (cases "Policy_Validate p") (simp_all add: AdaptPolicy_def)
  define start where "start = max (sc_Start (po_ActivitySources p)) (bl_Q95 b + 1)"
  define sc where "sc = \<lparr>sc_Start = start, sc_Full = start + sc_Full (po_ActivitySources p) - sc_Start (po_ActivitySources p)\<rparr>"
  have A: "(if \<not> bl_Ready b \<or> bl_Limited b then Inr (p, False) else if po_SourceCapacity p < sc_Full sc then Inr (p, True)
      else Inr (p\<lparr>po_ActivitySources := sc\<rparr>, False)) = (Inr (p', exhausted) :: (Policy \<times> bool) result)"
    using assms unfolding AdaptPolicy_def P sum.case Let_def sc_def start_def Scale.select_convs .
  have b: "sc_Start (po_ActivitySources p) \<le> start" "bl_Q95 b < start" by (simp_all add: start_def)
  consider "\<not> bl_Ready b \<or> bl_Limited b" | "bl_Ready b" "\<not> bl_Limited b" "po_SourceCapacity p < sc_Full sc"
    | "bl_Ready b" "\<not> bl_Limited b" "sc_Full sc \<le> po_SourceCapacity p" by linarith
  then show thesis
  proof cases
    case 1
    with A show thesis by (intro same [OF P]) auto
  next
    case 2
    with A show thesis by (intro same [OF P]) simp_all
  next
    case 3
    with A show thesis by (intro moved [OF P b sc_def]) simp_all
  qed
qed

text \<open>C32. A policy adapted to the baseline of an account is a valid policy again, with the same distance between the
  starting point and the saturation of the activity sources and every other threshold unchanged; when the baseline is
  usable and the policy is not exhausted, the score of an account starts above its usual level \<open>Q95\<close>.\<close>

theorem adapted_policy_valid:
  assumes "AdaptPolicy p b = Inr (p', exhausted)"
  shows "Policy_Validate p' = Inr () \<and>
    sc_Full (po_ActivitySources p') - sc_Start (po_ActivitySources p') = sc_Full (po_ActivitySources p) - sc_Start (po_ActivitySources p) \<and>
    p'\<lparr>po_ActivitySources := po_ActivitySources p\<rparr> = p \<and> sc_Start (po_ActivitySources p) \<le> sc_Start (po_ActivitySources p') \<and>
    (bl_Ready b \<and> \<not> bl_Limited b \<and> \<not> exhausted \<longrightarrow> bl_Q95 b < sc_Start (po_ActivitySources p'))"
  using assms
proof (cases rule: AdaptPolicyE)
  case same
  then show ?thesis by auto
next
  case (moved start sc)
  have "validScale (po_ActivitySources p)" using moved(1) by (simp add: Policy_Validate_def split: if_splits)
  then have "validScale sc" using moved(2,4) by (simp add: validScale_def)
  with moved have "Policy_Validate p' = Inr ()" by (simp add: Validate_new_sources)
  with moved(2-4,6) show ?thesis by simp
qed

definition demo_days :: "BaselineDay list" where
  "demo_days = replicate 7 \<lparr>bd_Histogram = [0, 20, 10, 5] @ replicate 28 0 @ [0], bd_Overflow = False\<rparr>"

theorem adapted_policy_valid_witness:
  "\<exists>b p'. SummarizeBaseline demo_days = Inr b \<and> bl_Ready b \<and> AdaptPolicy DefaultPolicy b = Inr (p', False) \<and>
     Policy_Validate p' = Inr () \<and> bl_Q95 b < sc_Start (po_ActivitySources p') \<and> sc_Start (po_ActivitySources p') = 4"
proof -
  define b where "b = \<lparr>bl_Ready = True, bl_Limited = False, bl_ValidDays = 7, bl_ActiveMinutes = 245, bl_Q95 = 3\<rparr>"
  define p' where "p' = DefaultPolicy\<lparr>po_ActivitySources := \<lparr>sc_Start = 4, sc_Full = 9\<rparr>\<rparr>"
  have "SummarizeBaseline demo_days = Inr b" unfolding b_def by code_simp
  moreover have a: "AdaptPolicy DefaultPolicy b = Inr (p', False)" unfolding b_def p'_def by code_simp
  ultimately show ?thesis using adapted_policy_valid [OF a] by (auto simp: b_def p'_def)
qed

end
