(* ===== verification/Coalesce_Cache.thy ===== *)
theory Coalesce_Cache
  imports Oboard_Prelude
begin

text \<open>
  The build-coalescing cache of \<open>internal/controller/coalesce_cache.go\<close> with the byte budget of
  \<open>coalesce_budget.go\<close>. A call is a shared object, so the calls live in a store and the map of running builds holds
  their addresses; comparing two calls compares addresses. A call has the cancel function of its build context when
  \<open>cl_cancel\<close> says so, and \<open>cl_cancelled\<close> records that it was called. Every critical section under the mutex is one
  operation; the clock, the error of a context and what the build function returns are its arguments. The zero values
  of the key and value types are fields of the cache, and \<open>ca_building\<close> holds the calls whose build function runs.
\<close>

section \<open>Definitions\<close>

type_synonym error = string

abbreviation errHistoryBusy :: error where
  "errHistoryBusy \<equiv> ''history_busy: historical reads are busy; retry later''"

abbreviation errHistoryTooLarge :: error where
  "errHistoryTooLarge \<equiv> ''history_too_large: reduce the window or target selection''"

abbreviation context_Canceled :: error where
  "context_Canceled \<equiv> ''context canceled''"

record 'v coalesceBudget =
  bu_maxBytes :: int
  bu_maxEntryBytes :: int
  bu_maxInflight :: int
  bu_timeout :: duration
  bu_retryDelay :: duration
  bu_size :: "'v \<Rightarrow> int"

record 'v coalesceEntry =
  ce_value :: 'v
  ce_size :: int
  ce_access :: int
  ce_retryAt :: time
  ce_failure :: "error option"
  ce_generation :: nat
  ce_epoch :: nat
  ce_dataAsOf :: time
  ce_buildCompletedAt :: time
  ce_expiresAt :: time

record 'v coalesceCall =
  cl_generation :: nat
  cl_done :: bool
  cl_epoch :: nat
  cl_value :: 'v
  cl_err :: "error option"
  cl_entry :: "'v coalesceEntry"
  cl_waiters :: int
  cl_cancel :: bool
  cl_cancelled :: bool
  cl_abandoned :: bool

record ('k, 'v) coalesceCache =
  ca_budget :: "'v coalesceBudget option"
  ca_retain :: "('k \<Rightarrow> bool) option"
  ca_retainedBytes :: int
  ca_accessSequence :: int
  ca_entries :: "('k, 'v coalesceEntry) gomap"
  ca_inflight :: "('k, nat) gomap"
  ca_calls :: "'v coalesceCall list"
  ca_buildSem :: nat
  ca_maxBuilds :: nat
  ca_building :: "nat list"
  ca_maxEntries :: int
  ca_ttl :: duration
  ca_maxStale :: duration
  ca_epoch :: nat
  ca_hits :: int
  ca_misses :: int
  ca_builds :: int
  ca_buildFailed :: int
  ca_waiters :: int
  ca_zero :: 'v
  ca_zeroKey :: 'k

definition zero_entry :: "'v \<Rightarrow> 'v coalesceEntry" where
  "zero_entry z = \<lparr>ce_value = z, ce_size = 0, ce_access = 0, ce_retryAt = 0, ce_failure = None, ce_generation = 0,
     ce_epoch = 0, ce_dataAsOf = 0, ce_buildCompletedAt = 0, ce_expiresAt = 0\<rparr>"

definition new_call :: "'v \<Rightarrow> nat \<Rightarrow> nat \<Rightarrow> bool \<Rightarrow> 'v coalesceCall" where
  "new_call z generation epoch cancel = \<lparr>cl_generation = generation, cl_done = False, cl_epoch = epoch, cl_value = z, cl_err = None,
     cl_entry = zero_entry z, cl_waiters = 0, cl_cancel = cancel, cl_cancelled = False, cl_abandoned = False\<rparr>"

definition newCoalesceCache :: "'k \<Rightarrow> 'v \<Rightarrow> duration \<Rightarrow> int \<Rightarrow> int \<Rightarrow> ('k, 'v) coalesceCache" where
  "newCoalesceCache zk zv ttl maxEntries maxBuilds =
     (let maxBuilds = (if maxBuilds < 1 then 1 else maxBuilds);
          maxEntries = (if maxEntries < 1 then 8 else maxEntries)
      in \<lparr>ca_budget = None, ca_retain = None, ca_retainedBytes = 0, ca_accessSequence = 0, ca_entries = [], ca_inflight = [],
          ca_calls = [], ca_buildSem = 0, ca_maxBuilds = nat maxBuilds, ca_building = [], ca_maxEntries = maxEntries, ca_ttl = ttl,
          ca_maxStale = 5 * minute, ca_epoch = 1, ca_hits = 0, ca_misses = 0, ca_builds = 0, ca_buildFailed = 0, ca_waiters = 0,
          ca_zero = zv, ca_zeroKey = zk\<rparr>)"

text \<open>A store to the call at an address, and the allocation of a new one.\<close>

definition update_call :: "nat \<Rightarrow> ('v coalesceCall \<Rightarrow> 'v coalesceCall) \<Rightarrow> ('k, 'v) coalesceCache \<Rightarrow> ('k, 'v) coalesceCache" where
  "update_call i f c = c\<lparr>ca_calls := (if i < length (ca_calls c) then (ca_calls c)[i := f (ca_calls c ! i)] else ca_calls c)\<rparr>"

definition start_call :: "'k \<Rightarrow> 'v coalesceCall \<Rightarrow> ('k, 'v) coalesceCache \<Rightarrow> ('k, 'v) coalesceCache" where
  "start_call key call c = c\<lparr>ca_inflight := AList.update key (length (ca_calls c)) (ca_inflight c), ca_calls := ca_calls c @ [call]\<rparr>"

definition running_call :: "('k, 'v) coalesceCache \<Rightarrow> 'k \<Rightarrow> (nat \<times> 'v coalesceCall) option" where
  "running_call c key = map_option (\<lambda>i. (i, ca_calls c ! i)) (map_of (ca_inflight c) key)"

subsection \<open>Without a budget\<close>

record 'v coalesceLookup =
  lk_hit :: bool
  lk_stale :: bool
  lk_value :: 'v
  lk_dataAsOf :: time
  lk_buildCompletedAt :: time
  lk_expiresAt :: time

definition entry_lookup :: "bool \<Rightarrow> 'v coalesceEntry \<Rightarrow> 'v coalesceLookup" where
  "entry_lookup stale e = \<lparr>lk_hit = True, lk_stale = stale, lk_value = ce_value e, lk_dataAsOf = ce_dataAsOf e,
     lk_buildCompletedAt = ce_buildCompletedAt e, lk_expiresAt = ce_expiresAt e\<rparr>"

definition no_lookup :: "'v \<Rightarrow> 'v coalesceLookup" where
  "no_lookup z = \<lparr>lk_hit = False, lk_stale = False, lk_value = z, lk_dataAsOf = 0, lk_buildCompletedAt = 0, lk_expiresAt = 0\<rparr>"

text \<open>The part of \<open>get\<close> after the lookup of an entry: join the running build of this epoch or start one.\<close>

definition get_missing :: "'k \<Rightarrow> ('k, 'v) coalesceCache \<Rightarrow> 'v coalesceLookup \<times> nat option \<times> bool \<times> nat \<times> ('k, 'v) coalesceCache" where
  "get_missing key c =
     (let start = (no_lookup (ca_zero c), Some (length (ca_calls c)), True, ca_epoch c,
                   (start_call key (new_call (ca_zero c) 0 (ca_epoch c) False) c)\<lparr>ca_misses := ca_misses c + 1, ca_builds := ca_builds c + 1\<rparr>)
      in case running_call c key of
           Some (i, call) \<Rightarrow>
             if cl_epoch call = ca_epoch c
             then (no_lookup (ca_zero c), Some i, False, ca_epoch c,
                   (update_call i (\<lambda>call. call\<lparr>cl_waiters := cl_waiters call + 1\<rparr>) c)\<lparr>ca_waiters := ca_waiters c + 1, ca_misses := ca_misses c + 1\<rparr>)
             else start
         | None \<Rightarrow> start)"

definition get :: "'k \<Rightarrow> time \<Rightarrow> ('k, 'v) coalesceCache \<Rightarrow> 'v coalesceLookup \<times> nat option \<times> bool \<times> nat \<times> ('k, 'v) coalesceCache" where
  "get key now c =
     (case map_of (ca_entries c) key of
        None \<Rightarrow> get_missing key c
      | Some entry \<Rightarrow>
          if now < ce_expiresAt entry
          then (entry_lookup False entry, None, False, ca_epoch c, c\<lparr>ca_hits := ca_hits c + 1\<rparr>)
          else if ca_maxStale c > 0 \<and> time_sub now (ce_buildCompletedAt entry) \<le> ca_maxStale c
          then (case running_call c key of
                  Some (i, call) \<Rightarrow>
                    if cl_epoch call = ca_epoch c
                    then (entry_lookup True entry, None, False, ca_epoch c,
                          (update_call i (\<lambda>call. call\<lparr>cl_waiters := cl_waiters call + 1\<rparr>) c)\<lparr>ca_waiters := ca_waiters c + 1, ca_hits := ca_hits c + 1\<rparr>)
                    else get_missing key c
                | None \<Rightarrow> get_missing key c)
          else get_missing key (c\<lparr>ca_entries := AList.delete key (ca_entries c)\<rparr>))"

text \<open>The answers \<open>wait\<close> may give now: that of the call when it is done, and the error of the waiter's context when
  it has one. The select picks any; there is none while both are still open.\<close>

definition wait :: "nat \<Rightarrow> error option \<Rightarrow> ('k, 'v) coalesceCache \<Rightarrow> ('v coalesceEntry \<times> error option) list" where
  "wait i ctxErr c =
     (if cl_done (ca_calls c ! i) then [(cl_entry (ca_calls c ! i), cl_err (ca_calls c ! i))] else []) @
     (case ctxErr of Some e \<Rightarrow> [(zero_entry (ca_zero c), Some e)] | None \<Rightarrow> [])"

definition evictExpiredLocked :: "time \<Rightarrow> ('k, 'v) coalesceCache \<Rightarrow> ('k, 'v) coalesceCache" where
  "evictExpiredLocked now c =
     c\<lparr>ca_entries := filter (\<lambda>(key, entry). \<not> (\<not> now < ce_expiresAt entry \<and>
         (ca_maxStale c \<le> 0 \<or> time_sub now (ce_buildCompletedAt entry) > ca_maxStale c))) (ca_entries c)\<rparr>"

text \<open>The clock is read twice, for the completion and for the age of a fallback.\<close>

definition make_room :: "time \<Rightarrow> ('k, 'v) coalesceCache \<Rightarrow> ('k, 'v) coalesceCache" where
  "make_room completed c =
     (if int (length (ca_entries c)) \<ge> ca_maxEntries c
      then (let c = evictExpiredLocked completed c
            in if int (length (ca_entries c)) \<ge> ca_maxEntries c then c\<lparr>ca_entries := []\<rparr> else c)
      else c)"

definition finish :: "time \<Rightarrow> time \<Rightarrow> nat option \<Rightarrow> 'k \<Rightarrow> nat \<Rightarrow> nat \<Rightarrow> 'v \<Rightarrow> time \<Rightarrow> error option \<Rightarrow> ('k, 'v) coalesceCache \<Rightarrow>
    ('v coalesceEntry \<times> error option) \<times> ('k, 'v) coalesceCache" where
  "finish completed later call key generation buildEpoch val dataAsOf err c =
     (let entry = (zero_entry (ca_zero c))\<lparr>ce_value := val, ce_generation := generation, ce_epoch := buildEpoch, ce_dataAsOf := dataAsOf,
                    ce_buildCompletedAt := completed, ce_expiresAt := completed + ca_ttl c\<rparr>;
          c = (if call \<noteq> None \<and> map_of (ca_inflight c) key = call then c\<lparr>ca_inflight := AList.delete key (ca_inflight c)\<rparr> else c)
      in case err of
           Some e \<Rightarrow>
             (let c = c\<lparr>ca_buildFailed := ca_buildFailed c + 1\<rparr>
              in case call of
                   None \<Rightarrow> ((zero_entry (ca_zero c), Some e), c)
                 | Some i \<Rightarrow>
                     (case map_of (ca_entries c) key of
                        Some existing \<Rightarrow>
                          if ca_maxStale c > 0 \<and> time_sub later (ce_buildCompletedAt existing) \<le> ca_maxStale c
                          then ((existing, None), update_call i (\<lambda>call. call\<lparr>cl_err := None, cl_entry := existing, cl_value := ce_value existing, cl_done := True\<rparr>) c)
                          else ((zero_entry (ca_zero c), Some e), update_call i (\<lambda>call. call\<lparr>cl_err := Some e, cl_done := True\<rparr>) c)
                      | None \<Rightarrow> ((zero_entry (ca_zero c), Some e), update_call i (\<lambda>call. call\<lparr>cl_err := Some e, cl_done := True\<rparr>) c)))
         | None \<Rightarrow>
             (let existing = map_of (ca_entries c) key;
                  newer = (case existing of Some x \<Rightarrow> ce_generation x > generation | None \<Rightarrow> False);
                  publish = (buildEpoch = ca_epoch c \<and> \<not> newer);
                  entry = (if publish then entry else case existing of Some x \<Rightarrow> x | None \<Rightarrow> entry);
                  c = (if publish then (let c = make_room completed c in c\<lparr>ca_entries := AList.update key entry (ca_entries c)\<rparr>) else c)
              in ((entry, None),
                  case call of None \<Rightarrow> c | Some i \<Rightarrow> update_call i (\<lambda>call. call\<lparr>cl_entry := entry, cl_value := ce_value entry, cl_done := True\<rparr>) c)))"

subsection \<open>Invalidation and the build semaphore\<close>

definition abandon :: "'v coalesceCall \<Rightarrow> 'v coalesceCall" where
  "abandon call = (if cl_cancel call then call\<lparr>cl_abandoned := True, cl_cancelled := True\<rparr> else call)"

definition cache_clear :: "('k, 'v) coalesceCache \<Rightarrow> ('k, 'v) coalesceCache" where
  "cache_clear c =
     fold (\<lambda>i. update_call i abandon) (map snd (ca_inflight c)) (c\<lparr>ca_epoch := ca_epoch c + 1, ca_entries := [], ca_retainedBytes := 0\<rparr>)"

definition cache_remove :: "'k \<Rightarrow> ('k, 'v) coalesceCache \<Rightarrow> ('k, 'v) coalesceCache" where
  "cache_remove key c =
     (let c = (case map_of (ca_entries c) key of Some e \<Rightarrow> c\<lparr>ca_retainedBytes := ca_retainedBytes c - ce_size e\<rparr> | None \<Rightarrow> c);
          c = c\<lparr>ca_entries := AList.delete key (ca_entries c)\<rparr>
      in case map_of (ca_inflight c) key of Some i \<Rightarrow> update_call i abandon c | None \<Rightarrow> c)"

text \<open>The buffered channel as the number of tokens in it: \<open>None\<close> when sending blocks.\<close>

definition acquireBuild :: "('k, 'v) coalesceCache \<Rightarrow> ('k, 'v) coalesceCache option" where
  "acquireBuild c = (if ca_buildSem c < ca_maxBuilds c then Some (c\<lparr>ca_buildSem := ca_buildSem c + 1\<rparr>) else None)"

definition releaseBuild :: "('k, 'v) coalesceCache \<Rightarrow> ('k, 'v) coalesceCache" where
  "releaseBuild c = (if ca_buildSem c > 0 then c\<lparr>ca_buildSem := ca_buildSem c - 1\<rparr> else c)"

text \<open>The entry point of \<open>getOrBuild\<close> without a budget: what its first critical section decides.\<close>

datatype 'v entered = Refused error | Served "'v coalesceEntry" | Joined nat

definition getOrBuild_enter :: "'k \<Rightarrow> nat \<Rightarrow> time \<Rightarrow> ('k, 'v) coalesceCache \<Rightarrow> 'v entered \<times> bool \<times> ('k, 'v) coalesceCache" where
  "getOrBuild_enter key generation now c =
     (case get key now c of (lookup, call, leader, epoch, c') \<Rightarrow>
        if lk_hit lookup
        then (Served ((zero_entry (ca_zero c))\<lparr>ce_value := lk_value lookup, ce_generation := generation, ce_epoch := epoch,
                ce_dataAsOf := lk_dataAsOf lookup, ce_buildCompletedAt := lk_buildCompletedAt lookup, ce_expiresAt := lk_expiresAt lookup\<rparr>), False, c')
        else (Joined (the call), leader, c'))"

text \<open>The end of \<open>getOrBuild\<close> for the reader that leads: the semaphore fails or the build returns, and \<open>finish\<close> follows.\<close>

definition getOrBuild_lead :: "time \<Rightarrow> time \<Rightarrow> nat \<Rightarrow> 'k \<Rightarrow> nat \<Rightarrow> nat \<Rightarrow> error option \<Rightarrow> 'v \<times> time \<times> error option \<Rightarrow> ('k, 'v) coalesceCache \<Rightarrow>
    ('v coalesceEntry \<times> error option) \<times> ('k, 'v) coalesceCache" where
  "getOrBuild_lead completed later i key generation epoch acquireErr build c =
     (case acquireErr of
        Some e \<Rightarrow> finish completed later (Some i) key generation epoch (ca_zero c) 0 (Some e) c
      | None \<Rightarrow> (case build of (v, dataAsOf, err) \<Rightarrow> finish completed later (Some i) key generation epoch v dataAsOf err c))"

subsection \<open>With a budget\<close>

definition touchBounded :: "'k \<Rightarrow> 'v coalesceEntry \<Rightarrow> ('k, 'v) coalesceCache \<Rightarrow> ('k, 'v) coalesceCache" where
  "touchBounded key entry c =
     c\<lparr>ca_accessSequence := ca_accessSequence c + 1,
       ca_entries := AList.update key (entry\<lparr>ce_access := ca_accessSequence c + 1\<rparr>) (ca_entries c)\<rparr>"

text \<open>The least recently used entry, found by one pass that starts at the largest 64-bit number.\<close>

definition oldest_key :: "('k, 'v) coalesceCache \<Rightarrow> 'k" where
  "oldest_key c =
     fst (fold (\<lambda>(k, v) (oldestKey, oldest). if ce_access v < oldest then (k, ce_access v) else (oldestKey, oldest))
            (ca_entries c) (ca_zeroKey c, 2 ^ 64 - 1))"

definition evict_oldest :: "('k, 'v) coalesceCache \<Rightarrow> ('k, 'v) coalesceCache" where
  "evict_oldest c =
     (let bytes = (case map_of (ca_entries c) (oldest_key c) of Some e \<Rightarrow> ce_size e | None \<Rightarrow> 0)
      in c\<lparr>ca_retainedBytes := ca_retainedBytes c - bytes, ca_entries := AList.delete (oldest_key c) (ca_entries c)\<rparr>)"

partial_function (option) evict_loop :: "'v coalesceBudget \<Rightarrow> int \<Rightarrow> ('k, 'v) coalesceCache \<Rightarrow> ('k, 'v) coalesceCache option" where
  "evict_loop b need c =
     (if ca_entries c \<noteq> [] \<and> (int (length (ca_entries c)) \<ge> ca_maxEntries c \<or> ca_retainedBytes c + need > bu_maxBytes b)
      then evict_loop b need (evict_oldest c) else Some c)"

declare evict_loop.simps [code]

definition drop_old :: "'k \<Rightarrow> ('k, 'v) coalesceCache \<Rightarrow> ('k, 'v) coalesceCache" where
  "drop_old key c =
     (case map_of (ca_entries c) key of
        Some old \<Rightarrow> c\<lparr>ca_retainedBytes := ca_retainedBytes c - ce_size old, ca_entries := AList.delete key (ca_entries c)\<rparr>
      | None \<Rightarrow> c)"

definition putBounded :: "'v coalesceBudget \<Rightarrow> 'k \<Rightarrow> 'v coalesceEntry \<Rightarrow> ('k, 'v) coalesceCache \<Rightarrow> ('k, 'v) coalesceCache option" where
  "putBounded b key entry c =
     map_option (\<lambda>c. touchBounded key entry (c\<lparr>ca_retainedBytes := ca_retainedBytes c + ce_size entry\<rparr>))
       (evict_loop b (ce_size entry) (drop_old key c))"

text \<open>The first critical section of \<open>getBounded\<close>, which ends with an answer or with a call to wait for, and the
  deferred one of a waiter.\<close>

definition joined :: "nat \<Rightarrow> ('k, 'v) coalesceCache \<Rightarrow> 'v entered \<times> ('k, 'v) coalesceCache" where
  "joined i c =
     (Joined i, (update_call i (\<lambda>call. call\<lparr>cl_waiters := cl_waiters call + 1\<rparr>) c)\<lparr>ca_waiters := ca_waiters c + 1, ca_misses := ca_misses c + 1\<rparr>)"

definition join_bounded :: "'v coalesceBudget \<Rightarrow> 'k \<Rightarrow> nat \<Rightarrow> ('k, 'v) coalesceCache \<Rightarrow> 'v entered \<times> ('k, 'v) coalesceCache" where
  "join_bounded b key generation c =
     (case running_call c key of
        Some (i, call) \<Rightarrow>
          if cl_abandoned call \<or> cl_epoch call \<noteq> ca_epoch c \<or> cl_generation call \<noteq> generation
          then (Refused errHistoryBusy, c) else joined i c
      | None \<Rightarrow>
          if int (length (ca_inflight c)) \<ge> bu_maxInflight b then (Refused errHistoryBusy, c)
          else joined (length (ca_calls c))
                 ((start_call key (new_call (ca_zero c) generation (ca_epoch c) True) c)\<lparr>ca_builds := ca_builds c + 1\<rparr>))"

definition getBounded_enter :: "'v coalesceBudget \<Rightarrow> 'k \<Rightarrow> nat \<Rightarrow> time \<Rightarrow> error option \<Rightarrow> ('k, 'v) coalesceCache \<Rightarrow>
    'v entered \<times> ('k, 'v) coalesceCache" where
  "getBounded_enter b key generation now ctxErr c =
     (case ctxErr of
        Some e \<Rightarrow> (Refused e, c)
      | None \<Rightarrow>
          (case map_of (ca_entries c) key of
             None \<Rightarrow> join_bounded b key generation c
           | Some entry \<Rightarrow>
               if ce_generation entry = generation \<and> (now < ce_expiresAt entry \<or> now < ce_retryAt entry)
               then (let c = touchBounded key entry c
                     in case ce_failure entry of
                          Some e \<Rightarrow>
                            if IsZero (ce_dataAsOf entry) \<or> time_sub now (ce_buildCompletedAt entry) > ca_maxStale c
                            then (Refused e, c) else (Served entry, c\<lparr>ca_hits := ca_hits c + 1\<rparr>)
                        | None \<Rightarrow> (Served entry, c\<lparr>ca_hits := ca_hits c + 1\<rparr>))
               else join_bounded b key generation c))"

definition getBounded_leave :: "nat \<Rightarrow> 'k \<Rightarrow> ('k, 'v) coalesceCache \<Rightarrow> ('k, 'v) coalesceCache" where
  "getBounded_leave i key c =
     (let c = (update_call i (\<lambda>call. call\<lparr>cl_waiters := cl_waiters call - 1\<rparr>) c)\<lparr>ca_waiters := ca_waiters c - 1\<rparr>
      in if cl_waiters (ca_calls c ! i) = 0 \<and> map_of (ca_inflight c) key = Some i
         then update_call i (\<lambda>call. call\<lparr>cl_abandoned := True, cl_cancelled := True\<rparr>) c else c)"

text \<open>What the build goroutine knows before its critical section: the error of the semaphore, the error of the context
  before and after the build function, and what that returned.\<close>

definition buildBounded_result :: "'v coalesceBudget \<Rightarrow> 'v \<Rightarrow> error option \<Rightarrow> error option \<Rightarrow> 'v \<times> time \<times> error option \<Rightarrow> error option \<Rightarrow>
    'v \<times> time \<times> error option \<times> int" where
  "buildBounded_result b z acquireErr ctxErr build ctxErr' =
     (let (v, observed, err) = (if acquireErr \<noteq> None then (z, 0, acquireErr) else if ctxErr \<noteq> None then (z, 0, ctxErr) else build);
          err = (if err = None then ctxErr' else err);
          bytes = (if err = None then bu_size b v else 0);
          err = (if err = None \<and> (bytes > bu_maxEntryBytes b \<or> bytes > bu_maxBytes b) then Some errHistoryTooLarge else err)
      in (v, observed, err, bytes))"

definition bounded_entry :: "'v coalesceBudget \<Rightarrow> time \<Rightarrow> 'k \<Rightarrow> nat \<Rightarrow> nat \<Rightarrow> 'v \<times> time \<times> error option \<times> int \<Rightarrow> ('k, 'v) coalesceCache \<Rightarrow> 'v coalesceEntry" where
  "bounded_entry b now key generation epoch result c =
     (case result of (v, observed, err, bytes) \<Rightarrow>
        (case err of
           None \<Rightarrow> (zero_entry (ca_zero c))\<lparr>ce_value := v, ce_generation := generation, ce_epoch := epoch, ce_dataAsOf := observed,
                      ce_buildCompletedAt := now, ce_expiresAt := now + ca_ttl c, ce_size := bytes\<rparr>
         | Some e \<Rightarrow>
             (let entry = (zero_entry (ca_zero c))\<lparr>ce_generation := generation, ce_epoch := epoch, ce_failure := Some e, ce_retryAt := now + bu_retryDelay b\<rparr>
              in case map_of (ca_entries c) key of
                   None \<Rightarrow> entry
                 | Some old \<Rightarrow>
                     if ce_generation old = generation \<and> \<not> IsZero (ce_dataAsOf old) \<and> ca_maxStale c > 0 \<and>
                        time_sub now (ce_buildCompletedAt old) \<le> ca_maxStale c
                     then old\<lparr>ce_failure := Some e, ce_retryAt := now + bu_retryDelay b\<rparr> else entry)))"

definition buildBounded_done :: "'v coalesceBudget \<Rightarrow> time \<Rightarrow> 'k \<Rightarrow> nat \<Rightarrow> nat \<Rightarrow> 'v \<times> time \<times> error option \<times> int \<Rightarrow> ('k, 'v) coalesceCache \<Rightarrow>
    ('k, 'v) coalesceCache option" where
  "buildBounded_done b now key generation i result c =
     (let call = ca_calls c ! i;
          err = fst (snd (snd result));
          c = c\<lparr>ca_inflight := AList.delete key (ca_inflight c)\<rparr>
      in if cl_abandoned call \<or> cl_epoch call \<noteq> ca_epoch c
         then Some (update_call i (\<lambda>call. call\<lparr>cl_err := Some context_Canceled, cl_done := True, cl_cancelled := True\<rparr>) c)
         else
           (let entry = bounded_entry b now key generation (cl_epoch call) result c;
                c = (if err \<noteq> None then c\<lparr>ca_buildFailed := ca_buildFailed c + 1\<rparr> else c);
                put = ((ca_ttl c > 0 \<or> err \<noteq> None) \<and> (case ca_retain c of None \<Rightarrow> True | Some retain \<Rightarrow> retain key));
                answer = (if err \<noteq> None \<and> \<not> IsZero (ce_dataAsOf entry) then None else err)
            in map_option (update_call i (\<lambda>call. call\<lparr>cl_entry := entry, cl_err := answer, cl_done := True, cl_cancelled := True\<rparr>))
                 (if put then putBounded b key entry c else Some c)))"

text \<open>Every interleaving of the critical sections. A build function runs while it holds a token of the semaphore; a
  goroutine that fails to get one completes without it.\<close>

inductive bounded_step :: "'v coalesceBudget \<Rightarrow> ('k, 'v) coalesceCache \<Rightarrow> ('k, 'v) coalesceCache \<Rightarrow> bool" for b where
  enter: "getBounded_enter b key generation now ctxErr c = (answer, c') \<Longrightarrow> bounded_step b c c'"
| leave: "i < length (ca_calls c) \<Longrightarrow> cl_waiters (ca_calls c ! i) > 0 \<Longrightarrow> bounded_step b c (getBounded_leave i key c)"
| begin_build: "map_of (ca_inflight c) key = Some i \<Longrightarrow> i \<notin> set (ca_building c) \<Longrightarrow> acquireBuild c = Some c' \<Longrightarrow>
    bounded_step b c (c'\<lparr>ca_building := i # ca_building c\<rparr>)"
| end_build: "i \<in> set (ca_building c) \<Longrightarrow> bounded_step b c (releaseBuild (c\<lparr>ca_building := remove1 i (ca_building c)\<rparr>))"
| finished: "map_of (ca_inflight c) key = Some i \<Longrightarrow> i \<notin> set (ca_building c) \<Longrightarrow>
    buildBounded_done b now key (cl_generation (ca_calls c ! i)) i (buildBounded_result b (ca_zero c) acquireErr ctxErr build ctxErr') c = Some c' \<Longrightarrow>
    bounded_step b c c'"
| clear: "bounded_step b c (cache_clear c)"
| remove: "bounded_step b c (cache_remove key c)"

section \<open>The table of entries\<close>

definition bytes_of :: "('k, 'v coalesceEntry) gomap \<Rightarrow> int" where
  "bytes_of m = sum_list (map (ce_size \<circ> snd) m)"

lemma bytes_of_delete:
  "gomap_ok m \<Longrightarrow> bytes_of (AList.delete k m) = bytes_of m - (case map_of m k of Some e \<Rightarrow> ce_size e | None \<Rightarrow> 0)"
proof (induction m)
  case (Cons a m)
  have "AList.delete k m = m" if "k \<notin> fst ` set m" using that by (simp add: delete_id)
  with Cons show ?case by (cases a) (auto simp: bytes_of_def map_of_eq_None_iff split: option.splits)
qed (simp add: bytes_of_def)

lemma bytes_of_update:
  "gomap_ok m \<Longrightarrow> bytes_of (AList.update k e m) = bytes_of m - (case map_of m k of Some e \<Rightarrow> ce_size e | None \<Rightarrow> 0) + ce_size e"
  by (induction m) (auto simp: bytes_of_def)

lemma bytes_of_nonneg: "(\<And>k e. (k, e) \<in> set m \<Longrightarrow> 0 \<le> ce_size e) \<Longrightarrow> 0 \<le> bytes_of m"
  unfolding bytes_of_def by (intro sum_list_nonneg) auto

lemma set_update_alist: "gomap_ok m \<Longrightarrow> set (AList.update k e m) = insert (k, e) {p \<in> set m. fst p \<noteq> k}"
  by (induction m) (auto simp: image_iff)

text \<open>The accounting of the table, and the table within its budget.\<close>

definition table_ok :: "('k, 'v) coalesceCache \<Rightarrow> bool" where
  "table_ok c \<longleftrightarrow> gomap_ok (ca_entries c) \<and> ca_retainedBytes c = bytes_of (ca_entries c) \<and>
     (\<forall>k e. (k, e) \<in> set (ca_entries c) \<longrightarrow> 0 \<le> ce_size e \<and> ce_access e \<le> ca_accessSequence c \<and> ce_epoch e = ca_epoch c)"

definition table_bounded :: "'v coalesceBudget \<Rightarrow> ('k, 'v) coalesceCache \<Rightarrow> bool" where
  "table_bounded b c \<longleftrightarrow> table_ok c \<and> ca_retainedBytes c \<le> bu_maxBytes b \<and> int (length (ca_entries c)) \<le> ca_maxEntries c"

lemma table_okD:
  assumes "table_ok c"
  shows "gomap_ok (ca_entries c)" and "ca_retainedBytes c = bytes_of (ca_entries c)"
    and "(k, e) \<in> set (ca_entries c) \<Longrightarrow> 0 \<le> ce_size e" and "(k, e) \<in> set (ca_entries c) \<Longrightarrow> ce_access e \<le> ca_accessSequence c"
    and "(k, e) \<in> set (ca_entries c) \<Longrightarrow> ce_epoch e = ca_epoch c"
  using assms by (auto simp: table_ok_def)

text \<open>Removing the entry of a key with its bytes, as the eviction, the replacement and the removal do.\<close>

definition without :: "'k \<Rightarrow> ('k, 'v) coalesceCache \<Rightarrow> ('k, 'v) coalesceCache" where
  "without k c = c\<lparr>ca_retainedBytes := ca_retainedBytes c - (case map_of (ca_entries c) k of Some e \<Rightarrow> ce_size e | None \<Rightarrow> 0),
     ca_entries := AList.delete k (ca_entries c)\<rparr>"

lemma evict_oldest_without: "evict_oldest c = without (oldest_key c) c"
  by (simp add: evict_oldest_def without_def)

lemma drop_old_without: "drop_old k c = without k c"
proof (cases "map_of (ca_entries c) k")
  case None
  then have "AList.delete k (ca_entries c) = ca_entries c" by (intro delete_id) (simp add: map_of_None_notin)
  with None show ?thesis by (simp add: drop_old_def without_def)
qed (simp add: drop_old_def without_def)

lemma without_table: "table_ok c \<Longrightarrow> table_ok (without k c)"
  by (auto simp: table_ok_def without_def bytes_of_delete set_delete_alist)

lemma without_fields:
  "\<exists>r es. without k c = c\<lparr>ca_retainedBytes := r, ca_entries := es\<rparr> \<and> length es \<le> length (ca_entries c) \<and> set es \<subseteq> set (ca_entries c)"
  unfolding without_def by (intro exI conjI refl) (auto simp: length_delete_alist set_delete_alist)

lemma without_bytes:
  assumes "table_ok c"
  shows "ca_retainedBytes (without k c) \<le> ca_retainedBytes c"
  using table_okD(3) [OF assms] by (auto simp: without_def split: option.splits dest: map_of_mem)

text \<open>The least recently used entry is found as long as the access counter has not reached the end of its range.\<close>

lemma oldest_fold:
  assumes "fold (\<lambda>(k, v) (oldestKey, oldest). if ce_access v < oldest then (k, ce_access v) else (oldestKey, oldest)) m (k0, a0) = (k, a)"
  shows "(\<forall>(k', e) \<in> set m. a \<le> ce_access e) \<and> (a = a0 \<and> k = k0 \<or> a < a0 \<and> (\<exists>e. (k, e) \<in> set m \<and> ce_access e = a))"
  using assms
proof (induction m arbitrary: k0 a0)
  case (Cons p m)
  obtain k' e where p: "p = (k', e)" by (cases p)
  show ?case
  proof (cases "ce_access e < a0")
    case True
    with Cons.IH [of k' "ce_access e"] Cons.prems p show ?thesis by force
  next
    case False
    with Cons.IH [of k0 a0] Cons.prems p show ?thesis by force
  qed
qed simp

lemma oldest_key_least:
  assumes "ca_entries c \<noteq> []" and "\<And>k e. (k, e) \<in> set (ca_entries c) \<Longrightarrow> ce_access e < 2 ^ 64 - 1"
  shows "\<exists>e. (oldest_key c, e) \<in> set (ca_entries c) \<and> (\<forall>(k', e') \<in> set (ca_entries c). ce_access e \<le> ce_access e')"
proof -
  obtain k a where f: "fold (\<lambda>(k, v) (oldestKey, oldest). if ce_access v < oldest then (k, ce_access v) else (oldestKey, oldest))
      (ca_entries c) (ca_zeroKey c, 2 ^ 64 - 1) = (k, a)" by (rule prod.exhaust)
  note o = oldest_fold [OF f]
  obtain k' e' where m: "(k', e') \<in> set (ca_entries c)" using assms(1) by (cases "ca_entries c") auto
  have "a < 2 ^ 64 - 1" using o m assms(2) [OF m] by auto
  with o f show ?thesis unfolding oldest_key_def by auto
qed

text \<open>What the eviction loop leaves, whenever it ends.\<close>

definition room_for :: "'v coalesceBudget \<Rightarrow> int \<Rightarrow> ('k, 'v) coalesceCache \<Rightarrow> bool" where
  "room_for b need c \<longleftrightarrow> ca_entries c = [] \<or> (int (length (ca_entries c)) < ca_maxEntries c \<and> ca_retainedBytes c + need \<le> bu_maxBytes b)"

definition shrunk :: "('k, 'v) coalesceCache \<Rightarrow> ('k, 'v) coalesceCache \<Rightarrow> bool" where
  "shrunk c c' \<longleftrightarrow> (\<exists>r es. c' = c\<lparr>ca_retainedBytes := r, ca_entries := es\<rparr> \<and> set es \<subseteq> set (ca_entries c))"

lemma shrunk_refl: "shrunk c c"
  unfolding shrunk_def by (intro exI [of _ "ca_retainedBytes c"] exI [of _ "ca_entries c"]) simp

lemma shrunk_trans:
  assumes "shrunk c c'" and "shrunk c' c''"
  shows "shrunk c c''"
proof -
  from assms obtain r es r' es' where "c' = c\<lparr>ca_retainedBytes := r, ca_entries := es\<rparr>" "set es \<subseteq> set (ca_entries c)"
    "c'' = c'\<lparr>ca_retainedBytes := r', ca_entries := es'\<rparr>" "set es' \<subseteq> set (ca_entries c')" by (auto simp: shrunk_def)
  then show ?thesis unfolding shrunk_def by (intro exI [of _ r'] exI [of _ es']) auto
qed

lemma shrunk_without: "shrunk c (without k c)"
  using without_fields [of k c] unfolding shrunk_def by auto

lemma evict_loop_partial:
  "evict_loop b need c = Some c' \<Longrightarrow> table_ok c \<longrightarrow> table_ok c' \<and> room_for b need c' \<and> shrunk c c'"
proof (rule evict_loop.raw_induct [where P = "\<lambda>b need c c'. table_ok c \<longrightarrow> table_ok c' \<and> room_for b need c' \<and> shrunk c c'"], goal_cases)
  case (1 loop b need c c')
  show ?case
  proof (cases "ca_entries c \<noteq> [] \<and> (int (length (ca_entries c)) \<ge> ca_maxEntries c \<or> ca_retainedBytes c + need > bu_maxBytes b)")
    case True
    with 1(3) have "loop b need (evict_oldest c) = Some c'" by simp
    from 1(2) [OF this] show ?thesis
      using shrunk_trans [OF shrunk_without [of c "oldest_key c"]] without_table [of c "oldest_key c"] by (auto simp: evict_oldest_without)
  next
    case False
    with 1(3) have "c' = c" by (simp split: if_splits)
    with False show ?thesis by (auto simp: room_for_def shrunk_refl)
  qed
qed

lemma evict_loop_ends:
  assumes "\<And>k e. (k, e) \<in> set (ca_entries c) \<Longrightarrow> ce_access e < 2 ^ 64 - 1"
  shows "\<exists>c'. evict_loop b need c = Some c'"
  using assms
proof (induction "length (ca_entries c)" arbitrary: c rule: less_induct)
  case less
  show ?case
  proof (cases "ca_entries c \<noteq> [] \<and> (int (length (ca_entries c)) \<ge> ca_maxEntries c \<or> ca_retainedBytes c + need > bu_maxBytes b)")
    case True
    then obtain e where e: "(oldest_key c, e) \<in> set (ca_entries c)" using oldest_key_least [of c] less.prems by blast
    have "length (ca_entries (evict_oldest c)) < length (ca_entries c)"
      unfolding evict_oldest_without without_def using e by (simp add: AList.delete_eq length_filter_less)
    moreover have "set (ca_entries (evict_oldest c)) \<subseteq> set (ca_entries c)"
      by (auto simp: evict_oldest_without without_def set_delete_alist)
    ultimately have "\<exists>c'. evict_loop b need (evict_oldest c) = Some c'" using less.prems by (intro less.hyps) auto
    with True show ?thesis by (subst evict_loop.simps) simp
  next
    case False
    then show ?thesis by (subst evict_loop.simps) auto
  qed
qed

lemma touch_table:
  assumes "table_ok c" and "0 \<le> ce_size e" and "ce_epoch e = ca_epoch c"
  shows "table_ok (touchBounded k e (c\<lparr>ca_retainedBytes := ca_retainedBytes c - (case map_of (ca_entries c) k of Some e \<Rightarrow> ce_size e | None \<Rightarrow> 0) + ce_size e\<rparr>))"
  using assms by (auto simp: table_ok_def touchBounded_def bytes_of_update set_update_alist intro!: add_increasing2)

lemma touch_table_present:
  assumes t: "table_ok c" and e: "map_of (ca_entries c) k = Some e"
  shows "table_ok (touchBounded k e c)" and "ca_retainedBytes (touchBounded k e c) = ca_retainedBytes c"
    and "length (ca_entries (touchBounded k e c)) = length (ca_entries c)"
proof -
  have m: "(k, e) \<in> set (ca_entries c)" using e by (rule map_of_mem)
  from touch_table [OF t, of e k] table_okD(3,5) [OF t m] e show "table_ok (touchBounded k e c)" by simp
  show "ca_retainedBytes (touchBounded k e c) = ca_retainedBytes c" by (simp add: touchBounded_def)
  show "length (ca_entries (touchBounded k e c)) = length (ca_entries c)"
    using m by (simp add: touchBounded_def length_update_alist image_iff) (metis fst_conv)
qed

lemma putBounded_table:
  assumes put: "putBounded b k e c = Some c'" and t: "table_ok c" and e: "0 \<le> ce_size e" "ce_size e \<le> bu_maxBytes b" "ce_epoch e = ca_epoch c"
    and m: "1 \<le> ca_maxEntries c"
  shows "table_bounded b c' \<and> (\<exists>r es n. c' = c\<lparr>ca_retainedBytes := r, ca_entries := es, ca_accessSequence := n\<rparr> \<and>
    map_of es k = Some (e\<lparr>ce_access := n\<rparr>) \<and> (\<forall>k' e'. (k', e') \<in> set es \<longrightarrow> k' = k \<or> (k', e') \<in> set (ca_entries c)))"
proof -
  from put obtain d where d: "evict_loop b (ce_size e) (without k c) = Some d"
    and c': "c' = touchBounded k e (d\<lparr>ca_retainedBytes := ca_retainedBytes d + ce_size e\<rparr>)"
    by (auto simp: putBounded_def drop_old_without)
  from evict_loop_partial [OF d] without_table [OF t, of k]
  have td: "table_ok d" and r: "room_for b (ce_size e) d" and sh: "shrunk (without k c) d" by auto
  then obtain r' es where d': "d = (without k c)\<lparr>ca_retainedBytes := r', ca_entries := es\<rparr>" and es: "set es \<subseteq> set (AList.delete k (ca_entries c))"
    by (auto simp: shrunk_def without_def)
  have out: "map_of (ca_entries d) k = None" using es by (auto simp: d' map_of_eq_None_iff set_delete_alist)
  have "table_ok c'" using touch_table [OF td e(1), of k] e(3) out unfolding c' by (simp add: d' without_def)
  moreover have "ca_retainedBytes d = 0" if "ca_entries d = []" using table_okD(2) [OF td] that by (simp add: bytes_of_def)
  then have "ca_retainedBytes c' \<le> bu_maxBytes b" using r e(2) by (auto simp: c' touchBounded_def room_for_def)
  moreover have "int (length (ca_entries c')) \<le> ca_maxEntries c'"
    using r m out by (auto simp: c' touchBounded_def room_for_def length_update_alist map_of_eq_None_iff d' without_def)
  ultimately have "table_bounded b c'" by (simp add: table_bounded_def)
  moreover have "c' = c\<lparr>ca_retainedBytes := r' + ce_size e, ca_entries := AList.update k (e\<lparr>ce_access := ca_accessSequence c + 1\<rparr>) es,
      ca_accessSequence := ca_accessSequence c + 1\<rparr>" by (simp add: c' d' without_def touchBounded_def)
  moreover have "gomap_ok es" using table_okD(1) [OF td] by (simp add: d')
  then have "(k', e') \<in> set (AList.update k (e\<lparr>ce_access := ca_accessSequence c + 1\<rparr>) es) \<Longrightarrow> k' = k \<or> (k', e') \<in> set (ca_entries c)" for k' e'
    using es by (auto simp: set_update_alist set_delete_alist)
  ultimately show ?thesis by (intro conjI exI [of _ "r' + ce_size e"] exI [of _ "AList.update k (e\<lparr>ce_access := ca_accessSequence c + 1\<rparr>) es"]
      exI [of _ "ca_accessSequence c + 1"]) (auto simp: update_conv')
qed

section \<open>The calls\<close>

lemma update_call_fields [simp]:
  "ca_entries (update_call i f c) = ca_entries c" "ca_retainedBytes (update_call i f c) = ca_retainedBytes c"
  "ca_accessSequence (update_call i f c) = ca_accessSequence c" "ca_inflight (update_call i f c) = ca_inflight c"
  "ca_epoch (update_call i f c) = ca_epoch c" "ca_maxEntries (update_call i f c) = ca_maxEntries c"
  "ca_buildSem (update_call i f c) = ca_buildSem c" "ca_maxBuilds (update_call i f c) = ca_maxBuilds c"
  "ca_building (update_call i f c) = ca_building c" "length (ca_calls (update_call i f c)) = length (ca_calls c)"
  by (simp_all add: update_call_def)

lemma update_call_nth: "j < length (ca_calls c) \<Longrightarrow> ca_calls (update_call i f c) ! j = (if i = j then f (ca_calls c ! j) else ca_calls c ! j)"
  by (simp add: update_call_def)

lemma update_call_all: "(\<And>call. P call \<Longrightarrow> P (f call)) \<Longrightarrow> list_all P (ca_calls c) \<Longrightarrow> list_all P (ca_calls (update_call i f c))"
  by (auto simp: update_call_def list_all_length nth_list_update)

lemma table_bounded_cong:
  assumes "ca_entries c' = ca_entries c" "ca_retainedBytes c' = ca_retainedBytes c" "ca_accessSequence c' = ca_accessSequence c"
    "ca_epoch c' = ca_epoch c" "ca_maxEntries c' = ca_maxEntries c"
  shows "table_bounded b c' = table_bounded b c"
  using assms by (simp add: table_bounded_def table_ok_def)

definition calls_ok :: "'v coalesceBudget \<Rightarrow> ('k, 'v) coalesceCache \<Rightarrow> bool" where
  "calls_ok b c \<longleftrightarrow> gomap_ok (ca_inflight c) \<and> int (length (ca_inflight c)) \<le> bu_maxInflight b \<and>
     list_all (\<lambda>(k, i). i < length (ca_calls c)) (ca_inflight c) \<and> list_all cl_cancel (ca_calls c)"

definition builds_ok :: "('k, 'v) coalesceCache \<Rightarrow> bool" where
  "builds_ok c \<longleftrightarrow> ca_buildSem c = length (ca_building c) \<and> ca_buildSem c \<le> ca_maxBuilds c"

definition bounded_inv :: "'v coalesceBudget \<Rightarrow> ('k, 'v) coalesceCache \<Rightarrow> bool" where
  "bounded_inv b c \<longleftrightarrow> 1 \<le> ca_maxEntries c \<and> table_bounded b c \<and> calls_ok b c \<and> builds_ok c"

lemma calls_ok_update: "calls_ok b c \<Longrightarrow> (\<And>call. cl_cancel (f call) = cl_cancel call) \<Longrightarrow> calls_ok b (update_call i f c)"
  unfolding calls_ok_def using update_call_all [of cl_cancel f c i] by simp

lemma bounded_inv_update: "bounded_inv b c \<Longrightarrow> (\<And>call. cl_cancel (f call) = cl_cancel call) \<Longrightarrow> bounded_inv b (update_call i f c)"
  unfolding bounded_inv_def
  by (auto simp: calls_ok_update builds_ok_def table_bounded_cong [of "update_call i f c" c])

text \<open>The counters of the statistics are not part of the invariant.\<close>

lemma bounded_inv_stats [simp]:
  "bounded_inv b (c\<lparr>ca_hits := n\<rparr>) = bounded_inv b c" "bounded_inv b (c\<lparr>ca_misses := n\<rparr>) = bounded_inv b c"
  "bounded_inv b (c\<lparr>ca_builds := n\<rparr>) = bounded_inv b c" "bounded_inv b (c\<lparr>ca_buildFailed := n\<rparr>) = bounded_inv b c"
  "bounded_inv b (c\<lparr>ca_waiters := n\<rparr>) = bounded_inv b c"
  by (simp_all add: bounded_inv_def table_bounded_def table_ok_def calls_ok_def builds_ok_def)

lemma fold_update_call:
  fixes c :: "('k, 'v) coalesceCache"
  assumes "\<And>i c. P c \<Longrightarrow> P (update_call i f c)" and "P c"
  shows "P (fold (\<lambda>i. update_call i f) is c)"
  using assms(2) by (induction "is" arbitrary: c) (simp_all add: assms(1))

lemma inv_touch: "bounded_inv b c \<Longrightarrow> map_of (ca_entries c) k = Some e \<Longrightarrow> bounded_inv b (touchBounded k e c)"
  using touch_table_present [of c k e]
  by (simp add: bounded_inv_def table_bounded_def calls_ok_def builds_ok_def) (simp add: touchBounded_def)

lemma inv_joined: "bounded_inv b c \<Longrightarrow> bounded_inv b (snd (joined i c))"
  by (simp add: joined_def bounded_inv_update)

lemma inv_start:
  assumes "bounded_inv b c" and "map_of (ca_inflight c) key = None" and "int (length (ca_inflight c)) < bu_maxInflight b"
  shows "bounded_inv b (start_call key (new_call z generation epoch True) c)"
proof -
  have "list_all (\<lambda>(k, i). i < Suc (length (ca_calls c))) (AList.update key (length (ca_calls c)) (ca_inflight c))"
    using assms(1) by (auto simp: bounded_inv_def calls_ok_def list_all_iff set_update_alist dest!: bspec)
  then show ?thesis using assms
    by (simp add: bounded_inv_def table_bounded_def table_ok_def calls_ok_def builds_ok_def start_call_def new_call_def
        length_update_alist map_of_None_notin)
qed

lemma inv_join_bounded: "bounded_inv b c \<Longrightarrow> bounded_inv b (snd (join_bounded b key generation c))"
  unfolding join_bounded_def running_call_def
  by (cases "map_of (ca_inflight c) key") (simp_all add: inv_joined inv_start)

lemma inv_enter: "bounded_inv b c \<Longrightarrow> getBounded_enter b key generation now ctxErr c = (answer, c') \<Longrightarrow> bounded_inv b c'"
  using inv_join_bounded [of b c key generation] inv_touch [of b c key]
  by (auto simp: getBounded_enter_def Let_def split: option.splits if_splits dest: arg_cong [where f = snd])

lemma inv_leave: "bounded_inv b c \<Longrightarrow> bounded_inv b (getBounded_leave i key c)"
  by (simp add: getBounded_leave_def Let_def bounded_inv_update)

lemma inv_clear: "bounded_inv b c \<Longrightarrow> 0 \<le> bu_maxBytes b \<Longrightarrow> bounded_inv b (cache_clear c)"
  unfolding cache_clear_def
  by (rule fold_update_call)
    (simp_all add: bounded_inv_update abandon_def, simp add: bounded_inv_def table_bounded_def table_ok_def calls_ok_def builds_ok_def bytes_of_def)

lemma inv_without:
  assumes "bounded_inv b c"
  shows "bounded_inv b (without k c)"
proof -
  from assms have t: "table_ok c" by (simp add: bounded_inv_def table_bounded_def)
  have "length (ca_entries (without k c)) \<le> length (ca_entries c)" by (simp add: without_def length_delete_alist)
  with assms without_table [OF t, of k] without_bytes [OF t, of k] show ?thesis
    by (simp add: bounded_inv_def table_bounded_def calls_ok_def builds_ok_def) (simp add: without_def)
qed

lemma cache_remove_without:
  "cache_remove key c = (case map_of (ca_inflight c) key of Some i \<Rightarrow> update_call i abandon (without key c) | None \<Rightarrow> without key c)"
  by (simp add: cache_remove_def without_def Let_def split: option.splits)

lemma inv_remove: "bounded_inv b c \<Longrightarrow> bounded_inv b (cache_remove key c)"
  unfolding cache_remove_without by (simp add: inv_without bounded_inv_update abandon_def split: option.splits)

lemma inv_begin: "bounded_inv b c \<Longrightarrow> acquireBuild c = Some c' \<Longrightarrow> bounded_inv b (c'\<lparr>ca_building := i # ca_building c\<rparr>)"
  by (auto simp: acquireBuild_def bounded_inv_def table_bounded_def table_ok_def calls_ok_def builds_ok_def split: if_splits)

lemma inv_end:
  assumes "bounded_inv b c" and "i \<in> set (ca_building c)"
  shows "bounded_inv b (releaseBuild (c\<lparr>ca_building := remove1 i (ca_building c)\<rparr>))"
  using assms length_pos_if_in_set [OF assms(2)]
  by (simp add: releaseBuild_def bounded_inv_def table_bounded_def table_ok_def calls_ok_def builds_ok_def length_remove1) linarith

text \<open>The entry a build leaves fits the budget.\<close>

lemma build_result_size:
  assumes "buildBounded_result b z acquireErr ctxErr build ctxErr' = (v, observed, None, bytes)" and "\<And>v. 0 \<le> bu_size b v"
  shows "0 \<le> bytes \<and> bytes \<le> bu_maxBytes b"
  using assms by (auto simp: buildBounded_result_def Let_def split_beta split: if_splits)

lemma bounded_entry_fits:
  assumes t: "table_bounded b c" and e: "epoch = ca_epoch c" and m: "0 \<le> bu_maxBytes b"
    and r: "\<And>v observed bytes. result = (v, observed, None, bytes) \<Longrightarrow> 0 \<le> bytes \<and> bytes \<le> bu_maxBytes b"
  shows "0 \<le> ce_size (bounded_entry b now key generation epoch result c)"
    and "ce_size (bounded_entry b now key generation epoch result c) \<le> bu_maxBytes b"
    and "ce_epoch (bounded_entry b now key generation epoch result c) = ca_epoch c"
proof -
  obtain v observed err bytes where res: "result = (v, observed, err, bytes)" by (cases result)
  have old: "0 \<le> ce_size x \<and> ce_size x \<le> bu_maxBytes b \<and> ce_epoch x = ca_epoch c" if "map_of (ca_entries c) key = Some x" for x
  proof -
    have ok: "table_ok c" and le: "ca_retainedBytes c \<le> bu_maxBytes b" using t by (simp_all add: table_bounded_def)
    have "0 \<le> bytes_of (AList.delete key (ca_entries c))" using table_okD(3) [OF ok] by (intro bytes_of_nonneg) (auto simp: set_delete_alist)
    with bytes_of_delete [OF table_okD(1) [OF ok], of key] that table_okD(2) [OF ok] le table_okD(3,5) [OF ok map_of_mem [OF that]]
    show ?thesis by simp
  qed
  have "0 \<le> ce_size (bounded_entry b now key generation epoch result c) \<and>
      ce_size (bounded_entry b now key generation epoch result c) \<le> bu_maxBytes b \<and>
      ce_epoch (bounded_entry b now key generation epoch result c) = ca_epoch c"
    using old r m e unfolding bounded_entry_def res
    by (auto simp: zero_entry_def Let_def split: option.splits if_splits)
  then show "0 \<le> ce_size (bounded_entry b now key generation epoch result c)"
    and "ce_size (bounded_entry b now key generation epoch result c) \<le> bu_maxBytes b"
    and "ce_epoch (bounded_entry b now key generation epoch result c) = ca_epoch c" by simp_all
qed

lemma inv_inflight_delete: "bounded_inv b c \<Longrightarrow> bounded_inv b (c\<lparr>ca_inflight := AList.delete key (ca_inflight c)\<rparr>)"
  using length_delete_alist [of key "ca_inflight c"]
  by (auto simp: bounded_inv_def table_bounded_def table_ok_def calls_ok_def builds_ok_def list_all_iff set_delete_alist)

lemma inv_put:
  assumes inv: "bounded_inv b c" and put: "putBounded b k e c = Some c'"
    and e: "0 \<le> ce_size e" "ce_size e \<le> bu_maxBytes b" "ce_epoch e = ca_epoch c"
  shows "bounded_inv b c'"
proof -
  from inv have "table_ok c" "1 \<le> ca_maxEntries c" by (simp_all add: bounded_inv_def table_bounded_def)
  with putBounded_table [OF put _ e] obtain r es n where "table_bounded b c'" "c' = c\<lparr>ca_retainedBytes := r, ca_entries := es, ca_accessSequence := n\<rparr>"
    by blast
  with inv show ?thesis by (simp add: bounded_inv_def calls_ok_def builds_ok_def)
qed

text \<open>The two ways a build ends: its call was abandoned, or its entry is offered to the table.\<close>

lemma buildBounded_doneE:
  assumes "buildBounded_done b now key generation i result c = Some c'"
  obtains (dropped) "cl_abandoned (ca_calls c ! i) \<or> cl_epoch (ca_calls c ! i) \<noteq> ca_epoch c"
      "c' = update_call i (\<lambda>call. call\<lparr>cl_err := Some context_Canceled, cl_done := True, cl_cancelled := True\<rparr>)
         (c\<lparr>ca_inflight := AList.delete key (ca_inflight c)\<rparr>)"
  | (offered) entry answer n d where "\<not> cl_abandoned (ca_calls c ! i)" "cl_epoch (ca_calls c ! i) = ca_epoch c"
      "entry = bounded_entry b now key generation (ca_epoch c) result c"
      "answer = (if fst (snd (snd result)) \<noteq> None \<and> \<not> IsZero (ce_dataAsOf entry) then None else fst (snd (snd result)))"
      "if (ca_ttl c > 0 \<or> fst (snd (snd result)) \<noteq> None) \<and> (case ca_retain c of None \<Rightarrow> True | Some retain \<Rightarrow> retain key)
       then putBounded b key entry (c\<lparr>ca_inflight := AList.delete key (ca_inflight c), ca_buildFailed := n\<rparr>) = Some d
       else d = c\<lparr>ca_inflight := AList.delete key (ca_inflight c), ca_buildFailed := n\<rparr>"
      "c' = update_call i (\<lambda>call. call\<lparr>cl_entry := entry, cl_err := answer, cl_done := True, cl_cancelled := True\<rparr>) d"
proof (cases "cl_abandoned (ca_calls c ! i) \<or> cl_epoch (ca_calls c ! i) \<noteq> ca_epoch c")
  case True
  with assms show thesis by (intro dropped) (simp_all add: buildBounded_done_def Let_def)
next
  case False
  define entry where "entry = bounded_entry b now key generation (ca_epoch c) result c"
  define n where "n = (if fst (snd (snd result)) \<noteq> None then ca_buildFailed c + 1 else ca_buildFailed c)"
  define put where "put \<longleftrightarrow> (ca_ttl c > 0 \<or> fst (snd (snd result)) \<noteq> None) \<and> (case ca_retain c of None \<Rightarrow> True | Some retain \<Rightarrow> retain key)"
  define answer where "answer = (if fst (snd (snd result)) \<noteq> None \<and> \<not> IsZero (ce_dataAsOf entry) then None else fst (snd (snd result)))"
  have same: "bounded_entry b now key generation e result (c\<lparr>ca_inflight := x\<rparr>) = bounded_entry b now key generation e result c" for e x
    by (simp add: bounded_entry_def Let_def split: prod.splits option.splits)
  have "buildBounded_done b now key generation i result c =
      map_option (update_call i (\<lambda>call. call\<lparr>cl_entry := entry, cl_err := answer, cl_done := True, cl_cancelled := True\<rparr>))
        (if put then putBounded b key entry (c\<lparr>ca_inflight := AList.delete key (ca_inflight c), ca_buildFailed := n\<rparr>)
         else Some (c\<lparr>ca_inflight := AList.delete key (ca_inflight c), ca_buildFailed := n\<rparr>))"
    using False by (cases "fst (snd (snd result))") (simp_all add: buildBounded_done_def Let_def same entry_def answer_def n_def put_def)
  with assms have "map_option (update_call i (\<lambda>call. call\<lparr>cl_entry := entry, cl_err := answer, cl_done := True, cl_cancelled := True\<rparr>))
      (if put then putBounded b key entry (c\<lparr>ca_inflight := AList.delete key (ca_inflight c), ca_buildFailed := n\<rparr>)
       else Some (c\<lparr>ca_inflight := AList.delete key (ca_inflight c), ca_buildFailed := n\<rparr>)) = Some c'" by (simp only:)
  then obtain d where d: "(if put then putBounded b key entry (c\<lparr>ca_inflight := AList.delete key (ca_inflight c), ca_buildFailed := n\<rparr>)
       else Some (c\<lparr>ca_inflight := AList.delete key (ca_inflight c), ca_buildFailed := n\<rparr>)) = Some d"
    and c': "c' = update_call i (\<lambda>call. call\<lparr>cl_entry := entry, cl_err := answer, cl_done := True, cl_cancelled := True\<rparr>) d"
    unfolding map_option_eq_Some by blast
  show thesis using False d by (intro offered [OF _ _ entry_def answer_def _ c']) (auto simp: put_def split: if_splits)
qed

lemma inv_done:
  assumes inv: "bounded_inv b c" and m: "0 \<le> bu_maxBytes b" and sz: "\<And>v. 0 \<le> bu_size b v"
    and d: "buildBounded_done b now key generation i (buildBounded_result b z acquireErr ctxErr build ctxErr') c = Some c'"
  shows "bounded_inv b c'"
  using d
proof (cases rule: buildBounded_doneE)
  case dropped
  then show ?thesis using inv by (simp add: bounded_inv_update inv_inflight_delete)
next
  case (offered entry answer n d)
  define c1 where "c1 = c\<lparr>ca_inflight := AList.delete key (ca_inflight c), ca_buildFailed := n\<rparr>"
  have inv1: "bounded_inv b c1" using inv unfolding c1_def by (simp add: inv_inflight_delete)
  have t: "table_bounded b c" using inv by (simp add: bounded_inv_def)
  have "0 \<le> ce_size entry" "ce_size entry \<le> bu_maxBytes b" "ce_epoch entry = ca_epoch c1"
    using bounded_entry_fits [OF t refl m, of "buildBounded_result b z acquireErr ctxErr build ctxErr'" now key generation]
      build_result_size [OF _ sz] by (simp_all add: offered(3) c1_def)
  then have "bounded_inv b d" using offered(5) inv1 unfolding c1_def [symmetric] by (auto split: if_splits elim: inv_put [OF inv1])
  then show ?thesis unfolding offered(6) by (rule bounded_inv_update) simp
qed

definition with_budget :: "'v coalesceBudget \<Rightarrow> ('k \<Rightarrow> bool) option \<Rightarrow> duration \<Rightarrow> ('k, 'v) coalesceCache \<Rightarrow> ('k, 'v) coalesceCache" where
  "with_budget b retain maxStale c = c\<lparr>ca_budget := Some b, ca_retain := retain, ca_maxStale := maxStale\<rparr>"

definition bounded_start :: "'v coalesceBudget \<Rightarrow> ('k, 'v) coalesceCache \<Rightarrow> bool" where
  "bounded_start b c \<longleftrightarrow> 0 \<le> bu_maxBytes b \<and> 0 \<le> bu_maxInflight b \<and> (\<forall>v. 0 \<le> bu_size b v) \<and>
     (\<exists>zk zv ttl maxEntries maxBuilds retain maxStale. c = with_budget b retain maxStale (newCoalesceCache zk zv ttl maxEntries maxBuilds))"

lemma inv_step:
  assumes "bounded_step b c c'" and "bounded_inv b c" and "0 \<le> bu_maxBytes b" and "\<forall>v. 0 \<le> bu_size b v"
  shows "bounded_inv b c'"
  using assms by cases (auto intro: inv_enter inv_leave inv_begin inv_end inv_done inv_clear inv_remove)

interpretation cb: inv_system "bounded_start b" "bounded_step b"
    "\<lambda>c. bounded_inv b c \<and> 0 \<le> bu_maxBytes b \<and> (\<forall>v. 0 \<le> bu_size b v)" for b :: "'v coalesceBudget"
proof unfold_locales
  show "bounded_inv b c \<and> 0 \<le> bu_maxBytes b \<and> (\<forall>v. 0 \<le> bu_size b v)" if "bounded_start b c" for c :: "('k, 'v) coalesceCache"
    using that
    by (auto simp: bounded_start_def bounded_inv_def table_bounded_def table_ok_def calls_ok_def builds_ok_def bytes_of_def
        with_budget_def newCoalesceCache_def Let_def)
  show "bounded_inv b c' \<and> 0 \<le> bu_maxBytes b \<and> (\<forall>v. 0 \<le> bu_size b v)"
    if "bounded_inv b c \<and> 0 \<le> bu_maxBytes b \<and> (\<forall>v. 0 \<le> bu_size b v)" "bounded_step b c c'" for c c' :: "('k, 'v) coalesceCache"
    using that inv_step by blast
qed

section \<open>What the cache guarantees\<close>

subsection \<open>A run\<close>

definition demo_budget :: "string coalesceBudget" where
  "demo_budget = \<lparr>bu_maxBytes = 10, bu_maxEntryBytes = 6, bu_maxInflight = 2, bu_timeout = 5, bu_retryDelay = 5, bu_size = int \<circ> length\<rparr>"

definition demo_cache :: "(int, string) coalesceCache" where
  "demo_cache = with_budget demo_budget (Some (\<lambda>key. 0 < key)) 50 (newCoalesceCache 0 [] 10 4 1)"

definition demo_build :: "int \<Rightarrow> time \<Rightarrow> string \<Rightarrow> error option \<Rightarrow> (int, string) coalesceCache \<Rightarrow> (int, string) coalesceCache" where
  "demo_build key now v err c =
     (let c = snd (getBounded_enter demo_budget key 1 now None c); i = the (map_of (ca_inflight c) key)
      in the (buildBounded_done demo_budget now key (cl_generation (ca_calls c ! i)) i
                (buildBounded_result demo_budget (ca_zero c) None None (v, now, err) None) c))"

text \<open>The second value of six bytes evicts the first.\<close>

definition demo_first :: "(int, string) coalesceCache" where
  "demo_first = demo_build 1 100 ''abcdef'' None demo_cache"

definition demo_second :: "(int, string) coalesceCache" where
  "demo_second = demo_build 2 101 ''ghijkl'' None demo_first"

lemma demo_start: "bounded_start demo_budget demo_cache"
  unfolding bounded_start_def demo_cache_def by (intro conjI exI [of _ "0 :: int"]) (simp_all add: demo_budget_def, blast)

lemma demo_build_steps:
  assumes "map_of (ca_inflight (snd (getBounded_enter demo_budget key 1 now None c))) key = Some i"
    and "ca_building (snd (getBounded_enter demo_budget key 1 now None c)) = []"
    and "Option.is_none (buildBounded_done demo_budget now key (cl_generation (ca_calls (snd (getBounded_enter demo_budget key 1 now None c)) ! i)) i
       (buildBounded_result demo_budget (ca_zero (snd (getBounded_enter demo_budget key 1 now None c))) None None (v, now, err) None)
       (snd (getBounded_enter demo_budget key 1 now None c))) = False"
  shows "(bounded_step demo_budget)\<^sup>*\<^sup>* c (demo_build key now v err c)"
proof -
  define d where "d = snd (getBounded_enter demo_budget key 1 now None c)"
  have "bounded_step demo_budget c d" unfolding d_def by (rule bounded_step.enter) (rule surjective_pairing)
  moreover have "bounded_step demo_budget d (demo_build key now v err c)"
    using assms unfolding demo_build_def Let_def d_def [symmetric]
    by (intro bounded_step.finished [of d key i _ now None None "(v, now, err)" None]) (auto simp: Option.is_none_def)
  ultimately show ?thesis by simp
qed

lemma demo_first_steps: "(bounded_step demo_budget)\<^sup>*\<^sup>* demo_cache demo_first"
  unfolding demo_first_def by (rule demo_build_steps [where i = 0]) code_simp+

lemma demo_second_steps: "(bounded_step demo_budget)\<^sup>*\<^sup>* demo_cache demo_second"
proof -
  have "(bounded_step demo_budget)\<^sup>*\<^sup>* demo_first demo_second"
    unfolding demo_second_def by (rule demo_build_steps [where i = 1]) code_simp+
  with demo_first_steps show ?thesis by (rule rtranclp_trans)
qed

lemma demo_values: "map fst (ca_entries demo_second) = [2]" "ca_retainedBytes demo_second = 6" "ca_accessSequence demo_second = 2"
  by code_simp+

subsection \<open>The budget\<close>

text \<open>C11. A cache with a budget stays within it in every interleaving of readers, builds, invalidations and removals: the
  byte counter is the sum of the sizes of the entries it holds and never exceeds \<open>maxBytes\<close>, there are never more than
  \<open>maxEntries\<close> entries and \<open>maxInflight\<close> running calls, and at most as many build functions run at once as the
  semaphore has tokens.\<close>

theorem cache_within_budget:
  assumes "bounded_start b c0" and "(bounded_step b)\<^sup>*\<^sup>* c0 c"
  shows "ca_retainedBytes c = bytes_of (ca_entries c) \<and> ca_retainedBytes c \<le> bu_maxBytes b \<and> int (length (ca_entries c)) \<le> ca_maxEntries c \<and>
    int (length (ca_inflight c)) \<le> bu_maxInflight b \<and> length (ca_building c) \<le> ca_maxBuilds c"
  using cb.reached_inv [OF assms]
  by (simp add: bounded_inv_def table_bounded_def table_ok_def calls_ok_def builds_ok_def)

theorem cache_within_budget_witness:
  "bytes_of (ca_entries demo_second) \<le> 10 \<and> map fst (ca_entries demo_second) = [2]"
  using cache_within_budget [OF demo_start demo_second_steps] demo_values(1) by (simp add: demo_budget_def)

text \<open>The critical section that stores the result of a build ends: as long as the access counter has not reached the
  largest 64-bit number, the loop that evicts the least recently used entries makes room after finitely many rounds,
  in every reachable state and for every result.\<close>

theorem eviction_terminates:
  assumes "bounded_start b c0" and "(bounded_step b)\<^sup>*\<^sup>* c0 c" and "ca_accessSequence c < 2 ^ 64 - 1"
  shows "\<exists>c'. buildBounded_done b now key generation i result c = Some c'"
proof -
  have t: "table_ok c" using cb.reached_inv [OF assms(1,2)] by (simp add: bounded_inv_def table_bounded_def)
  have "ce_access e < 2 ^ 64 - 1" if "(k, e) \<in> set (ca_entries c)" for k e using table_okD(4) [OF t that] assms(3) by simp
  then have "\<exists>d. evict_loop b need (without key (c\<lparr>ca_inflight := x, ca_buildFailed := n\<rparr>)) = Some d"
    "\<exists>d. evict_loop b need (without key (c\<lparr>ca_inflight := x\<rparr>)) = Some d" for need x n
    by (auto intro!: evict_loop_ends simp: without_def set_delete_alist)
  then show ?thesis by (auto simp: buildBounded_done_def Let_def putBounded_def drop_old_without)
qed

theorem eviction_terminates_witness:
  "\<exists>c'. buildBounded_done demo_budget 102 3 1 1 (''mnopqr'', 102, None, 6) demo_second = Some c'"
  using eviction_terminates [OF demo_start demo_second_steps, of 102 3 1 1 "(''mnopqr'', 102, None, 6)"] demo_values(3) by simp

subsection \<open>Invalidation\<close>

text \<open>A call that was abandoned stays abandoned.\<close>

definition keeps_abandoned :: "('k, 'v) coalesceCache \<Rightarrow> ('k, 'v) coalesceCache \<Rightarrow> bool" where
  "keeps_abandoned c c' \<longleftrightarrow> length (ca_calls c) \<le> length (ca_calls c') \<and>
     (\<forall>i < length (ca_calls c). cl_abandoned (ca_calls c ! i) \<longrightarrow> cl_abandoned (ca_calls c' ! i))"

lemma keeps_same: "ca_calls c' = ca_calls c \<Longrightarrow> keeps_abandoned c c'"
  by (simp add: keeps_abandoned_def)

lemma keeps_trans: "keeps_abandoned c c' \<Longrightarrow> keeps_abandoned c' c'' \<Longrightarrow> keeps_abandoned c c''"
  by (auto simp: keeps_abandoned_def)

lemma keeps_update: "(\<And>call. cl_abandoned call \<Longrightarrow> cl_abandoned (f call)) \<Longrightarrow> keeps_abandoned c (update_call i f c)"
  by (auto simp: keeps_abandoned_def update_call_nth)

lemma keeps_cong: "ca_calls d = ca_calls d' \<Longrightarrow> keeps_abandoned c d = keeps_abandoned c d'"
  "ca_calls d = ca_calls d' \<Longrightarrow> keeps_abandoned d c = keeps_abandoned d' c"
  by (simp_all add: keeps_abandoned_def)

lemma keeps_join: "keeps_abandoned c (snd (join_bounded b key generation c))"
proof -
  have j: "keeps_abandoned c (snd (joined i c))" for i and c :: "('a, 'b) coalesceCache"
    using keeps_update [of "\<lambda>call. call\<lparr>cl_waiters := cl_waiters call + 1\<rparr>" c i]
    by (simp add: joined_def keeps_cong(1) [of "_\<lparr>ca_waiters := _, ca_misses := _\<rparr>" "update_call i _ c"])
  have s: "keeps_abandoned c ((start_call key call c)\<lparr>ca_builds := n\<rparr>)" for call n
    by (auto simp: keeps_abandoned_def start_call_def nth_append)
  show ?thesis unfolding join_bounded_def
    using j keeps_trans [OF s j] by (auto simp: keeps_same split: option.splits)
qed

lemma touch_calls: "ca_calls (touchBounded k e c) = ca_calls c"
  by (simp add: touchBounded_def)

lemma keeps_enter: "getBounded_enter b key generation now ctxErr c = (answer, c') \<Longrightarrow> keeps_abandoned c c'"
  using keeps_join [of c b key generation]
  by (auto simp: getBounded_enter_def Let_def keeps_same touch_calls split: option.splits if_splits)

lemma evict_loop_calls: "evict_loop b need c = Some c' \<Longrightarrow> ca_calls c' = ca_calls c"
proof (rule evict_loop.raw_induct [where P = "\<lambda>b need c c'. ca_calls c' = ca_calls c"], goal_cases)
  case (1 loop b need c c')
  then show ?case by (auto simp: evict_oldest_without without_def split: if_splits)
qed

lemma put_calls: "putBounded b key entry c = Some c' \<Longrightarrow> ca_calls c' = ca_calls c"
  by (auto simp: putBounded_def touch_calls drop_old_without without_def dest!: evict_loop_calls)

lemma keeps_done:
  assumes "buildBounded_done b now key generation i result c = Some c'"
  shows "keeps_abandoned c c'"
  using assms
proof (cases rule: buildBounded_doneE)
  case dropped
  then show ?thesis
    using keeps_trans [OF keeps_same keeps_update, of "c\<lparr>ca_inflight := AList.delete key (ca_inflight c)\<rparr>" c] by simp
next
  case (offered entry answer n d)
  have "ca_calls d = ca_calls c" using offered(5) by (auto split: if_splits dest: put_calls)
  then show ?thesis unfolding offered(6) by (intro keeps_trans [OF keeps_same keeps_update]) simp_all
qed

lemma keeps_abandon: "keeps_abandoned c d \<Longrightarrow> keeps_abandoned c (update_call i abandon d)"
  by (rule keeps_trans [OF _ keeps_update]) (simp_all add: abandon_def)

lemma keeps_clear: "keeps_abandoned c (cache_clear c)"
  unfolding cache_clear_def by (rule fold_update_call, rule keeps_abandon) (simp_all add: keeps_same)

lemma keeps_remove: "keeps_abandoned c (cache_remove key c)"
proof -
  have "keeps_abandoned c (without key c)" by (rule keeps_same) (simp add: without_def)
  then show ?thesis unfolding cache_remove_without by (simp add: keeps_abandon split: option.splits)
qed

lemma keeps_leave: "keeps_abandoned c (getBounded_leave i key c)"
proof -
  have "keeps_abandoned c ((update_call i (\<lambda>call. call\<lparr>cl_waiters := cl_waiters call - 1\<rparr>) c)\<lparr>ca_waiters := ca_waiters c - 1\<rparr>)"
    by (rule keeps_trans [OF keeps_update keeps_same]) simp_all
  then show ?thesis unfolding getBounded_leave_def Let_def by (auto intro: keeps_trans [OF _ keeps_update])
qed

lemma keeps_step: "bounded_step b c c' \<Longrightarrow> keeps_abandoned c c'"
  by (erule bounded_step.cases)
    (auto intro: keeps_enter keeps_done keeps_clear keeps_remove keeps_leave
      simp: acquireBuild_def releaseBuild_def keeps_same split: if_splits)

lemma keeps_steps: "(bounded_step b)\<^sup>*\<^sup>* c c' \<Longrightarrow> keeps_abandoned c c'"
  by (induction rule: rtranclp_induct) (auto intro: keeps_same keeps_trans keeps_step)

lemma abandon_fields: "cl_cancel (abandon call) = cl_cancel call" "cl_cancel call \<Longrightarrow> cl_abandoned (abandon call)"
  by (simp_all add: abandon_def)

lemma fold_abandons:
  "i \<in> set is \<Longrightarrow> i < length (ca_calls c) \<Longrightarrow> cl_cancel (ca_calls c ! i) \<Longrightarrow>
     i < length (ca_calls (fold (\<lambda>i. update_call i abandon) is c)) \<and> cl_abandoned (ca_calls (fold (\<lambda>i. update_call i abandon) is c) ! i)"
proof (induction "is" arbitrary: c)
  case (Cons j js)
  have keeps: "keeps_abandoned d (fold (\<lambda>i. update_call i abandon) js d)" for d :: "('b, 'a) coalesceCache"
    by (rule fold_update_call, rule keeps_abandon) (simp_all add: keeps_same)
  show ?case
  proof (cases "i \<in> set js")
    case True
    then show ?thesis using Cons.IH [of "update_call j abandon c"] Cons.prems(2,3) by (simp add: update_call_nth abandon_fields)
  next
    case False
    then have "cl_abandoned (ca_calls (update_call j abandon c) ! i)" using Cons.prems by (simp add: update_call_nth abandon_fields)
    with keeps [of "update_call j abandon c"] Cons.prems(2) show ?thesis by (auto simp: keeps_abandoned_def)
  qed
qed simp

lemma clear_abandons:
  assumes "calls_ok b c" and "map_of (ca_inflight c) key = Some i"
  shows "i < length (ca_calls (cache_clear c)) \<and> cl_abandoned (ca_calls (cache_clear c) ! i)"
proof -
  have "i < length (ca_calls c)" "cl_cancel (ca_calls c ! i)" "i \<in> set (map snd (ca_inflight c))"
    using assms by (auto simp: calls_ok_def list_all_iff dest!: map_of_mem intro: rev_image_eqI)
  then show ?thesis unfolding cache_clear_def by (intro fold_abandons) simp_all
qed

lemma remove_abandons:
  assumes "calls_ok b c" and "map_of (ca_inflight c) key = Some i"
  shows "i < length (ca_calls (cache_remove key c)) \<and> cl_abandoned (ca_calls (cache_remove key c) ! i)"
proof -
  have "i < length (ca_calls c)" "cl_cancel (ca_calls c ! i)" using assms by (auto simp: calls_ok_def list_all_iff dest!: map_of_mem)
  moreover have "ca_calls (without key c) = ca_calls c" by (simp add: without_def)
  ultimately show ?thesis unfolding cache_remove_without using assms(2) by (simp add: update_call_nth abandon_def)
qed

lemma abandoned_not_joined:
  assumes "i < length (ca_calls c)" and "cl_abandoned (ca_calls c ! i)"
  shows "fst (getBounded_enter b key generation now ctxErr c) \<noteq> Joined i"
  using assms
  by (auto simp: getBounded_enter_def join_bounded_def joined_def running_call_def Let_def split: option.splits if_splits)

text \<open>C33. In a cache with a budget an invalidated value cannot come back. When a key is removed or the cache is cleared while
  its build runs, then however the run continues no later reader joins that build, and when it ends its result is not
  stored and the readers that still wait for it get the cancellation error. A cache without a budget gives less: see
  the last section.\<close>

theorem invalidated_build_never_published:
  assumes start: "bounded_start b c0" "(bounded_step b)\<^sup>*\<^sup>* c0 c" and run: "map_of (ca_inflight c) key = Some i"
    and inv: "c1 = cache_remove key c \<or> c1 = cache_clear c" and later: "(bounded_step b)\<^sup>*\<^sup>* c1 c2"
  shows "map_of (ca_entries c1) key = None \<and> fst (getBounded_enter b key generation now ctxErr c2) \<noteq> Joined i \<and>
    (\<exists>c3. buildBounded_done b now key generation i result c2 = Some c3 \<and> ca_entries c3 = ca_entries c2 \<and>
       (\<exists>entry. wait i None c3 = [(entry, Some context_Canceled)]))"
proof -
  have calls: "calls_ok b c" using cb.reached_inv [OF start] by (simp add: bounded_inv_def)
  have "i < length (ca_calls c1) \<and> cl_abandoned (ca_calls c1 ! i)"
    using inv clear_abandons [OF calls run] remove_abandons [OF calls run] by auto
  with keeps_steps [OF later] have i: "i < length (ca_calls c2)" "cl_abandoned (ca_calls c2 ! i)" by (auto simp: keeps_abandoned_def)
  have "map_of (ca_entries (cache_clear c)) key = None"
    unfolding cache_clear_def by (rule fold_update_call) simp_all
  then have "map_of (ca_entries c1) key = None"
    using inv by (auto simp: cache_remove_without without_def delete_conv' split: option.splits)
  moreover have "buildBounded_done b now key generation i result c2 =
      Some (update_call i (\<lambda>call. call\<lparr>cl_err := Some context_Canceled, cl_done := True, cl_cancelled := True\<rparr>)
        (c2\<lparr>ca_inflight := AList.delete key (ca_inflight c2)\<rparr>))" using i(2) by (simp add: buildBounded_done_def Let_def)
  ultimately show ?thesis using abandoned_not_joined [OF i] i(1) by (simp add: wait_def update_call_nth)
qed

theorem invalidated_build_never_published_witness:
  "\<exists>c. (bounded_step demo_budget)\<^sup>*\<^sup>* demo_cache c \<and> map_of (ca_inflight c) 1 = Some 0 \<and>
     (\<exists>c3. buildBounded_done demo_budget 101 1 1 0 (''abcdef'', 101, None, 6) (cache_remove 1 c) = Some c3 \<and> ca_entries c3 = [])"
proof -
  define c where "c = snd (getBounded_enter demo_budget 1 1 100 None demo_cache)"
  have "bounded_step demo_budget demo_cache c" unfolding c_def by (rule bounded_step.enter) (rule surjective_pairing)
  then have s: "(bounded_step demo_budget)\<^sup>*\<^sup>* demo_cache c" by simp
  have r: "map_of (ca_inflight c) 1 = Some 0" "ca_entries (cache_remove 1 c) = []" unfolding c_def by code_simp+
  from invalidated_build_never_published [OF demo_start s r(1) disjI1 [OF refl] rtranclp.rtrancl_refl, of 1 101 None "(''abcdef'', 101, None, 6)"] s r
  show ?thesis by (intro exI [of _ c]) auto
qed

subsection \<open>A failed refresh\<close>

text \<open>Only keys that the cache retains have an entry: an operation adds at most such a key.\<close>

definition retains :: "('k, 'v) coalesceCache \<Rightarrow> 'k \<Rightarrow> bool" where
  "retains c key \<longleftrightarrow> (case ca_retain c of None \<Rightarrow> True | Some retain \<Rightarrow> retain key)"

definition adds_retained :: "('k, 'v) coalesceCache \<Rightarrow> ('k, 'v) coalesceCache \<Rightarrow> bool" where
  "adds_retained c c' \<longleftrightarrow> ca_retain c' = ca_retain c \<and> fst ` set (ca_entries c') \<subseteq> fst ` set (ca_entries c) \<union> Collect (retains c)"

lemma adds_same: "ca_retain c' = ca_retain c \<Longrightarrow> ca_entries c' = ca_entries c \<Longrightarrow> adds_retained c c'"
  by (simp add: adds_retained_def)

lemma adds_trans: "adds_retained c c' \<Longrightarrow> adds_retained c' c'' \<Longrightarrow> adds_retained c c''"
proof -
  assume a: "adds_retained c c'" and b: "adds_retained c' c''"
  from a have "retains c' = retains c" by (simp add: fun_eq_iff adds_retained_def retains_def)
  with a b show ?thesis unfolding adds_retained_def by (simp, blast)
qed

lemma adds_cong: "ca_entries d = ca_entries d' \<Longrightarrow> ca_retain d = ca_retain d' \<Longrightarrow> adds_retained c d = adds_retained c d'"
  by (simp add: adds_retained_def)

lemma update_call_retain [simp]: "ca_retain (update_call i f c) = ca_retain c"
  by (simp add: update_call_def)

lemma adds_update: "adds_retained c (update_call i f d) = adds_retained c d"
  by (simp add: adds_retained_def)

lemma adds_touch: "map_of (ca_entries c) key = Some e \<Longrightarrow> adds_retained c (touchBounded key e c)"
  by (auto simp: adds_retained_def touchBounded_def fst_set_update dest!: map_of_mem intro: rev_image_eqI)

lemma adds_join: "adds_retained c (snd (join_bounded b key generation c))"
  by (simp add: join_bounded_def joined_def start_call_def adds_retained_def split: option.split)

lemma adds_enter: "getBounded_enter b key generation now ctxErr c = (answer, c') \<Longrightarrow> adds_retained c c'"
  using adds_join [of c b key generation] adds_touch [of c key] adds_cong [of "(touchBounded key _ c)\<lparr>ca_hits := _\<rparr>" "touchBounded key _ c" c]
  by (auto simp: getBounded_enter_def Let_def adds_same split: option.splits if_splits dest: arg_cong [where f = snd])

lemma adds_without: "adds_retained c (without key c)"
  by (auto simp: adds_retained_def without_def set_delete_alist)

lemma adds_evict: "evict_loop b need c = Some c' \<Longrightarrow> adds_retained c c'"
proof (rule evict_loop.raw_induct [where P = "\<lambda>b need c c'. adds_retained c c'"], goal_cases)
  case (1 loop b need c c')
  then show ?case using adds_trans [OF adds_without [of c "oldest_key c"]]
    by (auto simp: evict_oldest_without adds_same split: if_splits)
qed

lemma adds_put:
  assumes "putBounded b key entry c = Some c'" and "retains c key"
  shows "adds_retained c c'"
proof -
  from assms(1) obtain d where d: "evict_loop b (ce_size entry) (without key c) = Some d"
    and c': "c' = touchBounded key entry (d\<lparr>ca_retainedBytes := ca_retainedBytes d + ce_size entry\<rparr>)"
    by (auto simp: putBounded_def drop_old_without)
  have "adds_retained c d" by (rule adds_trans [OF adds_without adds_evict [OF d]])
  with assms(2) show ?thesis by (auto simp: c' adds_retained_def touchBounded_def fst_set_update)
qed

lemma adds_done:
  assumes "buildBounded_done b now key generation i result c = Some c'"
  shows "adds_retained c c'"
  using assms
proof (cases rule: buildBounded_doneE)
  case dropped
  then show ?thesis by (simp add: adds_update adds_same)
next
  case (offered entry answer n d)
  let ?c = "c\<lparr>ca_inflight := AList.delete key (ca_inflight c), ca_buildFailed := n\<rparr>"
  have "adds_retained ?c d"
    using offered(5) adds_put [of b key entry ?c d] by (auto simp: adds_same retains_def split: if_splits)
  then have "adds_retained c d" by (rule adds_trans [OF adds_same, rotated 2]) simp_all
  then show ?thesis by (simp add: offered(6) adds_update)
qed

lemma adds_clear: "adds_retained c (cache_clear c)"
  unfolding cache_clear_def by (rule fold_update_call) (simp_all add: adds_update, simp add: adds_retained_def)

lemma adds_remove: "adds_retained c (cache_remove key c)"
  unfolding cache_remove_without by (simp add: adds_update adds_without split: option.split)

lemma adds_leave: "adds_retained c (getBounded_leave i key c)"
  by (simp add: getBounded_leave_def Let_def adds_update adds_same)

lemma adds_step: "bounded_step b c c' \<Longrightarrow> adds_retained c c'"
  by (erule bounded_step.cases)
    (auto intro: adds_enter adds_done adds_clear adds_remove adds_leave
      simp: acquireBuild_def releaseBuild_def adds_same split: if_splits)

lemma adds_steps: "(bounded_step b)\<^sup>*\<^sup>* c c' \<Longrightarrow> adds_retained c c'"
  by (induction rule: rtranclp_induct) (auto intro: adds_same adds_trans adds_step)

lemma entry_retained:
  assumes "bounded_start b c0" and "(bounded_step b)\<^sup>*\<^sup>* c0 c" and "map_of (ca_entries c) key = Some e"
  shows "retains c key"
proof -
  have "ca_entries c0 = []" using assms(1) by (auto simp: bounded_start_def with_budget_def newCoalesceCache_def Let_def)
  with adds_steps [OF assms(2)] map_of_mem [OF assms(3)] show ?thesis by (force simp: adds_retained_def retains_def)
qed

text \<open>C34. A failed refresh does not lose a usable value, in a cache with a budget and with any retention predicate. When the
  build of a key fails while an entry of the same generation is still within the staleness bound, the readers that
  wait get the former value and no error. The next reader of the key that comes before the retry delay is over and
  within the bound is served that value at once, without a new build.\<close>

theorem failed_refresh_serves_last_value:
  assumes run: "bounded_start b c0" "(bounded_step b)\<^sup>*\<^sup>* c0 c" "map_of (ca_inflight c) key = Some i"
    and live: "\<not> cl_abandoned (ca_calls c ! i)" "cl_epoch (ca_calls c ! i) = ca_epoch c"
    and old: "map_of (ca_entries c) key = Some old" "ce_generation old = generation" "\<not> IsZero (ce_dataAsOf old)"
    and stale: "0 < ca_maxStale c" "time_sub now (ce_buildCompletedAt old) \<le> ca_maxStale c"
    and d: "buildBounded_done b now key generation i (v, observed, Some e, bytes) c = Some c'"
  shows "(\<exists>entry. wait i None c' = [(entry, None)] \<and> ce_value entry = ce_value old) \<and>
    (now' < now + bu_retryDelay b \<and> time_sub now' (ce_buildCompletedAt old) \<le> ca_maxStale c \<longrightarrow>
       (\<exists>entry. fst (getBounded_enter b key generation now' None c') = Served entry \<and> ce_value entry = ce_value old))"
  using d
proof (cases rule: buildBounded_doneE)
  case dropped
  with live show ?thesis by simp
next
  case (offered entry answer n dd)
  have inv: "bounded_inv b c" and m: "0 \<le> bu_maxBytes b" using cb.reached_inv [OF run(1,2)] by simp_all
  then have t: "table_bounded b c" "table_ok c" "1 \<le> ca_maxEntries c" by (simp_all add: bounded_inv_def table_bounded_def)
  have i: "i < length (ca_calls c)" using inv run(3) by (auto simp: bounded_inv_def calls_ok_def list_all_iff dest!: map_of_mem)
  have entry: "entry = old\<lparr>ce_failure := Some e, ce_retryAt := now + bu_retryDelay b\<rparr>"
    using old stale by (simp add: offered(3) bounded_entry_def)
  have answer: "answer = None" using old(3) by (simp add: offered(4) entry)
  define c1 where "c1 = c\<lparr>ca_inflight := AList.delete key (ca_inflight c), ca_buildFailed := n\<rparr>"
  have put: "putBounded b key entry c1 = Some dd"
    using offered(5) entry_retained [OF run(1,2) old(1)] by (simp add: c1_def retains_def)
  have "table_ok c1" "1 \<le> ca_maxEntries c1" using t by (simp_all add: c1_def table_ok_def)
  moreover have "0 \<le> ce_size entry" "ce_size entry \<le> bu_maxBytes b" "ce_epoch entry = ca_epoch c1"
    using bounded_entry_fits [OF t(1) refl m, of "(v, observed, Some e, bytes)" now key generation] by (simp_all add: offered(3) c1_def)
  ultimately obtain r es k where dd: "dd = c1\<lparr>ca_retainedBytes := r, ca_entries := es, ca_accessSequence := k\<rparr>"
    and es: "map_of es key = Some (entry\<lparr>ce_access := k\<rparr>)"
    using putBounded_table [OF put] by blast
  have len: "i < length (ca_calls dd)" using i by (simp add: dd c1_def)
  have "ca_maxStale c' = ca_maxStale c" "map_of (ca_entries c') key = Some (entry\<lparr>ce_access := k\<rparr>)"
    unfolding offered(6) by (simp_all add: dd c1_def es update_call_def)
  then have "now' < now + bu_retryDelay b \<and> time_sub now' (ce_buildCompletedAt old) \<le> ca_maxStale c \<longrightarrow>
      fst (getBounded_enter b key generation now' None c') = Served (entry\<lparr>ce_access := k\<rparr>)"
    using old by (simp add: getBounded_enter_def Let_def entry touchBounded_def)
  then show ?thesis using len by (simp add: wait_def offered(6) update_call_nth answer) (simp add: entry)
qed

text \<open>The second build of key one starts after its entry expired, and fails.\<close>

definition demo_refresh :: "(int, string) coalesceCache" where
  "demo_refresh = snd (getBounded_enter demo_budget 1 1 111 None demo_first)"

theorem failed_refresh_serves_last_value_witness:
  "\<exists>c'. buildBounded_done demo_budget 112 1 1 1 ([], 0, Some ''timeout'', 0) demo_refresh = Some c' \<and>
     (\<exists>entry. wait 1 None c' = [(entry, None)] \<and> ce_value entry = ''abcdef'') \<and>
     (\<exists>entry. fst (getBounded_enter demo_budget 1 1 115 None c') = Served entry \<and> ce_value entry = ''abcdef'')"
proof -
  have "bounded_step demo_budget demo_first demo_refresh" unfolding demo_refresh_def by (rule bounded_step.enter) (rule surjective_pairing)
  with demo_first_steps have s: "(bounded_step demo_budget)\<^sup>*\<^sup>* demo_cache demo_refresh" by (rule rtranclp.rtrancl_into_rtrancl)
  define old where "old = the (map_of (ca_entries demo_refresh) 1)"
  have o: "ce_generation old = 1" "\<not> IsZero (ce_dataAsOf old)" "time_sub 112 (ce_buildCompletedAt old) \<le> ca_maxStale demo_refresh"
    "time_sub 115 (ce_buildCompletedAt old) \<le> ca_maxStale demo_refresh" "ce_value old = ''abcdef''"
    unfolding old_def by code_simp+
  have "Option.is_none (map_of (ca_entries demo_refresh) 1) = False" by code_simp
  then have old: "map_of (ca_entries demo_refresh) 1 = Some old" by (auto simp: old_def Option.is_none_def)
  have c: "map_of (ca_inflight demo_refresh) 1 = Some 1" "\<not> cl_abandoned (ca_calls demo_refresh ! 1)"
    "cl_epoch (ca_calls demo_refresh ! 1) = ca_epoch demo_refresh" "0 < ca_maxStale demo_refresh" by code_simp+
  have "Option.is_none (buildBounded_done demo_budget 112 1 1 1 ([], 0, Some ''timeout'', 0) demo_refresh) = False" by code_simp
  then obtain c' where d: "buildBounded_done demo_budget 112 1 1 1 ([], 0, Some ''timeout'', 0) demo_refresh = Some c'"
    by (auto simp: Option.is_none_def)
  from failed_refresh_serves_last_value [OF demo_start s c(1-3) old o(1,2) c(4) o(3) d, of 115] o(4,5) d show ?thesis
    by (auto simp: Option.is_none_def demo_budget_def)
qed

subsection \<open>Publication without a budget\<close>

text \<open>Without a budget a build publishes only into the epoch it started in and never over a newer generation, and the
  table does not grow beyond \<open>maxEntries\<close>.\<close>

lemma make_room_length: "1 \<le> ca_maxEntries c \<Longrightarrow> int (length (ca_entries (make_room now c))) < ca_maxEntries c"
  by (simp add: make_room_def Let_def evictExpiredLocked_def)


lemma finish_publishes_forward:
  assumes f: "finish completed later call key generation buildEpoch v dataAsOf None c = ((entry, err), c')"
    and m: "1 \<le> ca_maxEntries c" "int (length (ca_entries c)) \<le> ca_maxEntries c"
  shows "(buildEpoch \<noteq> ca_epoch c \<longrightarrow> ca_entries c' = ca_entries c) \<and> int (length (ca_entries c')) \<le> ca_maxEntries c \<and>
    (case map_of (ca_entries c) key of
       Some old \<Rightarrow> (generation < ce_generation old \<longrightarrow> entry = old \<and> ca_entries c' = ca_entries c)
     | None \<Rightarrow> True) \<and>
    (buildEpoch = ca_epoch c \<longrightarrow> map_of (ca_entries c') key = Some entry)"
proof -
  define c1 where "c1 = (if call \<noteq> None \<and> map_of (ca_inflight c) key = call then c\<lparr>ca_inflight := AList.delete key (ca_inflight c)\<rparr> else c)"
  have c1: "ca_entries c1 = ca_entries c" "ca_epoch c1 = ca_epoch c" "ca_maxEntries c1 = ca_maxEntries c" by (simp_all add: c1_def)
  have "int (length (AList.update key x (ca_entries (make_room completed c1)))) \<le> ca_maxEntries c" for x
    using make_room_length [of c1 completed] m(1) c1(3) by (simp add: length_update_alist)
  then show ?thesis using f m c1 unfolding finish_def c1_def [symmetric]
    by (auto simp: Let_def update_conv' split: option.splits if_splits)
qed



text \<open>The running calls exist and are of this epoch or an older one, and every entry is of this epoch.\<close>

definition plain_inv :: "('k, 'v) coalesceCache \<Rightarrow> bool" where
  "plain_inv c \<longleftrightarrow> list_all (\<lambda>(k, i). i < length (ca_calls c)) (ca_inflight c) \<and> list_all (\<lambda>call. cl_epoch call \<le> ca_epoch c) (ca_calls c) \<and>
     (\<forall>(k, e) \<in> set (ca_entries c). ce_epoch e = ca_epoch c)"

text \<open>An operation keeps the epoch of every call and never moves that of the cache back.\<close>

definition keeps_epochs :: "('k, 'v) coalesceCache \<Rightarrow> ('k, 'v) coalesceCache \<Rightarrow> bool" where
  "keeps_epochs c c' \<longleftrightarrow> ca_epoch c \<le> ca_epoch c' \<and> length (ca_calls c) \<le> length (ca_calls c') \<and>
     (\<forall>i < length (ca_calls c). cl_epoch (ca_calls c' ! i) = cl_epoch (ca_calls c ! i))"



text \<open>What an operation does to the state, as far as the invariant and the epochs see it.\<close>

definition plain_ok :: "('k, 'v) coalesceCache \<Rightarrow> ('k, 'v) coalesceCache \<Rightarrow> bool" where
  "plain_ok c c' \<longleftrightarrow> (plain_inv c \<longrightarrow> plain_inv c') \<and> keeps_epochs c c'"





lemma plain_ok_stats [simp]:
  "plain_ok c (d\<lparr>ca_hits := n\<rparr>) = plain_ok c d" "plain_ok c (d\<lparr>ca_misses := n\<rparr>) = plain_ok c d"
  "plain_ok c (d\<lparr>ca_builds := n\<rparr>) = plain_ok c d" "plain_ok c (d\<lparr>ca_buildFailed := n\<rparr>) = plain_ok c d"
  "plain_ok c (d\<lparr>ca_waiters := n\<rparr>) = plain_ok c d" "plain_ok c (d\<lparr>ca_buildSem := m\<rparr>) = plain_ok c d"
  by (simp_all add: plain_ok_def plain_inv_def keeps_epochs_def)



















text \<open>Removing one key does not have this effect without a budget: the running build has no cancel function, so the next
  reader of the removed key joins the build that started before the removal, and its result is stored.\<close>

lemma removed_build_still_published:
  assumes run: "map_of (ca_inflight c) key = Some i" "i < length (ca_calls c)" "cl_epoch (ca_calls c ! i) = ca_epoch c" "\<not> cl_cancel (ca_calls c ! i)"
  shows "fst (getOrBuild_enter key generation now (cache_remove key c)) = Joined i \<and>
    (\<exists>e. map_of (ca_entries (snd (getOrBuild_lead completed later i key generation (cl_epoch (ca_calls c ! i)) None (v, dataAsOf, None) (cache_remove key c)))) key = Some e \<and>
      ce_value e = v)"
proof -
  have u: "update_call i abandon (without key c) = without key c"
    using run(2,4) by (simp add: update_call_def abandon_def without_def)
  then have r: "cache_remove key c = without key c" using run(1) by (simp add: cache_remove_without)
  have w: "map_of (ca_entries (without key c)) key = None" "ca_inflight (without key c) = ca_inflight c" "ca_calls (without key c) = ca_calls c"
    "ca_epoch (without key c) = ca_epoch c" by (simp_all add: without_def delete_conv')
  have "fst (getOrBuild_enter key generation now (without key c)) = Joined i"
    using run by (simp add: getOrBuild_enter_def get_def get_missing_def running_call_def w no_lookup_def)
  moreover have "\<exists>e. map_of (ca_entries (snd (getOrBuild_lead completed later i key generation (ca_epoch c) None (v, dataAsOf, None) (without key c)))) key = Some e \<and>
      ce_value e = v" using run(1) by (simp add: getOrBuild_lead_def finish_def Let_def w update_conv')
  ultimately show ?thesis using run(3) by (simp add: r)
qed

end
