(* ===== verification/Topology.thy ===== *)
theory Topology
  imports Model_Types
begin

text \<open>
  The check of \<open>internal/core/topology.go\<close> that the servers, port forwards and tunnels form a graph without cycles. The
  graph is a function from a server to the list of its targets. The recursive closure \<open>visit\<close> with its two maps is a
  pair of functions that pass the maps, as lists of the keys set to true; they run on a fuel that bounds the depth of
  the recursion, and a fuel of one more than the number of servers is shown to be enough.
\<close>

section \<open>Definitions\<close>

record topologyEdge =
  te_source :: int
  te_target :: int

definition topology_edges :: "PortForward list \<Rightarrow> Tunnel list \<Rightarrow> topologyEdge list" where
  "topology_edges forwards tunnels =
     map (\<lambda>f. \<lparr>te_source = pf_SourceServerID f, te_target = pf_TargetServerID f\<rparr>)
       (filter (\<lambda>f. pf_Enabled f \<and> pf_TargetServerID f \<noteq> 0) forwards) @
     map (\<lambda>t. \<lparr>te_source = tn_SourceServerID t, te_target = tn_TargetServerID t\<rparr>) (filter tn_Enabled tunnels)"

fun build_graph :: "int list \<Rightarrow> topologyEdge list \<Rightarrow> (int \<Rightarrow> int list) \<Rightarrow> (int \<Rightarrow> int list) result" where
  "build_graph known [] graph = Inr graph"
| "build_graph known (edge # edges) graph =
     (if te_source edge = te_target edge then Inl ''topology source and target must differ''
      else if te_source edge \<notin> set known then Inl (''source server '' @ FormatInt (te_source edge) @ '' does not exist'')
      else if te_target edge \<notin> set known then Inl (''target server '' @ FormatInt (te_target edge) @ '' does not exist'')
      else build_graph known edges (graph(te_source edge := graph (te_source edge) @ [te_target edge])))"

text \<open>The state of the search: the servers on the current path and the finished ones.\<close>

type_synonym search = "int list \<times> int list"

function visit :: "nat \<Rightarrow> (int \<Rightarrow> int list) \<Rightarrow> int \<Rightarrow> search \<Rightarrow> search result option"
  and visit_all :: "nat \<Rightarrow> (int \<Rightarrow> int list) \<Rightarrow> int list \<Rightarrow> search \<Rightarrow> search result option" where
  "visit 0 graph node st = None"
| "visit (Suc fuel) graph node (visiting, visited) =
     (if node \<in> set visiting then Some (Inl ''topology graph contains a cycle'')
      else if node \<in> set visited then Some (Inr (visiting, visited))
      else
        (case visit_all fuel graph (graph node) (node # visiting, visited) of
           Some (Inr (visiting, visited)) \<Rightarrow> Some (Inr (removeAll node visiting, node # visited))
         | r \<Rightarrow> r))"
| "visit_all fuel graph [] st = Some (Inr st)"
| "visit_all fuel graph (next # rest) st =
     (case visit fuel graph next st of Some (Inr st') \<Rightarrow> visit_all fuel graph rest st' | r \<Rightarrow> r)"
  by pat_completeness auto

termination
  by (relation "measures [\<lambda>x. case x of Inl (fuel, _) \<Rightarrow> fuel | Inr (fuel, _) \<Rightarrow> fuel,
      \<lambda>x. case x of Inl _ \<Rightarrow> 0 | Inr (_, _, nodes, _) \<Rightarrow> Suc (length nodes)]") auto

definition ValidateTopologyDAG :: "Server list \<Rightarrow> PortForward list \<Rightarrow> Tunnel list \<Rightarrow> unit result option" where
  "ValidateTopologyDAG servers forwards tunnels =
     (let known = remdups (map sv_ID servers)
      in case build_graph known (topology_edges forwards tunnels) (\<lambda>_. []) of
           Inl e \<Rightarrow> Some (Inl e)
         | Inr graph \<Rightarrow> map_option (map_sum id (\<lambda>_. ())) (visit_all (Suc (length known)) graph known ([], [])))"

section \<open>The search\<close>

definition edge_rel :: "(int \<Rightarrow> int list) \<Rightarrow> (int \<times> int) set" where
  "edge_rel graph = {(a, b). b \<in> set (graph a)}"

text \<open>Finished servers have only finished successors and lie on no cycle.\<close>

definition finished :: "(int \<Rightarrow> int list) \<Rightarrow> int set \<Rightarrow> bool" where
  "finished graph V \<longleftrightarrow> (\<forall>a \<in> V. set (graph a) \<subseteq> V \<and> (a, a) \<notin> (edge_rel graph)\<^sup>+)"

definition search_ok :: "(int \<Rightarrow> int list) \<Rightarrow> search \<Rightarrow> bool" where
  "search_ok graph st \<longleftrightarrow> finished graph (set (snd st)) \<and> set (fst st) \<inter> set (snd st) = {}"

lemma finished_closed: "(a, b) \<in> (edge_rel graph)\<^sup>+ \<Longrightarrow> finished graph V \<Longrightarrow> a \<in> V \<Longrightarrow> b \<in> V"
  by (induction rule: trancl_induct) (auto simp: finished_def edge_rel_def)

text \<open>A server whose successors are all finished, itself still on the path, is on no cycle.\<close>

lemma finish_node:
  assumes f: "finished graph V" and s: "set (graph a) \<subseteq> V" and a: "a \<notin> V"
  shows "finished graph (insert a V)"
proof -
  have "(a, a) \<notin> (edge_rel graph)\<^sup>+"
  proof
    assume "(a, a) \<in> (edge_rel graph)\<^sup>+"
    then obtain b where "(a, b) \<in> edge_rel graph" "b = a \<or> (b, a) \<in> (edge_rel graph)\<^sup>+"
      by (rule converse_tranclE) blast+
    then have b: "b \<in> V" "b = a \<or> (b, a) \<in> (edge_rel graph)\<^sup>+" using s by (auto simp: edge_rel_def)
    then have "a \<in> V" using finished_closed [OF _ f b(1), of a] by blast
    with a show False ..
  qed
  with f s show ?thesis by (auto simp: finished_def)
qed

text \<open>A successful visit adds only finished servers, the visited one among them, and leaves the path as it was.\<close>

lemma visit_ok:
  "visit fuel graph node st = Some (Inr st') \<Longrightarrow> search_ok graph st \<Longrightarrow>
     search_ok graph st' \<and> fst st' = fst st \<and> set (snd st) \<subseteq> set (snd st') \<and> node \<in> set (snd st')"
  "visit_all fuel graph nodes st = Some (Inr st') \<Longrightarrow> search_ok graph st \<Longrightarrow>
     search_ok graph st' \<and> fst st' = fst st \<and> set (snd st) \<subseteq> set (snd st') \<and> set nodes \<subseteq> set (snd st')"
proof (induction fuel graph node st and fuel graph nodes st arbitrary: st' and st' rule: visit_visit_all.induct)
  case (2 fuel graph node visiting visited)
  show ?case
  proof (cases "node \<in> set visiting \<or> node \<in> set visited")
    case True
    with 2(2,3) show ?thesis by (cases "node \<in> set visiting") auto
  next
    case False
    then have n: "node \<notin> set visiting" "node \<notin> set visited" by simp_all
    from 2(2) n obtain vg vd where v: "visit_all fuel graph (graph node) (node # visiting, visited) = Some (Inr (vg, vd))"
      and st': "st' = (removeAll node vg, node # vd)"
      by (simp split: option.splits sum.splits prod.splits)
    have "search_ok graph (node # visiting, visited)" using 2(3) n by (simp add: search_ok_def)
    from 2(1) [OF n v this] have ok: "search_ok graph (vg, vd)" and vg: "vg = node # visiting"
      and sub: "set visited \<subseteq> set vd" "set (graph node) \<subseteq> set vd" by auto
    have "finished graph (insert node (set vd))"
      using ok sub(2) vg by (intro finish_node) (auto simp: search_ok_def)
    moreover have "set visiting \<inter> insert node (set vd) = {}" using ok n(1) by (auto simp: search_ok_def vg)
    ultimately show ?thesis using sub(1) n(1) by (auto simp: st' vg search_ok_def)
  qed
next
  case (4 fuel graph node nodes st)
  from 4(3) obtain st1 where v: "visit fuel graph node st = Some (Inr st1)" and r: "visit_all fuel graph nodes st1 = Some (Inr st')"
    by (simp split: option.splits sum.splits)
  from 4(1) [OF v 4(4)] have "search_ok graph st1" "fst st1 = fst st" "set (snd st) \<subseteq> set (snd st1)" "node \<in> set (snd st1)" by simp_all
  with 4(2) [OF v refl r] show ?case by auto
qed simp_all

text \<open>A failed visit found a cycle: every server on the path reaches the visited one.\<close>

lemma visit_error:
  "visit fuel graph node st = Some (Inl e) \<Longrightarrow> (\<And>v. v \<in> set (fst st) \<Longrightarrow> (v, node) \<in> (edge_rel graph)\<^sup>+) \<Longrightarrow> search_ok graph st \<Longrightarrow>
     e = ''topology graph contains a cycle'' \<and> (\<exists>a. (a, a) \<in> (edge_rel graph)\<^sup>+)"
  "visit_all fuel graph nodes st = Some (Inl e) \<Longrightarrow> (\<And>v n. v \<in> set (fst st) \<Longrightarrow> n \<in> set nodes \<Longrightarrow> (v, n) \<in> (edge_rel graph)\<^sup>+) \<Longrightarrow>
     search_ok graph st \<Longrightarrow> e = ''topology graph contains a cycle'' \<and> (\<exists>a. (a, a) \<in> (edge_rel graph)\<^sup>+)"
proof (induction fuel graph node st and fuel graph nodes st rule: visit_visit_all.induct)
  case (2 fuel graph node visiting visited)
  show ?case
  proof (cases "node \<in> set visiting")
    case True
    with 2(2,3) show ?thesis by auto
  next
    case False
    with 2(2) have n: "node \<notin> set visited" by (auto split: if_splits)
    from 2(2) False n have v: "visit_all fuel graph (graph node) (node # visiting, visited) = Some (Inl e)"
      by (simp split: option.splits sum.splits prod.splits)
    show ?thesis
    proof (rule 2(1) [OF False n v])
      show "search_ok graph (node # visiting, visited)" using 2(4) n by (simp add: search_ok_def)
      fix a b assume a: "a \<in> set (fst (node # visiting, visited))" and b: "b \<in> set (graph node)"
      have e: "(node, b) \<in> edge_rel graph" using b by (simp add: edge_rel_def)
      show "(a, b) \<in> (edge_rel graph)\<^sup>+"
      proof (cases "a = node")
        case True
        with e show ?thesis by (simp add: r_into_trancl)
      next
        case False
        with a have "(a, node) \<in> (edge_rel graph)\<^sup>+" by (intro 2(3)) simp
        then show ?thesis using e by (rule trancl_into_trancl)
      qed
    qed
  qed
next
  case (4 fuel graph node nodes st)
  show ?case
  proof (cases "visit fuel graph node st")
    case None
    with 4(3) show ?thesis by simp
  next
    case (Some r)
    show ?thesis
    proof (cases r)
      case (Inl e')
      with Some 4(3) have "visit fuel graph node st = Some (Inl e)" by simp
      with 4(4,5) show ?thesis by (intro 4(1)) simp_all
    next
      case (Inr st1)
      with Some have v: "visit fuel graph node st = Some (Inr st1)" by simp
      with 4(3) have r: "visit_all fuel graph nodes st1 = Some (Inl e)" by simp
      from visit_ok(1) [OF v 4(5)] have "search_ok graph st1" "fst st1 = fst st" by simp_all
      with 4(4) show ?thesis by (intro 4(2) [OF v refl r]) simp_all
    qed
  qed
qed simp_all

text \<open>The path never holds a server twice, so its length bounds the depth.\<close>

definition targets_in :: "(int \<Rightarrow> int list) \<Rightarrow> int set \<Rightarrow> bool" where
  "targets_in graph N \<longleftrightarrow> (\<forall>a. set (graph a) \<subseteq> N)"

lemma visit_enough:
  assumes N: "finite N"
  shows "targets_in graph N \<Longrightarrow> node \<in> N \<Longrightarrow> search_ok graph st \<Longrightarrow> card (N - set (fst st)) < fuel \<Longrightarrow> visit fuel graph node st \<noteq> None"
    and "targets_in graph N \<Longrightarrow> set nodes \<subseteq> N \<Longrightarrow> search_ok graph st \<Longrightarrow> card (N - set (fst st)) < fuel \<Longrightarrow> visit_all fuel graph nodes st \<noteq> None"
proof (induction fuel graph node st and fuel graph nodes st rule: visit_visit_all.induct)
  case (2 fuel graph node visiting visited)
  show ?case
  proof (cases "node \<in> set visiting \<or> node \<in> set visited")
    case True
    then show ?thesis by auto
  next
    case False
    then have n: "node \<notin> set visiting" "node \<notin> set visited" by simp_all
    have "N - set visiting = insert node (N - set (node # visiting))" using 2(3) n by auto
    then have "card (N - set visiting) = card (insert node (N - set (node # visiting)))" by (rule arg_cong)
    also have "\<dots> = Suc (card (N - set (node # visiting)))" using N by (intro card_insert_disjoint) simp_all
    finally have "card (N - set visiting) = Suc (card (N - set (node # visiting)))" .
    with 2(5) have c: "card (N - set (fst (node # visiting, visited))) < fuel" by simp
    have o: "search_ok graph (node # visiting, visited)" using 2(4) n by (simp add: search_ok_def)
    have "set (graph node) \<subseteq> N" using 2(2) by (simp add: targets_in_def)
    from 2(1) [OF n 2(2) this o c] have "visit_all fuel graph (graph node) (node # visiting, visited) \<noteq> None" .
    then obtain r where "visit_all fuel graph (graph node) (node # visiting, visited) = Some r" by blast
    with n show ?thesis by (cases r) (simp_all add: split_beta)
  qed
next
  case (4 fuel graph node nodes st)
  have "visit fuel graph node st \<noteq> None" using 4(3-6) by (intro 4(1)) simp_all
  then obtain r where r: "visit fuel graph node st = Some r" by blast
  show ?case
  proof (cases r)
    case (Inr st1)
    with r have v: "visit fuel graph node st = Some (Inr st1)" by simp
    from visit_ok(1) [OF v 4(5)] have s1: "search_ok graph st1" "fst st1 = fst st" by simp_all
    have "visit_all fuel graph nodes st1 \<noteq> None" using 4(3-6) s1 by (intro 4(2) [OF v refl]) simp_all
    with v show ?thesis by simp
  qed (use r in simp)
qed simp_all

section \<open>The verdict\<close>

definition edge_pairs :: "topologyEdge list \<Rightarrow> (int \<times> int) set" where
  "edge_pairs edges = (\<lambda>e. (te_source e, te_target e)) ` set edges"

lemma edge_rel_add: "edge_rel (graph(a := graph a @ [b])) = insert (a, b) (edge_rel graph)"
  by (auto simp: edge_rel_def split: if_splits)

lemma edge_pairs_simps [simp]: "edge_pairs [] = {}" "edge_pairs (e # edges) = insert (te_source e, te_target e) (edge_pairs edges)"
  by (simp_all add: edge_pairs_def)

lemma build_graph_rel:
  "build_graph known edges graph = Inr graph' \<Longrightarrow>
     edge_rel graph' = edge_rel graph \<union> edge_pairs edges \<and> edge_pairs edges \<subseteq> set known \<times> set known"
proof (induction known edges graph rule: build_graph.induct)
  case (2 known edge edges graph)
  then have "build_graph known edges (graph(te_source edge := graph (te_source edge) @ [te_target edge])) = Inr graph'"
    and e: "te_source edge \<noteq> te_target edge" "te_source edge \<in> set known" "te_target edge \<in> set known" by (auto split: if_splits)
  with 2(1) [OF e(1), OF _ _ this(1)] show ?case by (simp add: edge_rel_add [unfolded fun_upd_def])
qed simp

lemma build_graph_total:
  "edge_pairs edges \<subseteq> set known \<times> set known \<Longrightarrow> (\<forall>e \<in> set edges. te_source e \<noteq> te_target e) \<Longrightarrow> \<exists>graph'. build_graph known edges graph = Inr graph'"
  by (induction known edges graph rule: build_graph.induct) simp_all

text \<open>C15. The topology check always returns and is exact: it accepts a set of forwards and tunnels if and only if every
  enabled connection joins two known servers and no server reaches itself over the enabled connections, directly or
  through others.\<close>

theorem topology_check_exact:
  "(\<exists>r. ValidateTopologyDAG servers forwards tunnels = Some r) \<and>
   (ValidateTopologyDAG servers forwards tunnels = Some (Inr ()) \<longleftrightarrow>
      edge_pairs (topology_edges forwards tunnels) \<subseteq> sv_ID ` set servers \<times> sv_ID ` set servers \<and>
      acyclic (edge_pairs (topology_edges forwards tunnels)))"
proof -
  define known where "known = remdups (map sv_ID servers)"
  define E where "E = topology_edges forwards tunnels"
  have known: "set known = sv_ID ` set servers" by (simp add: known_def)
  show ?thesis
  proof (cases "build_graph known E (\<lambda>_. [])")
    case (Inl e)
    have "\<not> (edge_pairs E \<subseteq> set known \<times> set known \<and> acyclic (edge_pairs E))"
    proof
      assume a: "edge_pairs E \<subseteq> set known \<times> set known \<and> acyclic (edge_pairs E)"
      have "te_source x \<noteq> te_target x" if "x \<in> set E" for x
      proof
        assume eq: "te_source x = te_target x"
        have "(te_source x, te_target x) \<in> edge_pairs E" unfolding edge_pairs_def using that by (rule imageI)
        with a eq show False by (auto simp: acyclic_def dest: r_into_trancl)
      qed
      with a build_graph_total [of E known "\<lambda>_. []"] Inl show False by auto
    qed
    then show ?thesis using Inl by (simp add: ValidateTopologyDAG_def Let_def known_def [symmetric] E_def [symmetric] known)
  next
    case (Inr graph)
    from build_graph_rel [OF Inr] have rel: "edge_rel graph = edge_pairs E" and sub: "edge_pairs E \<subseteq> set known \<times> set known"
      by (auto simp: edge_rel_def)
    have ok: "search_ok graph ([], [])" by (simp add: search_ok_def finished_def)
    have "visit_all (Suc (length known)) graph known ([], []) \<noteq> None"
      using rel sub card_length [of known] by (intro visit_enough(2) [of "set known"] ok) (auto simp: edge_rel_def targets_in_def)
    then obtain r where r: "visit_all (Suc (length known)) graph known ([], []) = Some r" by blast
    have v: "ValidateTopologyDAG servers forwards tunnels = Some (map_sum id (\<lambda>_. ()) r)"
      using Inr r by (simp add: ValidateTopologyDAG_def Let_def known_def [symmetric] E_def [symmetric])
    have "(\<exists>st. r = Inr st) \<longleftrightarrow> acyclic (edge_pairs E)"
    proof (cases r)
      case (Inl e)
      with r visit_error(2) [of _ graph known "([], [])" e] ok have "\<exists>a. (a, a) \<in> (edge_rel graph)\<^sup>+" by simp
      with Inl show ?thesis by (auto simp: acyclic_def rel)
    next
      case (Inr st)
      with r visit_ok(2) [OF _ ok] have f: "finished graph (set (snd st))" "set known \<subseteq> set (snd st)" by (auto simp: search_ok_def)
      have "(a, a) \<notin> (edge_rel graph)\<^sup>+" for a
      proof
        assume c: "(a, a) \<in> (edge_rel graph)\<^sup>+"
        then obtain b where "(a, b) \<in> edge_rel graph" by (rule converse_tranclE)
        then have "a \<in> set known" using sub rel by auto
        with c f show False by (auto simp: finished_def)
      qed
      with Inr show ?thesis by (auto simp: acyclic_def rel)
    qed
    then show ?thesis using v sub by (cases r) (auto simp: E_def [symmetric] known)
  qed
qed

end
