(* ===== verification/Plugin_Grant.thy ===== *)
theory Plugin_Grant
  imports Oboard_Prelude
begin

text \<open>
  The permissions of a plugin: the capability catalogue of \<open>internal/plugin/capabilities.go\<close> and the grants of
  \<open>grant.go\<close>, their validation against a manifest, the checks the gateway makes, the carrying of a grant to a new
  version and the difference of two manifests. A nil map of capabilities and an empty one are the same list, and nil
  functions that look up a resource are \<open>None\<close>. The display texts of a capability, the identity and limits of a
  manifest and the JSON codec are left out; the encoder the difference compares fields with is an argument, applied to
  a record that keeps the fields the difference does not read as one text. Host names are folded to lower case byte by
  byte, so on ASCII letters only; hosts with other letters are compared as they are.
\<close>

section \<open>Capabilities\<close>

abbreviation CapServersRead :: string where "CapServersRead \<equiv> ''servers.read''"
abbreviation CapServersHealthRead :: string where "CapServersHealthRead \<equiv> ''servers.health.read''"
abbreviation CapServersMetricsRead :: string where "CapServersMetricsRead \<equiv> ''servers.metrics.read''"
abbreviation CapNetworkPing :: string where "CapNetworkPing \<equiv> ''network.ping''"
abbreviation CapNetworkTrace :: string where "CapNetworkTrace \<equiv> ''network.trace''"
abbreviation CapNetworkTCPProbe :: string where "CapNetworkTCPProbe \<equiv> ''network.tcp_probe''"
abbreviation CapNetworkDNSLookup :: string where "CapNetworkDNSLookup \<equiv> ''network.dns_lookup''"
abbreviation CapNetworkHTTPProbe :: string where "CapNetworkHTTPProbe \<equiv> ''network.http_probe''"
abbreviation CapHTTPRequest :: string where "CapHTTPRequest \<equiv> ''http.request''"
abbreviation CapStateRead :: string where "CapStateRead \<equiv> ''state.read''"
abbreviation CapStateWrite :: string where "CapStateWrite \<equiv> ''state.write''"
abbreviation CapSecretsUse :: string where "CapSecretsUse \<equiv> ''secrets.use''"
abbreviation CapNotificationsSend :: string where "CapNotificationsSend \<equiv> ''notifications.send''"
abbreviation CapUsersRead :: string where "CapUsersRead \<equiv> ''users.read''"
abbreviation CapUsersNotify :: string where "CapUsersNotify \<equiv> ''users.notify''"
abbreviation CapPlansRead :: string where "CapPlansRead \<equiv> ''plans.read''"
abbreviation CapPlansNotify :: string where "CapPlansNotify \<equiv> ''plans.notify''"
abbreviation CapEventsServerStatus :: string where "CapEventsServerStatus \<equiv> ''events.server_status''"
abbreviation CapUIPage :: string where "CapUIPage \<equiv> ''ui.page''"

abbreviation ResourceNone :: string where "ResourceNone \<equiv> []"
abbreviation ResourceServer :: string where "ResourceServer \<equiv> ''server''"
abbreviation ResourceHTTPHost :: string where "ResourceHTTPHost \<equiv> ''http_host''"
abbreviation ResourceNotificationChannel :: string where "ResourceNotificationChannel \<equiv> ''notification_channel''"
abbreviation ResourceUser :: string where "ResourceUser \<equiv> ''user''"
abbreviation ResourcePlan :: string where "ResourcePlan \<equiv> ''plan''"

record PluginCapabilitySpec =
  cp_Name :: string
  cp_Group :: string
  cp_Resource :: string
  cp_Risk :: string
  cp_AgentTask :: bool
  cp_Audited :: bool
  cp_Methods :: "string list"
  cp_Timeout :: duration
  cp_RatePerMinute :: int

definition capability :: "string \<Rightarrow> string \<Rightarrow> string \<Rightarrow> string \<Rightarrow> bool \<Rightarrow> bool \<Rightarrow> string list \<Rightarrow> int \<Rightarrow> int \<Rightarrow> PluginCapabilitySpec" where
  "capability name grp resource risk agentTask audited methods seconds rate =
     \<lparr>cp_Name = name, cp_Group = grp, cp_Resource = resource, cp_Risk = risk, cp_AgentTask = agentTask, cp_Audited = audited,
      cp_Methods = methods, cp_Timeout = seconds * second, cp_RatePerMinute = rate\<rparr>"

definition capabilityCatalog :: "PluginCapabilitySpec list" where
  "capabilityCatalog =
     [capability CapServersRead ''servers'' ResourceServer ''low'' False False [''servers.get'', ''servers.list''] 5 240,
      capability CapServersHealthRead ''servers'' ResourceServer ''low'' False False [''servers.health''] 5 240,
      capability CapServersMetricsRead ''servers'' ResourceServer ''low'' False False [''servers.metrics''] 5 240,
      capability CapNetworkPing ''network'' ResourceServer ''medium'' True True [''network.ping''] 30 20,
      capability CapNetworkTrace ''network'' ResourceServer ''medium'' True True [''network.trace''] 45 10,
      capability CapNetworkTCPProbe ''network'' ResourceServer ''medium'' True True [''network.tcpProbe''] 20 30,
      capability CapNetworkDNSLookup ''network'' ResourceServer ''low'' True True [''network.dnsLookup''] 20 30,
      capability CapNetworkHTTPProbe ''network'' ResourceServer ''medium'' True True [''network.httpProbe''] 30 20,
      capability CapHTTPRequest ''http'' ResourceHTTPHost ''high'' False True [''http.request''] 35 120,
      capability CapStateRead ''state'' ResourceNone ''low'' False False [''state.get'', ''state.list''] 5 600,
      capability CapStateWrite ''state'' ResourceNone ''low'' False False [''state.set'', ''state.delete'', ''state.compareAndSwap''] 5 600,
      capability CapSecretsUse ''secrets'' ResourceNone ''high'' False True [''crypto.hmac''] 5 240,
      capability CapNotificationsSend ''notifications'' ResourceNotificationChannel ''medium'' False True [''notifications.send''] 20 10,
      capability CapUsersRead ''users'' ResourceUser ''low'' False False [''users.get'', ''users.list''] 5 120,
      capability CapUsersNotify ''users'' ResourceUser ''medium'' False True [''users.notify''] 20 10,
      capability CapPlansRead ''plans'' ResourcePlan ''low'' False False [''plans.list'', ''plans.users''] 5 120,
      capability CapPlansNotify ''plans'' ResourcePlan ''medium'' False True [''plans.notify''] 20 5,
      capability CapEventsServerStatus ''events'' ResourceServer ''low'' False False [] 0 0,
      capability CapUIPage ''ui'' ResourceNone ''low'' False False [''ui.publish''] 5 60]"

definition forbiddenCapabilityPrefixes :: "string list" where
  "forbiddenCapabilityPrefixes =
     [''shell'', ''exec'', ''command'', ''process'', ''subprocess'', ''spawn'', ''terminal'', ''pty'', ''remote_exec'', ''remote_operation'',
      ''filesystem'', ''database'', ''sql'', ''agent'', ''controller'', ''unix_socket'', ''tasks'', ''host'', ''power'', ''management'']"

definition forbiddenCapability :: "string \<Rightarrow> bool" where
  "forbiddenCapability name =
     (let head = takeWhile (\<lambda>c. c \<noteq> CHR ''.'') (ToLower (TrimSpace name)) in list_ex (\<lambda>prefix. head = prefix) forbiddenCapabilityPrefixes)"

text \<open>The two maps the package builds when it is loaded; it panics on a forbidden name and on a method listed twice.\<close>

fun register_methods :: "PluginCapabilitySpec \<Rightarrow> string list \<Rightarrow> (string \<rightharpoonup> PluginCapabilitySpec) \<Rightarrow> (string \<rightharpoonup> PluginCapabilitySpec) result" where
  "register_methods spec [] m = Inr m"
| "register_methods spec (method # methods) m =
     (if m method \<noteq> None then Inl (''duplicate plugin SDK method: '' @ method) else register_methods spec methods (m(method \<mapsto> spec)))"

fun catalog_init :: "PluginCapabilitySpec list \<Rightarrow> (string \<rightharpoonup> PluginCapabilitySpec) \<Rightarrow> (string \<rightharpoonup> PluginCapabilitySpec) \<Rightarrow>
    ((string \<rightharpoonup> PluginCapabilitySpec) \<times> (string \<rightharpoonup> PluginCapabilitySpec)) result" where
  "catalog_init [] byName byMethod = Inr (byName, byMethod)"
| "catalog_init (spec # specs) byName byMethod =
     (if forbiddenCapability (cp_Name spec) then Inl (''forbidden plugin capability in catalog: '' @ cp_Name spec)
      else (case register_methods spec (cp_Methods spec) byMethod of
              Inl e \<Rightarrow> Inl e
            | Inr byMethod \<Rightarrow> catalog_init specs (byName(cp_Name spec \<mapsto> spec)) byMethod))"

definition LookupCapability :: "string \<Rightarrow> PluginCapabilitySpec option" where
  "LookupCapability name = (case catalog_init capabilityCatalog Map.empty Map.empty of Inr (byName, _) \<Rightarrow> byName name | Inl _ \<Rightarrow> None)"

definition CapabilityForMethod :: "string \<Rightarrow> PluginCapabilitySpec option" where
  "CapabilityForMethod method = (case catalog_init capabilityCatalog Map.empty Map.empty of Inr (_, byMethod) \<Rightarrow> byMethod method | Inl _ \<Rightarrow> None)"

definition CapabilityNames :: "string list" where
  "CapabilityNames = sort (map cp_Name capabilityCatalog)"

section \<open>Manifests and grants\<close>

record HTTPScope =
  hs_Hosts :: "string list"
  hs_Methods :: "string list"

record ServerRequirement =
  sq_Min :: int
  sq_Max :: int
  sq_Reason :: string

record ResourceRequirements =
  rr_Servers :: "ServerRequirement option"

record EnvField =
  ef_Name :: string
  ef_Type :: string
  ef_Required :: bool
  ef_Default :: string
  ef_Other :: string

record PageDeclaration =
  pg_ID :: string
  pg_Title :: string
  pg_Actions :: "string list"

record Triggers =
  tr_Schedule :: bool
  tr_Events :: "string list"

record Manifest =
  mf_Capabilities :: "string list"
  mf_HTTP :: "HTTPScope option"
  mf_Resources :: "ResourceRequirements option"
  mf_Environment :: "EnvField list"
  mf_Pages :: "PageDeclaration list"
  mf_Triggers :: Triggers

definition Manifest_HasCapability :: "Manifest \<Rightarrow> string \<Rightarrow> bool" where
  "Manifest_HasCapability m name = list_ex (\<lambda>item. item = name) (mf_Capabilities m)"

record PluginError =
  pe_Code :: string
  pe_Message :: string
  pe_Field :: string

abbreviation CodeInvalidArgument :: string where "CodeInvalidArgument \<equiv> ''INVALID_ARGUMENT''"
abbreviation CodeNotFound :: string where "CodeNotFound \<equiv> ''NOT_FOUND''"

definition Error_text :: "PluginError \<Rightarrow> string" where
  "Error_text e = (if pe_Message e = [] then pe_Code e else pe_Code e @ '': '' @ pe_Message e)"

definition Fail :: "string \<Rightarrow> string \<Rightarrow> PluginError" where
  "Fail code message = \<lparr>pe_Code = code, pe_Message = message, pe_Field = []\<rparr>"

definition FailField :: "string \<Rightarrow> string \<Rightarrow> string \<Rightarrow> PluginError" where
  "FailField code field message = \<lparr>pe_Code = code, pe_Message = message, pe_Field = field\<rparr>"

record CapabilityGrant =
  cg_Servers :: "int list"
  cg_Hosts :: "string list"
  cg_Channels :: "int list"
  cg_Users :: "int list"
  cg_Plans :: "int list"

record Grant =
  gr_Capabilities :: "(string, CapabilityGrant) gomap"

definition manifestServerRequirement :: "Manifest \<Rightarrow> ServerRequirement option" where
  "manifestServerRequirement m = (case mf_Resources m of None \<Rightarrow> None | Some r \<Rightarrow> rr_Servers r)"

text \<open>The loop keeps the identifiers seen so far in the order of their first occurrence.\<close>

fun normalize_ids :: "int list \<Rightarrow> (int \<Rightarrow> bool) option \<Rightarrow> int list \<Rightarrow> PluginError + int list" where
  "normalize_ids [] exist out = Inr out"
| "normalize_ids (i # ids) exist out =
     (if i \<le> 0 then Inl (Fail CodeInvalidArgument ''IDs must be positive'')
      else if (case exist of None \<Rightarrow> False | Some f \<Rightarrow> \<not> f i) then Inl (Fail CodeNotFound ''a selected resource no longer exists'')
      else normalize_ids ids exist (if i \<in> set out then out else out @ [i]))"

definition normalizeIDs :: "int list \<Rightarrow> (int \<Rightarrow> bool) option \<Rightarrow> PluginError + int list" where
  "normalizeIDs ids exist =
     (case normalize_ids ids exist [] of
        Inl e \<Rightarrow> Inl e
      | Inr out \<Rightarrow> if length out > 256 then Inl (Fail CodeInvalidArgument ''at most 256 resources per capability'') else Inr (sort out))"

fun normalize_hosts :: "string \<Rightarrow> string list \<Rightarrow> string list \<Rightarrow> string list \<Rightarrow> PluginError + string list" where
  "normalize_hosts name declared [] out = Inr out"
| "normalize_hosts name declared (host # hosts) out =
     (let host = ToLower (TrimSpace host)
      in if host \<notin> set declared
         then Inl (FailField CodeInvalidArgument (''capabilities.'' @ name @ ''.hosts'') (''host '' @ host @ '' is not declared by the plugin''))
         else normalize_hosts name declared hosts (if host \<in> set out then out else out @ [host]))"

text \<open>One case of the switch for the kinds that are scoped by identifiers: the scope must name nothing else and at least one.\<close>

definition validate_ids :: "string \<Rightarrow> string \<Rightarrow> string \<Rightarrow> string \<Rightarrow> bool \<Rightarrow> int list \<Rightarrow> (int \<Rightarrow> bool) option \<Rightarrow> PluginError + int list" where
  "validate_ids name field onlyText emptyText others ids exist =
     (if others then Inl (FailField CodeInvalidArgument (''capabilities.'' @ name) onlyText)
      else (case normalizeIDs ids exist of
              Inl e \<Rightarrow> Inl (FailField CodeInvalidArgument (''capabilities.'' @ name @ field) (Error_text e))
            | Inr ids \<Rightarrow> if ids = [] then Inl (FailField CodeInvalidArgument (''capabilities.'' @ name @ field) emptyText) else Inr ids))"

definition validate_hosts :: "Manifest \<Rightarrow> string \<Rightarrow> CapabilityGrant \<Rightarrow> PluginError + string list" where
  "validate_hosts m name scope =
     (if cg_Servers scope \<noteq> [] \<or> cg_Channels scope \<noteq> [] \<or> cg_Users scope \<noteq> [] \<or> cg_Plans scope \<noteq> [] \<or> mf_HTTP m = None
      then Inl (FailField CodeInvalidArgument (''capabilities.'' @ name) ''only declared hosts are valid here'')
      else (case normalize_hosts name (hs_Hosts (the (mf_HTTP m))) (cg_Hosts scope) [] of
              Inl e \<Rightarrow> Inl e
            | Inr hosts \<Rightarrow>
                if hosts = []
                then Inl (FailField CodeInvalidArgument (''capabilities.'' @ name @ ''.hosts'') ''select at least one host or leave the capability ungranted'')
                else Inr (sort hosts)))"

definition validate_scope :: "Manifest \<Rightarrow> (int \<Rightarrow> bool) option \<Rightarrow> (int \<Rightarrow> bool) option \<Rightarrow> (int \<Rightarrow> bool) option \<Rightarrow> (int \<Rightarrow> bool) option \<Rightarrow>
    string \<Rightarrow> CapabilityGrant \<Rightarrow> PluginError + CapabilityGrant" where
  "validate_scope m serverExists channelExists userExists planExists name scope =
     (case LookupCapability name of
        None \<Rightarrow> Inl (FailField CodeInvalidArgument (''capabilities.'' @ name) ''unknown capability'')
      | Some spec \<Rightarrow>
          if forbiddenCapability name then Inl (FailField CodeInvalidArgument (''capabilities.'' @ name) ''unknown capability'')
          else if \<not> Manifest_HasCapability m name
          then Inl (FailField CodeInvalidArgument (''capabilities.'' @ name) ''the plugin version does not declare this capability'')
          else if cp_Resource spec = ResourceServer
          then map_sum id (\<lambda>ids. scope\<lparr>cg_Servers := ids\<rparr>)
                 (validate_ids name ''.servers'' ''only a server scope is valid here'' ''select at least one server or leave the capability ungranted''
                    (cg_Hosts scope \<noteq> [] \<or> cg_Channels scope \<noteq> [] \<or> cg_Users scope \<noteq> [] \<or> cg_Plans scope \<noteq> []) (cg_Servers scope) serverExists)
          else if cp_Resource spec = ResourceHTTPHost
          then map_sum id (\<lambda>hosts. scope\<lparr>cg_Hosts := hosts\<rparr>) (validate_hosts m name scope)
          else if cp_Resource spec = ResourceUser
          then map_sum id (\<lambda>ids. scope\<lparr>cg_Users := ids\<rparr>)
                 (validate_ids name ''.users'' ''only a user scope is valid here'' ''select at least one user or leave the capability ungranted''
                    (cg_Hosts scope \<noteq> [] \<or> cg_Channels scope \<noteq> [] \<or> cg_Servers scope \<noteq> [] \<or> cg_Plans scope \<noteq> []) (cg_Users scope) userExists)
          else if cp_Resource spec = ResourcePlan
          then map_sum id (\<lambda>ids. scope\<lparr>cg_Plans := ids\<rparr>)
                 (validate_ids name ''.plans'' ''only a plan scope is valid here'' ''select at least one plan or leave the capability ungranted''
                    (cg_Hosts scope \<noteq> [] \<or> cg_Channels scope \<noteq> [] \<or> cg_Servers scope \<noteq> [] \<or> cg_Users scope \<noteq> []) (cg_Plans scope) planExists)
          else if cp_Resource spec = ResourceNotificationChannel
          then map_sum id (\<lambda>ids. scope\<lparr>cg_Channels := ids\<rparr>)
                 (validate_ids name ''.channels'' ''only a channel scope is valid here'' ''select at least one notification channel''
                    (cg_Servers scope \<noteq> [] \<or> cg_Hosts scope \<noteq> [] \<or> cg_Users scope \<noteq> [] \<or> cg_Plans scope \<noteq> []) (cg_Channels scope) channelExists)
          else if cg_Servers scope \<noteq> [] \<or> cg_Hosts scope \<noteq> [] \<or> cg_Channels scope \<noteq> [] \<or> cg_Users scope \<noteq> [] \<or> cg_Plans scope \<noteq> []
          then Inl (FailField CodeInvalidArgument (''capabilities.'' @ name) ''this capability has no resource scope'')
          else Inr scope)"

fun validate_scopes :: "(string \<Rightarrow> CapabilityGrant \<Rightarrow> PluginError + CapabilityGrant) \<Rightarrow> (string, CapabilityGrant) gomap \<Rightarrow>
    PluginError + (string, CapabilityGrant) gomap" where
  "validate_scopes check [] = Inr []"
| "validate_scopes check ((name, scope) # rest) =
     (case check name scope of
        Inl e \<Rightarrow> Inl e
      | Inr scope \<Rightarrow> map_sum id (\<lambda>rest. (name, scope) # rest) (validate_scopes check rest))"

definition ServerUnion :: "Grant \<Rightarrow> int list" where
  "ServerUnion g =
     remdups (concat (map (\<lambda>(name, scope).
       case LookupCapability name of
         Some spec \<Rightarrow> if cp_Resource spec = ResourceServer then cg_Servers scope else []
       | None \<Rightarrow> []) (gr_Capabilities g)))"

definition ValidateGrant :: "Manifest \<Rightarrow> Grant \<Rightarrow> (int \<Rightarrow> bool) option \<Rightarrow> (int \<Rightarrow> bool) option \<Rightarrow> (int \<Rightarrow> bool) option \<Rightarrow> (int \<Rightarrow> bool) option \<Rightarrow>
    PluginError + Grant" where
  "ValidateGrant m g serverExists channelExists userExists planExists =
     (case validate_scopes (validate_scope m serverExists channelExists userExists planExists) (gr_Capabilities g) of
        Inl e \<Rightarrow> Inl e
      | Inr caps \<Rightarrow>
          (let g = g\<lparr>gr_Capabilities := caps\<rparr>
           in case manifestServerRequirement m of
                None \<Rightarrow> Inr g
              | Some req \<Rightarrow>
                  if length (ServerUnion g) > 0 \<and> sq_Max req > 0 \<and> int (length (ServerUnion g)) > sq_Max req
                  then Inl (FailField CodeInvalidArgument ''capabilities'' ''the plugin accepts at most the declared number of servers'')
                  else Inr g))"

subsection \<open>Checks of the gateway\<close>

definition Grant_Allows :: "Grant \<Rightarrow> string \<Rightarrow> bool" where
  "Grant_Allows g cap \<longleftrightarrow> map_of (gr_Capabilities g) cap \<noteq> None"

definition AllowsServer :: "Grant \<Rightarrow> string \<Rightarrow> int \<Rightarrow> bool" where
  "AllowsServer g cap i = (case map_of (gr_Capabilities g) cap of None \<Rightarrow> False | Some scope \<Rightarrow> list_ex (\<lambda>x. x = i) (cg_Servers scope))"

definition AllowsUser :: "Grant \<Rightarrow> string \<Rightarrow> int \<Rightarrow> bool" where
  "AllowsUser g cap i = (case map_of (gr_Capabilities g) cap of None \<Rightarrow> False | Some scope \<Rightarrow> list_ex (\<lambda>x. x = i) (cg_Users scope))"

definition AllowsPlan :: "Grant \<Rightarrow> string \<Rightarrow> int \<Rightarrow> bool" where
  "AllowsPlan g cap i = (case map_of (gr_Capabilities g) cap of None \<Rightarrow> False | Some scope \<Rightarrow> list_ex (\<lambda>x. x = i) (cg_Plans scope))"

definition AllowsChannel :: "Grant \<Rightarrow> int \<Rightarrow> bool" where
  "AllowsChannel g i = (case map_of (gr_Capabilities g) CapNotificationsSend of None \<Rightarrow> False | Some scope \<Rightarrow> list_ex (\<lambda>x. x = i) (cg_Channels scope))"

definition HTTPHosts :: "Grant \<Rightarrow> string list" where
  "HTTPHosts g = (case map_of (gr_Capabilities g) CapHTTPRequest of None \<Rightarrow> [] | Some scope \<Rightarrow> cg_Hosts scope)"

subsection \<open>A new version\<close>

definition declared_hosts :: "Manifest \<Rightarrow> string list" where
  "declared_hosts m = (case mf_HTTP m of None \<Rightarrow> [] | Some h \<Rightarrow> hs_Hosts h)"

fun restrict_caps :: "Manifest \<Rightarrow> (string, CapabilityGrant) gomap \<Rightarrow> (string, CapabilityGrant) gomap" where
  "restrict_caps m [] = []"
| "restrict_caps m ((name, scope) # rest) =
     (if \<not> Manifest_HasCapability m name then restrict_caps m rest
      else if name = CapHTTPRequest
      then (let hosts = filter (\<lambda>h. h \<in> set (declared_hosts m)) (cg_Hosts scope)
            in if hosts = [] then restrict_caps m rest else (name, scope\<lparr>cg_Hosts := hosts\<rparr>) # restrict_caps m rest)
      else (name, scope) # restrict_caps m rest)"

definition RestrictTo :: "Grant \<Rightarrow> Manifest \<Rightarrow> Grant" where
  "RestrictTo g m = g\<lparr>gr_Capabilities := restrict_caps m (gr_Capabilities g)\<rparr>"

record PermissionDiff =
  pd_AddedCapabilities :: "string list"
  pd_RemovedCapabilities :: "string list"
  pd_AddedHosts :: "string list"
  pd_RemovedHosts :: "string list"
  pd_AddedMethods :: "string list"
  pd_AddedEvents :: "string list"
  pd_AddedSecrets :: "string list"
  pd_AddedEnvironment :: "string list"
  pd_RemovedEnvironment :: "string list"
  pd_ChangedEnvironment :: "string list"
  pd_NewRequired :: "string list"
  pd_AddedPages :: "string list"
  pd_AddedActions :: "string list"
  pd_ResourcesExpanded :: bool
  pd_Expanded :: bool

abbreviation EnvSecret :: string where "EnvSecret \<equiv> ''secret''"

definition setDiff :: "string list \<Rightarrow> string list \<Rightarrow> string list \<times> string list" where
  "setDiff before after = (sort (filter (\<lambda>x. x \<notin> set before) after), sort (filter (\<lambda>x. x \<notin> set after) before))"

definition empty_manifest :: Manifest where
  "empty_manifest = \<lparr>mf_Capabilities = [], mf_HTTP = None, mf_Resources = None, mf_Environment = [], mf_Pages = [],
     mf_Triggers = \<lparr>tr_Schedule = False, tr_Events = []\<rparr>\<rparr>"

text \<open>The names a field of the new version adds to the lists of the difference: added, changed, secret, newly required.\<close>

definition env_change :: "(EnvField \<Rightarrow> string) \<Rightarrow> EnvField list \<Rightarrow> EnvField \<Rightarrow> bool \<times> bool \<times> bool \<times> bool" where
  "env_change marshal prev field =
     (case index_by ef_Name prev (ef_Name field) of
        None \<Rightarrow> (True, False, ef_Type field = EnvSecret, ef_Required field \<and> ef_Default field = [])
      | Some old \<Rightarrow>
          if marshal old \<noteq> marshal field
          then (False, True, ef_Type field = EnvSecret \<and> ef_Type old \<noteq> EnvSecret, ef_Required field \<and> \<not> ef_Required old \<and> ef_Default field = [])
          else (False, False, False, False))"

definition env_names :: "(EnvField \<Rightarrow> bool) \<Rightarrow> EnvField list \<Rightarrow> string list" where
  "env_names P env = map ef_Name (filter P env)"

definition added_actions :: "PageDeclaration list \<Rightarrow> PageDeclaration \<Rightarrow> string list" where
  "added_actions prev page =
     map (\<lambda>a. pg_ID page @ ''/'' @ a)
       (filter (\<lambda>a. case index_by pg_ID prev (pg_ID page) of None \<Rightarrow> True | Some old \<Rightarrow> a \<notin> set (pg_Actions old)) (pg_Actions page))"

definition resources_expanded :: "ServerRequirement option \<Rightarrow> ServerRequirement option \<Rightarrow> bool" where
  "resources_expanded prevReq nextReq =
     (case nextReq of
        None \<Rightarrow> False
      | Some new \<Rightarrow>
          (case prevReq of
             None \<Rightarrow> True
           | Some old \<Rightarrow> sq_Min new > sq_Min old \<or> sq_Max new > sq_Max old \<and> sq_Max old \<noteq> 0 \<or> sq_Max new = 0 \<and> sq_Max old \<noteq> 0))"

definition DiffPermissions :: "(EnvField \<Rightarrow> string) \<Rightarrow> Manifest option \<Rightarrow> Manifest \<Rightarrow> PermissionDiff" where
  "DiffPermissions marshal previous new =
     (let prev = (case previous of None \<Rightarrow> empty_manifest | Some m \<Rightarrow> m);
          (addedCaps, removedCaps) = setDiff (mf_Capabilities prev) (mf_Capabilities new);
          (addedHosts, removedHosts) = setDiff (declared_hosts prev) (declared_hosts new);
          methods = (\<lambda>m. case mf_HTTP m of None \<Rightarrow> [] | Some h \<Rightarrow> hs_Methods h);
          addedMethods = fst (setDiff (methods prev) (methods new));
          addedEvents = fst (setDiff (tr_Events (mf_Triggers prev)) (tr_Events (mf_Triggers new)));
          change = env_change marshal (mf_Environment prev);
          addedSecrets = env_names (\<lambda>x. fst (snd (snd (change x)))) (mf_Environment new);
          addedPages = sort (map pg_ID (filter (\<lambda>page. index_by pg_ID (mf_Pages prev) (pg_ID page) = None) (mf_Pages new)));
          addedActions = sort (concat (map (added_actions (mf_Pages prev)) (mf_Pages new)));
          resourcesExpanded = (resources_expanded (manifestServerRequirement prev) (manifestServerRequirement new) \<and> previous \<noteq> None)
      in \<lparr>pd_AddedCapabilities = addedCaps, pd_RemovedCapabilities = removedCaps, pd_AddedHosts = addedHosts, pd_RemovedHosts = removedHosts,
          pd_AddedMethods = addedMethods, pd_AddedEvents = addedEvents, pd_AddedSecrets = addedSecrets,
          pd_AddedEnvironment = env_names (\<lambda>x. fst (change x)) (mf_Environment new),
          pd_RemovedEnvironment = sort (filter (\<lambda>n. n \<notin> ef_Name ` set (mf_Environment new)) (remdups (map ef_Name (mf_Environment prev)))),
          pd_ChangedEnvironment = env_names (\<lambda>x. fst (snd (change x))) (mf_Environment new),
          pd_NewRequired = env_names (\<lambda>x. snd (snd (snd (change x)))) (mf_Environment new),
          pd_AddedPages = addedPages, pd_AddedActions = addedActions, pd_ResourcesExpanded = resourcesExpanded,
          pd_Expanded = (addedCaps \<noteq> [] \<or> addedHosts \<noteq> [] \<or> addedMethods \<noteq> [] \<or> addedEvents \<noteq> [] \<or> addedSecrets \<noteq> [] \<or>
            addedPages \<noteq> [] \<or> addedActions \<noteq> [] \<or> resourcesExpanded)\<rparr>)"

section \<open>What a valid grant is\<close>

definition resource_exists :: "(int \<Rightarrow> bool) option \<Rightarrow> int \<Rightarrow> bool" where
  "resource_exists exist i = (case exist of None \<Rightarrow> True | Some f \<Rightarrow> f i)"

definition ids_within :: "(int \<Rightarrow> bool) option \<Rightarrow> int list \<Rightarrow> bool" where
  "ids_within exist ids \<longleftrightarrow> ids \<noteq> [] \<and> length ids \<le> 256 \<and> sorted_wrt (<) ids \<and> list_all (\<lambda>i. 0 < i \<and> resource_exists exist i) ids"

definition hosts_within :: "Manifest \<Rightarrow> string list \<Rightarrow> bool" where
  "hosts_within m hosts \<longleftrightarrow> hosts \<noteq> [] \<and> sorted_wrt (<) hosts \<and> list_all (\<lambda>h. h \<in> set (declared_hosts m) \<and> ToLower (TrimSpace h) = h) hosts"

text \<open>The scope names something of the capability's own kind of resource and nothing of any other kind.\<close>

definition scope_within :: "Manifest \<Rightarrow> (int \<Rightarrow> bool) option \<Rightarrow> (int \<Rightarrow> bool) option \<Rightarrow> (int \<Rightarrow> bool) option \<Rightarrow> (int \<Rightarrow> bool) option \<Rightarrow>
    string \<Rightarrow> CapabilityGrant \<Rightarrow> bool" where
  "scope_within m serverExists channelExists userExists planExists name scope =
     (case LookupCapability name of
        None \<Rightarrow> False
      | Some spec \<Rightarrow>
          \<not> forbiddenCapability name \<and> Manifest_HasCapability m name \<and>
          (if cp_Resource spec = ResourceServer then ids_within serverExists (cg_Servers scope) else cg_Servers scope = []) \<and>
          (if cp_Resource spec = ResourceHTTPHost then hosts_within m (cg_Hosts scope) else cg_Hosts scope = []) \<and>
          (if cp_Resource spec = ResourceUser then ids_within userExists (cg_Users scope) else cg_Users scope = []) \<and>
          (if cp_Resource spec = ResourcePlan then ids_within planExists (cg_Plans scope) else cg_Plans scope = []) \<and>
          (if cp_Resource spec = ResourceNotificationChannel then ids_within channelExists (cg_Channels scope) else cg_Channels scope = []))"

definition servers_within :: "Manifest \<Rightarrow> Grant \<Rightarrow> bool" where
  "servers_within m g \<longleftrightarrow>
     (case manifestServerRequirement m of None \<Rightarrow> True | Some req \<Rightarrow> sq_Max req \<le> 0 \<or> int (length (ServerUnion g)) \<le> sq_Max req)"

definition grant_within :: "Manifest \<Rightarrow> Grant \<Rightarrow> (int \<Rightarrow> bool) option \<Rightarrow> (int \<Rightarrow> bool) option \<Rightarrow> (int \<Rightarrow> bool) option \<Rightarrow> (int \<Rightarrow> bool) option \<Rightarrow> bool" where
  "grant_within m g serverExists channelExists userExists planExists \<longleftrightarrow>
     list_all (\<lambda>(name, scope). scope_within m serverExists channelExists userExists planExists name scope) (gr_Capabilities g) \<and> servers_within m g"

subsection \<open>Normal forms\<close>

lemma normalize_ids_Inr:
  "normalize_ids ids exist out = Inr out' \<Longrightarrow>
     list_all (\<lambda>i. 0 < i \<and> resource_exists exist i) ids \<and> set out' = set out \<union> set ids \<and> (distinct out \<longrightarrow> distinct out')"
  by (induction ids exist out rule: normalize_ids.induct) (auto simp: resource_exists_def split: if_splits option.splits)

lemma normalize_ids_fix:
  "list_all (\<lambda>i. 0 < i \<and> resource_exists exist i) ids \<Longrightarrow> distinct (out @ ids) \<Longrightarrow> normalize_ids ids exist out = Inr (out @ ids)"
  by (induction ids exist out rule: normalize_ids.induct) (auto simp: resource_exists_def split: option.splits)

lemma strict_sorted_sort: "distinct xs \<Longrightarrow> sorted_wrt (<) (sort xs)" for xs :: "'a::linorder list"
  by (simp add: strict_sorted_iff)

lemma normalizeIDs_Inr:
  assumes "normalizeIDs ids exist = Inr ids'" "ids' \<noteq> []"
  shows "ids_within exist ids' \<and> set ids' = set ids"
proof -
  obtain out where out: "normalize_ids ids exist [] = Inr out" "length out \<le> 256" "ids' = sort out"
    using assms(1) by (auto simp: normalizeIDs_def split: sum.splits if_splits)
  with normalize_ids_Inr [OF out(1)] assms(2) show ?thesis
    by (simp add: ids_within_def strict_sorted_sort list_all_iff)
qed

lemma normalizeIDs_fix: "ids_within exist ids \<Longrightarrow> normalizeIDs ids exist = Inr ids"
  using normalize_ids_fix [of exist ids "[]"]
  by (simp add: ids_within_def normalizeIDs_def strict_sorted_iff sorted_sort_id)

lemma validate_ids_Inr:
  "validate_ids name field onlyText emptyText others ids exist = Inr ids' \<Longrightarrow> \<not> others \<and> ids_within exist ids' \<and> set ids' = set ids"
  using normalizeIDs_Inr by (auto simp: validate_ids_def split: if_splits sum.splits)

lemma validate_ids_fix:
  "\<not> others \<Longrightarrow> ids_within exist ids \<Longrightarrow> validate_ids name field onlyText emptyText others ids exist = Inr ids"
  using normalizeIDs_fix [of exist ids] by (simp add: validate_ids_def) (simp add: ids_within_def)

lemma normalize_hosts_Inr:
  "normalize_hosts name declared hosts out = Inr out' \<Longrightarrow>
     set out' = set out \<union> (\<lambda>h. ToLower (TrimSpace h)) ` set hosts \<and> (\<lambda>h. ToLower (TrimSpace h)) ` set hosts \<subseteq> set declared \<and>
     (distinct out \<longrightarrow> distinct out')"
  by (induction name declared hosts out rule: normalize_hosts.induct) (auto simp: Let_def split: if_splits)

lemma normalize_hosts_fix:
  "list_all (\<lambda>h. h \<in> set declared \<and> ToLower (TrimSpace h) = h) hosts \<Longrightarrow> distinct (out @ hosts) \<Longrightarrow>
     normalize_hosts name declared hosts out = Inr (out @ hosts)"
  by (induction name declared hosts out rule: normalize_hosts.induct) (auto simp: Let_def)

lemma validate_hosts_Inr:
  assumes "validate_hosts m name scope = Inr hosts"
  shows "cg_Servers scope = [] \<and> cg_Channels scope = [] \<and> cg_Users scope = [] \<and> cg_Plans scope = [] \<and>
    hosts_within m hosts \<and> set hosts = (\<lambda>h. ToLower (TrimSpace h)) ` set (cg_Hosts scope)"
proof -
  obtain h out where out: "mf_HTTP m = Some h" "normalize_hosts name (hs_Hosts h) (cg_Hosts scope) [] = Inr out" "out \<noteq> []" "hosts = sort out"
    and others: "cg_Servers scope = [] \<and> cg_Channels scope = [] \<and> cg_Users scope = [] \<and> cg_Plans scope = []"
    using assms by (auto simp: validate_hosts_def split: if_splits sum.splits)
  from out(3) have "sort out \<noteq> []" by (metis length_0_conv length_sort)
  with normalize_hosts_Inr [OF out(2)] out others show ?thesis
    by (auto simp: hosts_within_def declared_hosts_def strict_sorted_sort list_all_iff)
qed

lemma validate_hosts_fix:
  assumes "cg_Servers scope = []" "cg_Channels scope = []" "cg_Users scope = []" "cg_Plans scope = []" "hosts_within m (cg_Hosts scope)"
  shows "validate_hosts m name scope = Inr (cg_Hosts scope)"
proof -
  from assms(5) obtain h where h: "mf_HTTP m = Some h"
    by (cases "mf_HTTP m"; cases "cg_Hosts scope") (auto simp: hosts_within_def declared_hosts_def)
  with assms normalize_hosts_fix [of "hs_Hosts h" "cg_Hosts scope" "[]" name] show ?thesis
    by (simp add: validate_hosts_def hosts_within_def declared_hosts_def strict_sorted_iff sorted_sort_id)
qed

subsection \<open>Validation\<close>

text \<open>What two scopes of one capability select.\<close>

definition same_selection :: "CapabilityGrant \<Rightarrow> CapabilityGrant \<Rightarrow> bool" where
  "same_selection s t \<longleftrightarrow> set (cg_Servers t) = set (cg_Servers s) \<and> set (cg_Users t) = set (cg_Users s) \<and> set (cg_Plans t) = set (cg_Plans s) \<and>
     set (cg_Channels t) = set (cg_Channels s) \<and> set (cg_Hosts t) = (\<lambda>h. ToLower (TrimSpace h)) ` set (cg_Hosts s)"

lemma map_sum_Inr: "map_sum id f x = Inr y \<longleftrightarrow> (\<exists>z. x = Inr z \<and> y = f z)"
  by (cases x) auto

lemma scoped_ids:
  "map_sum id f (validate_ids name field onlyText emptyText others ids exist) = Inr scope' \<Longrightarrow>
     \<not> others \<and> (\<exists>x. scope' = f x \<and> ids_within exist x \<and> set x = set ids)"
  unfolding map_sum_Inr by (elim exE conjE) (drule validate_ids_Inr, blast)

lemma scoped_hosts:
  "map_sum id f (validate_hosts m name scope) = Inr scope' \<Longrightarrow> \<exists>x. scope' = f x \<and> validate_hosts m name scope = Inr x"
  by (auto simp: map_sum_Inr)

lemma validate_scope_Inr:
  assumes "validate_scope m eS eC eU eP name scope = Inr scope'"
  shows "scope_within m eS eC eU eP name scope' \<and> same_selection scope scope'"
proof -
  obtain spec where spec: "LookupCapability name = Some spec" "\<not> forbiddenCapability name" "Manifest_HasCapability m name"
    using assms by (simp add: validate_scope_def split: option.splits if_splits)
  note V = assms [unfolded validate_scope_def spec(1) option.case if_not_P [OF spec(2)] if_not_P [OF not_not [THEN iffD2, OF spec(3)]]]
  consider "cp_Resource spec = ResourceServer" | "cp_Resource spec = ResourceHTTPHost" | "cp_Resource spec = ResourceUser"
    | "cp_Resource spec = ResourcePlan" | "cp_Resource spec = ResourceNotificationChannel"
    | "cp_Resource spec \<notin> {ResourceServer, ResourceHTTPHost, ResourceUser, ResourcePlan, ResourceNotificationChannel}"
    by blast
  then show ?thesis
  proof cases
    case 1
    note W = scoped_ids [OF V [unfolded 1, simplified]]
    then obtain x where "scope' = scope\<lparr>cg_Servers := x\<rparr>" "ids_within eS x" "set x = set (cg_Servers scope)" by blast
    with 1 W [THEN conjunct1] show ?thesis by (simp add: scope_within_def same_selection_def spec)
  next
    case 2
    from scoped_hosts [OF V [unfolded 2, simplified]]
    obtain x where x: "scope' = scope\<lparr>cg_Hosts := x\<rparr>" "validate_hosts m name scope = Inr x" by blast
    with 2 validate_hosts_Inr [OF x(2)] show ?thesis by (simp add: scope_within_def same_selection_def spec)
  next
    case 3
    note W = scoped_ids [OF V [unfolded 3, simplified]]
    then obtain x where "scope' = scope\<lparr>cg_Users := x\<rparr>" "ids_within eU x" "set x = set (cg_Users scope)" by blast
    with 3 W [THEN conjunct1] show ?thesis by (simp add: scope_within_def same_selection_def spec)
  next
    case 4
    note W = scoped_ids [OF V [unfolded 4, simplified]]
    then obtain x where "scope' = scope\<lparr>cg_Plans := x\<rparr>" "ids_within eP x" "set x = set (cg_Plans scope)" by blast
    with 4 W [THEN conjunct1] show ?thesis by (simp add: scope_within_def same_selection_def spec)
  next
    case 5
    note W = scoped_ids [OF V [unfolded 5, simplified]]
    then obtain x where "scope' = scope\<lparr>cg_Channels := x\<rparr>" "ids_within eC x" "set x = set (cg_Channels scope)" by blast
    with 5 W [THEN conjunct1] show ?thesis by (simp add: scope_within_def same_selection_def spec)
  next
    case 6
    with V have "scope' = scope" "cg_Servers scope = []" "cg_Hosts scope = []" "cg_Channels scope = []" "cg_Users scope = []" "cg_Plans scope = []"
      by (simp_all split: if_splits)
    with 6 show ?thesis by (simp add: scope_within_def same_selection_def spec)
  qed
qed

lemma validate_scope_fix:
  assumes "scope_within m eS eC eU eP name scope"
  shows "validate_scope m eS eC eU eP name scope = Inr scope"
proof -
  obtain spec where spec: "LookupCapability name = Some spec" "\<not> forbiddenCapability name" "Manifest_HasCapability m name"
    using assms by (auto simp: scope_within_def split: option.splits)
  consider "cp_Resource spec = ResourceServer" | "cp_Resource spec = ResourceHTTPHost" | "cp_Resource spec = ResourceUser"
    | "cp_Resource spec = ResourcePlan" | "cp_Resource spec = ResourceNotificationChannel"
    | "cp_Resource spec \<notin> {ResourceServer, ResourceHTTPHost, ResourceUser, ResourcePlan, ResourceNotificationChannel}"
    by blast
  then show ?thesis
    using assms
    by cases (simp_all add: validate_scope_def scope_within_def spec validate_ids_fix validate_hosts_fix)
qed

lemma validate_scopes_Inr:
  "validate_scopes check caps = Inr caps' \<longleftrightarrow> list_all2 (\<lambda>p p'. fst p' = fst p \<and> check (fst p) (snd p) = Inr (snd p')) caps caps'"
proof (induction check caps arbitrary: caps' rule: validate_scopes.induct)
  case (2 check name scope rest)
  show ?case by (cases caps') (auto simp: 2 map_sum_Inr split: sum.splits)
qed auto

lemma ServerUnion_set: "set (ServerUnion g) = {i. \<exists>name scope spec. (name, scope) \<in> set (gr_Capabilities g) \<and>
    LookupCapability name = Some spec \<and> cp_Resource spec = ResourceServer \<and> i \<in> set (cg_Servers scope)}"
proof -
  have "i \<in> set (case LookupCapability name of Some spec \<Rightarrow> if cp_Resource spec = ResourceServer then cg_Servers scope else [] | None \<Rightarrow> []) \<longleftrightarrow>
      (\<exists>spec. LookupCapability name = Some spec \<and> cp_Resource spec = ResourceServer \<and> i \<in> set (cg_Servers scope))" for i name scope
    by (cases "LookupCapability name") simp_all
  then show ?thesis by (simp add: ServerUnion_def case_prod_beta set_eq_iff Bex_def) (metis fst_conv snd_conv prod.collapse)
qed

lemma ValidateGrant_Inr:
  "ValidateGrant m g eS eC eU eP = Inr g' \<longleftrightarrow>
     list_all2 (\<lambda>p p'. fst p' = fst p \<and> validate_scope m eS eC eU eP (fst p) (snd p) = Inr (snd p')) (gr_Capabilities g) (gr_Capabilities g') \<and>
     servers_within m g'"
proof -
  have *: "g\<lparr>gr_Capabilities := caps\<rparr> = g' \<longleftrightarrow> caps = gr_Capabilities g'" for caps by (cases g; cases g') auto
  have **: "g\<lparr>gr_Capabilities := gr_Capabilities g'\<rparr> = g'" by (cases g; cases g') auto
  show ?thesis
    unfolding validate_scopes_Inr [symmetric]
    by (cases "validate_scopes (validate_scope m eS eC eU eP) (gr_Capabilities g)")
      (auto simp: ValidateGrant_def Let_def servers_within_def * ** split: option.splits if_splits)
qed

lemma map_of_rel:
  "list_all2 (\<lambda>p p'. fst p' = fst p \<and> R (snd p) (snd p')) xs ys \<Longrightarrow>
     rel_option R (map_of xs k) (map_of ys k)"
  by (induction xs ys rule: list_all2_induct) auto

lemma validated_scope_at:
  assumes "ValidateGrant m g eS eC eU eP = Inr g'"
  shows "rel_option same_selection (map_of (gr_Capabilities g) cap) (map_of (gr_Capabilities g') cap)"
  using assms unfolding ValidateGrant_Inr
  by (intro map_of_rel) (elim conjE, erule list_all2_mono, use validate_scope_Inr in blast)

lemma validated_selection:
  assumes "ValidateGrant m g eS eC eU eP = Inr g'"
  shows "AllowsServer g' cap i = AllowsServer g cap i" "AllowsUser g' cap i = AllowsUser g cap i" "AllowsPlan g' cap i = AllowsPlan g cap i"
  using validated_scope_at [OF assms, of cap] unfolding AllowsServer_def AllowsUser_def AllowsPlan_def
  by (cases "map_of (gr_Capabilities g) cap"; cases "map_of (gr_Capabilities g') cap"; simp add: same_selection_def list_ex_iff)+

lemma validated_channels: "ValidateGrant m g eS eC eU eP = Inr g' \<Longrightarrow> AllowsChannel g' i = AllowsChannel g i"
  using validated_scope_at [of m g eS eC eU eP g' CapNotificationsSend] unfolding AllowsChannel_def
  by (cases "map_of (gr_Capabilities g) CapNotificationsSend"; cases "map_of (gr_Capabilities g') CapNotificationsSend")
    (simp_all add: same_selection_def list_ex_iff)

lemma validated_hosts: "ValidateGrant m g eS eC eU eP = Inr g' \<Longrightarrow> set (HTTPHosts g') = (\<lambda>h. ToLower (TrimSpace h)) ` set (HTTPHosts g)"
  using validated_scope_at [of m g eS eC eU eP g' CapHTTPRequest] unfolding HTTPHosts_def
  by (cases "map_of (gr_Capabilities g) CapHTTPRequest"; cases "map_of (gr_Capabilities g') CapHTTPRequest")
    (simp_all add: same_selection_def)

text \<open>
  C12. A grant that passes validation never exceeds the declaration of the plugin version: every capability is catalogued,
  not forbidden and declared; its scope is non-empty, sorted, without repetition, names existing resources of the
  capability's own kind and nothing else, its hosts are declared ones; and no more servers are touched than the
  manifest's maximum. The validated grant has the capabilities of the proposal, and each of them selects exactly what
  the administrator selected.
\<close>
theorem validated_grant_within_declaration:
  assumes "ValidateGrant m g serverExists channelExists userExists planExists = Inr g'"
  shows "grant_within m g' serverExists channelExists userExists planExists \<and>
    (\<forall>cap. rel_option same_selection (map_of (gr_Capabilities g) cap) (map_of (gr_Capabilities g') cap))"
proof -
  have "list_all (\<lambda>(name, scope). scope_within m serverExists channelExists userExists planExists name scope) (gr_Capabilities g')"
    using assms unfolding ValidateGrant_Inr
    by (auto simp: list_all2_conv_all_nth list_all_length case_prod_beta dest: validate_scope_Inr)
  then show ?thesis using assms validated_scope_at [OF assms] by (simp add: grant_within_def ValidateGrant_Inr)
qed

text \<open>
  C35. The normal form is exact: validation accepts a grant and leaves it unchanged if and only if the grant is within
  the declaration. In particular a stored grant passes validation again as long as its resources exist.
\<close>
theorem validation_fixpoint_exact:
  "ValidateGrant m g serverExists channelExists userExists planExists = Inr g \<longleftrightarrow> grant_within m g serverExists channelExists userExists planExists"
proof -
  have "validate_scope m serverExists channelExists userExists planExists name scope = Inr scope \<longleftrightarrow>
      scope_within m serverExists channelExists userExists planExists name scope" for name scope
    using validate_scope_Inr validate_scope_fix by blast
  then show ?thesis
    by (simp add: ValidateGrant_Inr grant_within_def list_all2_same list_all_iff case_prod_beta)
qed

subsection \<open>The catalogue\<close>

lemma catalog_init_names:
  "catalog_init specs byName byMethod = Inr (byName', byMethod') \<Longrightarrow> byName' = fold (\<lambda>spec m. m(cp_Name spec \<mapsto> spec)) specs byName"
proof (induction specs byName byMethod rule: catalog_init.induct)
  case (2 s specs byName byMethod)
  from "2.prems" obtain m where m: "\<not> forbiddenCapability (cp_Name s)" "register_methods s (cp_Methods s) byMethod = Inr m"
    "catalog_init specs (byName(cp_Name s \<mapsto> s)) m = Inr (byName', byMethod')"
    by (auto split: if_splits sum.splits)
  from "2.IH" [OF m] show ?case by simp
qed simp

text \<open>The package loads: no name of the catalogue is forbidden and no method is listed twice.\<close>

lemma catalog_loads: "case catalog_init capabilityCatalog Map.empty Map.empty of Inl _ \<Rightarrow> False | Inr _ \<Rightarrow> True"
  by code_simp

lemma LookupCapability_index [code]: "LookupCapability name = index_by cp_Name capabilityCatalog name"
proof -
  obtain byName byMethod where "catalog_init capabilityCatalog Map.empty Map.empty = Inr (byName, byMethod)"
    using catalog_loads by (cases "catalog_init capabilityCatalog Map.empty Map.empty") auto
  with catalog_init_names [OF this] show ?thesis by (simp add: LookupCapability_def index_by_def)
qed

lemma LookupCapability_entry: "LookupCapability name = Some spec \<Longrightarrow> spec \<in> set capabilityCatalog \<and> cp_Name spec = name"
  unfolding LookupCapability_index by (rule index_by_Some)

lemma catalog_host_kind: "list_all (\<lambda>spec. cp_Resource spec = ResourceHTTPHost \<longleftrightarrow> cp_Name spec = CapHTTPRequest) capabilityCatalog"
  by code_simp

lemma host_kind: "LookupCapability name = Some spec \<Longrightarrow> cp_Resource spec = ResourceHTTPHost \<longleftrightarrow> name = CapHTTPRequest"
  using catalog_host_kind LookupCapability_entry unfolding list_all_iff by auto

subsection \<open>Carrying a grant to a new version\<close>

text \<open>One grant selects no more than another: each capability it has, the other has with a scope that includes it.\<close>

definition scope_le :: "CapabilityGrant \<Rightarrow> CapabilityGrant \<Rightarrow> bool" where
  "scope_le s t \<longleftrightarrow> set (cg_Servers s) \<subseteq> set (cg_Servers t) \<and> set (cg_Hosts s) \<subseteq> set (cg_Hosts t) \<and> set (cg_Channels s) \<subseteq> set (cg_Channels t) \<and>
     set (cg_Users s) \<subseteq> set (cg_Users t) \<and> set (cg_Plans s) \<subseteq> set (cg_Plans t)"

definition grant_le :: "Grant \<Rightarrow> Grant \<Rightarrow> bool" where
  "grant_le g h \<longleftrightarrow> list_all (\<lambda>(name, s). list_ex (\<lambda>(name', t). name' = name \<and> scope_le s t) (gr_Capabilities h)) (gr_Capabilities g)"

definition restrict_scope :: "Manifest \<Rightarrow> string \<Rightarrow> CapabilityGrant \<Rightarrow> CapabilityGrant" where
  "restrict_scope m name scope =
     (if name = CapHTTPRequest then scope\<lparr>cg_Hosts := filter (\<lambda>h. h \<in> set (declared_hosts m)) (cg_Hosts scope)\<rparr> else scope)"

lemma restrict_caps_alt:
  "restrict_caps m caps = filter (\<lambda>(name, s). name = CapHTTPRequest \<longrightarrow> cg_Hosts s \<noteq> [])
     (map (\<lambda>(name, s). (name, restrict_scope m name s)) (filter (\<lambda>(name, s). Manifest_HasCapability m name) caps))"
  by (induction m caps rule: restrict_caps.induct) (simp_all add: Let_def restrict_scope_def)

lemma restrict_caps_entry:
  assumes "(name, s) \<in> set (restrict_caps m caps)"
  obtains t where "Manifest_HasCapability m name" "(name, t) \<in> set caps" "s = restrict_scope m name t" "name = CapHTTPRequest \<longrightarrow> cg_Hosts s \<noteq> []"
  using assms unfolding restrict_caps_alt by fastforce

lemma restricted_scope_le: "(name, s) \<in> set (restrict_caps m caps) \<Longrightarrow> \<exists>t. (name, t) \<in> set caps \<and> scope_le s t"
  by (elim restrict_caps_entry) (auto simp: scope_le_def restrict_scope_def)

lemma hosts_within_filter:
  "hosts_within old hosts \<Longrightarrow> filter (\<lambda>h. h \<in> set (declared_hosts m)) hosts \<noteq> [] \<Longrightarrow>
     hosts_within m (filter (\<lambda>h. h \<in> set (declared_hosts m)) hosts)"
  by (auto simp: hosts_within_def list_all_iff sorted_wrt_filter)

lemma restricted_scope_within:
  assumes s: "(name, s) \<in> set (restrict_caps m caps)"
    and caps: "list_all (\<lambda>(name, scope). scope_within old eS eC eU eP name scope) caps"
  shows "scope_within m eS eC eU eP name s"
proof -
  obtain t where has: "Manifest_HasCapability m name" and t: "(name, t) \<in> set caps" "s = restrict_scope m name t" "name = CapHTTPRequest \<longrightarrow> cg_Hosts s \<noteq> []"
    using s by (rule restrict_caps_entry)
  have w: "scope_within old eS eC eU eP name t" using caps t(1) by (auto simp: list_all_iff)
  then obtain spec where spec: "LookupCapability name = Some spec" by (auto simp: scope_within_def split: option.splits)
  show ?thesis
  proof (cases "name = CapHTTPRequest")
    case True
    then have k: "cp_Resource spec = ResourceHTTPHost" using host_kind [OF spec] by simp
    from True t(2) have s: "s = t\<lparr>cg_Hosts := filter (\<lambda>h. h \<in> set (declared_hosts m)) (cg_Hosts t)\<rparr>" by (simp add: restrict_scope_def)
    with True t(3) have "filter (\<lambda>h. h \<in> set (declared_hosts m)) (cg_Hosts t) \<noteq> []" by simp
    then have "hosts_within m (cg_Hosts s)" using w s hosts_within_filter [of old "cg_Hosts t" m] unfolding scope_within_def spec option.case k by simp
    then show ?thesis using w has s unfolding scope_within_def spec option.case k by simp
  next
    case False
    then have "cp_Resource spec \<noteq> ResourceHTTPHost" "s = t" using host_kind [OF spec] t(2) by (simp_all add: restrict_scope_def)
    with w has show ?thesis unfolding scope_within_def spec option.case by simp
  qed
qed

text \<open>
  Carrying a grant to a new version never adds anything, and what survives is a valid scope of the new version:
  every capability of the carried grant is declared by the new manifest, keeps resources of its own kind and has only
  hosts the new manifest declares. The number of servers is not among what the carrying checks.
\<close>
theorem carried_grant_fits_new_version:
  assumes "grant_within old g serverExists channelExists userExists planExists"
  shows "grant_le (RestrictTo g m) g \<and>
    list_all (\<lambda>(name, scope). scope_within m serverExists channelExists userExists planExists name scope) (gr_Capabilities (RestrictTo g m))"
proof -
  have "list_all (\<lambda>(name, scope). scope_within old serverExists channelExists userExists planExists name scope) (gr_Capabilities g)"
    using assms by (simp add: grant_within_def)
  then have "list_all (\<lambda>(name, scope). scope_within m serverExists channelExists userExists planExists name scope) (restrict_caps m (gr_Capabilities g))"
    unfolding list_all_iff [of _ "restrict_caps m (gr_Capabilities g)"] using restricted_scope_within by auto
  moreover have "grant_le (RestrictTo g m) g"
    unfolding grant_le_def list_all_iff list_ex_iff RestrictTo_def using restricted_scope_le by fastforce
  ultimately show ?thesis by (simp add: RestrictTo_def)
qed

subsection \<open>The difference of two versions\<close>

lemma sort_filter_Nil: "sort (filter P xs) = [] \<longleftrightarrow> (\<forall>x\<in>set xs. \<not> P x)"
  by (metis filter_empty_conv set_empty set_sort)

lemma setDiff_added: "fst (setDiff before after) = [] \<longleftrightarrow> set after \<subseteq> set before"
  by (auto simp: setDiff_def sort_filter_Nil)

lemma not_expanded:
  assumes "\<not> pd_Expanded (DiffPermissions marshal (Some old) new)"
  shows "set (mf_Capabilities new) \<subseteq> set (mf_Capabilities old)" "set (declared_hosts new) \<subseteq> set (declared_hosts old)"
    "\<not> resources_expanded (manifestServerRequirement old) (manifestServerRequirement new)"
  using assms by (simp_all add: DiffPermissions_def Let_def case_prod_beta setDiff_added)

lemma not_expanded_scope:
  assumes "\<not> pd_Expanded (DiffPermissions marshal (Some old) new)" "scope_within new eS eC eU eP name scope"
  shows "scope_within old eS eC eU eP name scope"
proof -
  have "Manifest_HasCapability new name \<Longrightarrow> Manifest_HasCapability old name" using not_expanded(1) [OF assms(1)] by (auto simp: Manifest_HasCapability_def list_ex_iff)
  moreover have "hosts_within new hosts \<Longrightarrow> hosts_within old hosts" for hosts
    using not_expanded(2) [OF assms(1)] by (auto simp: hosts_within_def list_all_iff)
  ultimately show ?thesis using assms(2) unfolding scope_within_def by (auto split: option.splits if_splits)
qed

text \<open>
  C36. A new version that needs no review cannot be granted more than the version before it: a grant that is valid for
  the new manifest is valid for the old one. This needs that the new manifest keeps the server requirement the old one
  has, with a maximum that is not negative.
\<close>
theorem unreviewed_update_grants_no_more:
  assumes "\<not> pd_Expanded (DiffPermissions marshal (Some old) new)"
    and "grant_within new g serverExists channelExists userExists planExists"
    and "manifestServerRequirement old \<noteq> None \<longrightarrow> (\<exists>req. manifestServerRequirement new = Some req \<and> 0 \<le> sq_Max req)"
  shows "grant_within old g serverExists channelExists userExists planExists"
proof -
  have "servers_within old g"
    using assms(2,3) not_expanded(3) [OF assms(1)]
    by (auto simp: grant_within_def servers_within_def resources_expanded_def split: option.splits)
  with assms(2) not_expanded_scope [OF assms(1)] show ?thesis by (auto simp: grant_within_def list_all_iff)
qed

subsection \<open>Examples\<close>

definition demo_manifest :: "int \<Rightarrow> Manifest" where
  "demo_manifest n = \<lparr>mf_Capabilities = [CapServersRead, CapHTTPRequest], mf_HTTP = Some \<lparr>hs_Hosts = [''api.test''], hs_Methods = [''GET'']\<rparr>,
     mf_Resources = Some \<lparr>rr_Servers = Some \<lparr>sq_Min = 1, sq_Max = n, sq_Reason = []\<rparr>\<rparr>, mf_Environment = [], mf_Pages = [],
     mf_Triggers = \<lparr>tr_Schedule = False, tr_Events = []\<rparr>\<rparr>"

definition demo_scope :: CapabilityGrant where
  "demo_scope = \<lparr>cg_Servers = [], cg_Hosts = [], cg_Channels = [], cg_Users = [], cg_Plans = []\<rparr>"

definition demo_grant :: "int list \<Rightarrow> string list \<Rightarrow> Grant" where
  "demo_grant servers hosts = \<lparr>gr_Capabilities = [(CapServersRead, demo_scope\<lparr>cg_Servers := servers\<rparr>), (CapHTTPRequest, demo_scope\<lparr>cg_Hosts := hosts\<rparr>)]\<rparr>"

lemma demo_validates:
  "ValidateGrant (demo_manifest 2) (demo_grant [7, 3, 7] ['' API.test'']) (Some (\<lambda>i. i < 10)) None None None = Inr (demo_grant [3, 7] [''api.test''])"
  by code_simp

lemma demo_within: "grant_within (demo_manifest 2) (demo_grant [3, 7] [''api.test'']) (Some (\<lambda>i. i < 10)) None None None"
  by code_simp

theorem validated_grant_within_declaration_witness:
  "grant_within (demo_manifest 2) (demo_grant [3, 7] [''api.test'']) (Some (\<lambda>i. i < 10)) None None None \<and>
     (\<forall>cap. rel_option same_selection (map_of (gr_Capabilities (demo_grant [7, 3, 7] ['' API.test''])) cap)
        (map_of (gr_Capabilities (demo_grant [3, 7] [''api.test''])) cap))"
  by (rule validated_grant_within_declaration [OF demo_validates])

theorem carried_grant_fits_new_version_witness:
  "grant_le (RestrictTo (demo_grant [3, 7] [''api.test'']) (demo_manifest 1)) (demo_grant [3, 7] [''api.test'']) \<and>
     list_all (\<lambda>(name, scope). scope_within (demo_manifest 1) (Some (\<lambda>i. i < 10)) None None None name scope)
       (gr_Capabilities (RestrictTo (demo_grant [3, 7] [''api.test'']) (demo_manifest 1)))"
  by (rule carried_grant_fits_new_version [OF demo_within])

theorem unreviewed_update_grants_no_more_witness:
  "grant_within (demo_manifest 3) (demo_grant [3, 7] [''api.test'']) (Some (\<lambda>i. i < 10)) None None None"
proof (rule unreviewed_update_grants_no_more [OF _ demo_within])
  show "\<not> pd_Expanded (DiffPermissions ef_Other (Some (demo_manifest 3)) (demo_manifest 2))" by code_simp
  show "manifestServerRequirement (demo_manifest 3) \<noteq> None \<longrightarrow> (\<exists>req. manifestServerRequirement (demo_manifest 2) = Some req \<and> 0 \<le> sq_Max req)"
    by (simp add: manifestServerRequirement_def demo_manifest_def)
qed

text \<open>
  The carrying does not check the number of servers, and dropping the server requirement, which lifts the maximum,
  is not an expansion, although setting the maximum to zero, which lifts it too, is one.
\<close>

lemma carried_grant_may_exceed_maximum:
  "ValidateGrant (demo_manifest 1) (RestrictTo (demo_grant [3, 7] [''api.test'']) (demo_manifest 1)) None None None None =
     Inl (FailField CodeInvalidArgument ''capabilities'' ''the plugin accepts at most the declared number of servers'')"
  by code_simp

lemma dropped_requirement_is_unreviewed:
  "\<not> pd_Expanded (DiffPermissions ef_Other (Some (demo_manifest 1)) ((demo_manifest 1)\<lparr>mf_Resources := None\<rparr>)) \<and>
     pd_Expanded (DiffPermissions ef_Other (Some (demo_manifest 1)) (demo_manifest 0)) \<and>
     grant_within ((demo_manifest 1)\<lparr>mf_Resources := None\<rparr>) (demo_grant [3, 7] [''api.test'']) None None None None \<and>
     \<not> grant_within (demo_manifest 1) (demo_grant [3, 7] [''api.test'']) None None None None"
  by code_simp

end
