(* ===== verification/OAuth_Store.thy ===== *)
theory OAuth_Store
  imports Mcp_Auth
begin

text \<open>
  The OAuth tables of \<open>internal/store/oauth.go\<close> and \<open>oauth_authorization.go\<close>: clients, grants, authorization codes, access
  and refresh tokens, and what hangs on a grant. A table is an association list from its primary key. The keys, the
  foreign keys with their cascades and the partial unique index on live grants of the schema in \<open>store.go\<close> and
  \<open>oauth_rebuild.go\<close> are written out: a statement that would break one fails, and a failed transaction leaves the
  tables as they were. Other failures of the database are not modelled. Times are stored with all their digits and
  compared in Go, so they are numbers here; lists stored as JSON are lists. The names, redirect addresses and metadata of a client, the
  names and quotas of a principal and the display names of a grant, which none of these operations reads, are left out.
\<close>

section \<open>Rows\<close>

type_synonym OAuthGrantStatus = string

abbreviation OAuthGrantActive :: OAuthGrantStatus where "OAuthGrantActive \<equiv> ''active''"
abbreviation OAuthGrantNeedsReconsent :: OAuthGrantStatus where "OAuthGrantNeedsReconsent \<equiv> ''needs_reconsent''"
abbreviation OAuthGrantRevoked :: OAuthGrantStatus where "OAuthGrantRevoked \<equiv> ''revoked''"
abbreviation OAuthResourceKeyMCP :: string where "OAuthResourceKeyMCP \<equiv> ''mcp''"
abbreviation APIPrincipalOAuth :: string where "APIPrincipalOAuth \<equiv> ''oauth''"

record OAuthClient =
  cli_ID :: string
  cli_IdentityType :: string
  cli_Enabled :: bool

record OAuthApprovalProfile =
  opf_ID :: string
  opf_AutoApproveRisk :: int

record ApprovalPolicy =
  apo_ID :: string
  apo_PrincipalID :: string
  apo_Capability :: string
  apo_Mode :: ApprovalMode

record APIPrincipal =
  apr_ID :: string
  apr_Type :: string
  apr_Enabled :: bool
  apr_Scopes :: "string list"
  apr_ResourceFilter :: string
  apr_ExpiresAt :: "time option"
  apr_LastUsedAt :: "time option"
  apr_UpdatedAt :: time

record OAuthGrant =
  og_ID :: string
  og_ClientID :: string
  og_UserID :: int
  og_PrincipalID :: string
  og_AccessLevel :: string
  og_ResourceBoundaryJSON :: string
  og_ApprovalProfileID :: string
  og_OfflineAccess :: bool
  og_PolicyVersion :: int
  og_RoleVersion :: int
  og_ConsentVersion :: int
  og_Status :: OAuthGrantStatus
  og_ResourceKey :: string
  og_CreatedAt :: time
  og_LastAuthorizedAt :: "time option"
  og_ExpiresAt :: "time option"
  og_LastUsedAt :: "time option"
  og_RevokedAt :: "time option"
  og_RevokeReason :: string

record OAuthAuthorizationCode =
  oc_CodeHash :: string
  oc_GrantID :: string
  oc_ClientID :: string
  oc_UserID :: int
  oc_PrincipalID :: string
  oc_RedirectURI :: string
  oc_Resource :: string
  oc_CodeChallenge :: string
  oc_Scopes :: "string list"
  oc_ExpiresAt :: time
  oc_CreatedAt :: time

record OAuthToken =
  ot_TokenHash :: string
  ot_FamilyID :: string
  ot_GrantID :: string
  ot_ParentTokenHash :: string
  ot_PrincipalID :: string
  ot_ClientID :: string
  ot_UserID :: int
  ot_Resource :: string
  ot_ExpiresAt :: time
  ot_ConsumedAt :: "time option"
  ot_RevokedAt :: "time option"
  ot_ReuseDetectedAt :: "time option"
  ot_CreatedAt :: time

record MCPPrivilegedGrant =
  mp_ID :: int
  mp_OAuthGrantID :: string
  mp_Capabilities :: "string list"
  mp_ResourceBoundaryJSON :: string
  mp_ExpiresAt :: "time option"
  mp_RevokedAt :: "time option"
  mp_UpdatedAt :: time
  mp_Revision :: int

text \<open>
  A user is the role and the status; a group the role and whether it is enabled; a membership whether it is enabled.
  Privileged grants keep the columns below; their user is the user of the grant. Of the prepared plans, continuations and external
  actions the grant and the time of consumption are kept.
\<close>

record oauth_db =
  od_users :: "(int, Role \<times> string) gomap"
  od_groups :: "(int, Role \<times> bool) gomap"
  od_members :: "(int \<times> int, bool) gomap"
  od_clients :: "(string, OAuthClient) gomap"
  od_principals :: "(string, APIPrincipal) gomap"
  od_profiles :: "(string, OAuthApprovalProfile) gomap"
  od_policies :: "(string, ApprovalPolicy) gomap"
  od_grants :: "(string, OAuthGrant) gomap"
  od_codes :: "(string, OAuthAuthorizationCode) gomap"
  od_access :: "(string, OAuthToken) gomap"
  od_refresh :: "(string, OAuthToken) gomap"
  od_privileged :: "(string, MCPPrivilegedGrant) gomap"
  od_prepared :: "(string, string \<times> time option) gomap"
  od_continuations :: "(string, string) gomap"
  od_external :: "(string, string \<times> time option) gomap"

abbreviation sql_ErrNoRows :: string where "sql_ErrNoRows \<equiv> ''sql: no rows in result set''"
abbreviation sql_constraint :: string where "sql_constraint \<equiv> ''constraint failed''"
abbreviation ErrOAuthRefreshReuse :: string where "ErrOAuthRefreshReuse \<equiv> ''oauth refresh token reuse detected''"
abbreviation ErrOAuthRefreshReplay :: string where "ErrOAuthRefreshReplay \<equiv> ''oauth refresh token replayed inside grace window''"

abbreviation has_row :: "'k \<Rightarrow> ('k, 'r) gomap \<Rightarrow> bool" where
  "has_row k rows \<equiv> k \<in> fst ` set rows"

section \<open>Writing rows\<close>

text \<open>The partial unique index on live grants.\<close>

definition live_grant :: "OAuthGrant \<Rightarrow> bool" where
  "live_grant g \<longleftrightarrow> og_RevokedAt g = None \<and> og_Status g \<in> {OAuthGrantActive, OAuthGrantNeedsReconsent}"

definition grant_key :: "OAuthGrant \<Rightarrow> string \<times> int \<times> string" where
  "grant_key g = (og_ClientID g, og_UserID g, og_ResourceKey g)"

definition unique_live :: "(string, OAuthGrant) gomap \<Rightarrow> bool" where
  "unique_live grants \<longleftrightarrow> distinct (map grant_key (filter live_grant (map snd grants)))"

definition write_grants :: "(string, OAuthGrant) gomap \<Rightarrow> oauth_db \<Rightarrow> oauth_db result" where
  "write_grants grants db = (if unique_live grants then Inr (db\<lparr>od_grants := grants\<rparr>) else Inl sql_constraint)"

definition insert_grant :: "OAuthGrant \<Rightarrow> oauth_db \<Rightarrow> oauth_db result" where
  "insert_grant g db =
     (if has_row (og_ID g) (od_grants db) \<or> list_ex (\<lambda>(_, h). og_PrincipalID h = og_PrincipalID g) (od_grants db) \<or>
         \<not> has_row (og_ClientID g) (od_clients db) \<or> \<not> has_row (og_UserID g) (od_users db) \<or>
         \<not> has_row (og_PrincipalID g) (od_principals db) \<or> \<not> has_row (og_ApprovalProfileID g) (od_profiles db)
      then Inl sql_constraint
      else write_grants (od_grants db @ [(og_ID g, g)]) db)"

definition insert_code :: "OAuthAuthorizationCode \<Rightarrow> oauth_db \<Rightarrow> oauth_db result" where
  "insert_code c db =
     (if has_row (oc_CodeHash c) (od_codes db) \<or> \<not> has_row (oc_GrantID c) (od_grants db) \<or> \<not> has_row (oc_ClientID c) (od_clients db) \<or>
         \<not> has_row (oc_UserID c) (od_users db) \<or> \<not> has_row (oc_PrincipalID c) (od_principals db)
      then Inl sql_constraint
      else Inr (db\<lparr>od_codes := od_codes db @ [(oc_CodeHash c, c)]\<rparr>))"

definition token_refs :: "OAuthToken \<Rightarrow> oauth_db \<Rightarrow> bool" where
  "token_refs t db \<longleftrightarrow> has_row (ot_GrantID t) (od_grants db) \<and> has_row (ot_PrincipalID t) (od_principals db) \<and>
     has_row (ot_ClientID t) (od_clients db) \<and> has_row (ot_UserID t) (od_users db)"

definition insert_access :: "OAuthToken \<Rightarrow> oauth_db \<Rightarrow> oauth_db result" where
  "insert_access t db =
     (if has_row (ot_TokenHash t) (od_access db) \<or> \<not> token_refs t db then Inl sql_constraint
      else Inr (db\<lparr>od_access := od_access db @ [(ot_TokenHash t, t)]\<rparr>))"

definition insert_refresh :: "OAuthToken \<Rightarrow> oauth_db \<Rightarrow> oauth_db result" where
  "insert_refresh t db =
     (if has_row (ot_TokenHash t) (od_refresh db) \<or> \<not> token_refs t db then Inl sql_constraint
      else Inr (db\<lparr>od_refresh := od_refresh db @ [(ot_TokenHash t, t)]\<rparr>))"

text \<open>Deleting rows takes along the rows that refer to them.\<close>

definition keep_grants :: "(OAuthGrant \<Rightarrow> bool) \<Rightarrow> oauth_db \<Rightarrow> oauth_db" where
  "keep_grants P db =
     (let grants = filter (\<lambda>(k, g). P g) (od_grants db)
      in db\<lparr>od_grants := grants,
            od_codes := filter (\<lambda>(k, c). has_row (oc_GrantID c) grants) (od_codes db),
            od_access := filter (\<lambda>(k, t). has_row (ot_GrantID t) grants) (od_access db),
            od_refresh := filter (\<lambda>(k, t). has_row (ot_GrantID t) grants) (od_refresh db),
            od_privileged := filter (\<lambda>(k, p). has_row (mp_OAuthGrantID p) grants) (od_privileged db)\<rparr>)"

definition drop_clients :: "string \<Rightarrow> oauth_db \<Rightarrow> oauth_db" where
  "drop_clients clientID db =
     (let db = keep_grants (\<lambda>g. og_ClientID g \<noteq> clientID) db
      in db\<lparr>od_clients := filter (\<lambda>(k, c). k \<noteq> clientID) (od_clients db),
            od_codes := filter (\<lambda>(k, c). oc_ClientID c \<noteq> clientID) (od_codes db),
            od_access := filter (\<lambda>(k, t). ot_ClientID t \<noteq> clientID) (od_access db),
            od_refresh := filter (\<lambda>(k, t). ot_ClientID t \<noteq> clientID) (od_refresh db)\<rparr>)"

definition drop_principal :: "string \<Rightarrow> oauth_db \<Rightarrow> oauth_db" where
  "drop_principal principalID db =
     (let db = keep_grants (\<lambda>g. og_PrincipalID g \<noteq> principalID) db
      in db\<lparr>od_principals := filter (\<lambda>(k, p). k \<noteq> principalID) (od_principals db),
            od_policies := filter (\<lambda>(k, p). apo_PrincipalID p \<noteq> principalID) (od_policies db),
            od_codes := filter (\<lambda>(k, c). oc_PrincipalID c \<noteq> principalID) (od_codes db),
            od_access := filter (\<lambda>(k, t). ot_PrincipalID t \<noteq> principalID) (od_access db),
            od_refresh := filter (\<lambda>(k, t). ot_PrincipalID t \<noteq> principalID) (od_refresh db)\<rparr>)"

definition drop_user :: "int \<Rightarrow> oauth_db \<Rightarrow> oauth_db" where
  "drop_user userID db =
     (let db = keep_grants (\<lambda>g. og_UserID g \<noteq> userID) db
      in db\<lparr>od_users := filter (\<lambda>(k, u). k \<noteq> userID) (od_users db),
            od_members := filter (\<lambda>((g, u), e). u \<noteq> userID) (od_members db),
            od_codes := filter (\<lambda>(k, c). oc_UserID c \<noteq> userID) (od_codes db),
            od_access := filter (\<lambda>(k, t). ot_UserID t \<noteq> userID) (od_access db),
            od_refresh := filter (\<lambda>(k, t). ot_UserID t \<noteq> userID) (od_refresh db)\<rparr>)"

section \<open>Clients\<close>

definition CreateOAuthClient :: "OAuthClient \<Rightarrow> oauth_db \<Rightarrow> unit result \<times> oauth_db" where
  "CreateOAuthClient item db =
     (let item = (if cli_IdentityType item = [] then item\<lparr>cli_IdentityType := ''preregistered''\<rparr> else item)
      in if has_row (cli_ID item) (od_clients db) then (Inl sql_constraint, db)
         else (Inr (), db\<lparr>od_clients := od_clients db @ [(cli_ID item, item)]\<rparr>))"

definition GetOAuthClient :: "string \<Rightarrow> oauth_db \<Rightarrow> OAuthClient result" where
  "GetOAuthClient clientID db = (case map_of (od_clients db) clientID of None \<Rightarrow> Inl sql_ErrNoRows | Some c \<Rightarrow> Inr c)"

definition UpdateOAuthClient :: "OAuthClient \<Rightarrow> oauth_db \<Rightarrow> unit result \<times> oauth_db" where
  "UpdateOAuthClient item db =
     (if has_row (cli_ID item) (od_clients db)
      then (Inr (), db\<lparr>od_clients := sql_update (\<lambda>k c. k = cli_ID item)
             (\<lambda>c. c\<lparr>cli_IdentityType := cli_IdentityType item, cli_Enabled := cli_Enabled item\<rparr>) (od_clients db)\<rparr>)
      else (Inl sql_ErrNoRows, db))"

fun drop_profiles :: "string list \<Rightarrow> oauth_db \<Rightarrow> oauth_db result" where
  "drop_profiles [] db = Inr db"
| "drop_profiles (profileID # rest) db =
     (if list_ex (\<lambda>(_, g). og_ApprovalProfileID g = profileID) (od_grants db) then Inl sql_constraint
      else drop_profiles rest (db\<lparr>od_profiles := filter (\<lambda>(k, p). k \<noteq> profileID) (od_profiles db)\<rparr>))"

definition drop_oauth_principal :: "string \<Rightarrow> oauth_db \<Rightarrow> oauth_db" where
  "drop_oauth_principal principalID db =
     (case map_of (od_principals db) principalID of
        Some p \<Rightarrow> if apr_Type p = APIPrincipalOAuth then drop_principal principalID db else db
      | None \<Rightarrow> db)"

definition DeleteOAuthClient :: "string \<Rightarrow> oauth_db \<Rightarrow> unit result \<times> oauth_db" where
  "DeleteOAuthClient clientID db =
     (let grants = filter (\<lambda>g. og_ClientID g = clientID) (map snd (od_grants db))
      in if \<not> has_row clientID (od_clients db) then (Inl sql_ErrNoRows, db)
         else (case drop_profiles (map og_ApprovalProfileID grants) (fold drop_oauth_principal (map og_PrincipalID grants) (drop_clients clientID db)) of
                 Inl e \<Rightarrow> (Inl e, db)
               | Inr db' \<Rightarrow> (Inr (), db')))"

section \<open>Grants\<close>

definition normalizedJSONObject :: "string \<Rightarrow> string" where
  "normalizedJSONObject raw = (if raw = [] \<or> raw = ''null'' then ''{}'' else raw)"

definition stored_boundary :: "string \<Rightarrow> string" where
  "stored_boundary raw =
     (let boundary = normalizedJSONObject raw
      in if boundary = [] \<or> boundary = ''{}'' then ''{'' @ [CHR 0x22] @ ''version'' @ [CHR 0x22] @ '':1}'' else boundary)"

fun insert_policies :: "string \<Rightarrow> ApprovalPolicy list \<Rightarrow> oauth_db \<Rightarrow> oauth_db result" where
  "insert_policies principalID [] db = Inr db"
| "insert_policies principalID (policy # rest) db =
     (if has_row (apo_ID policy) (od_policies db) \<or>
         list_ex (\<lambda>(_, p). apo_PrincipalID p = principalID \<and> apo_Capability p = apo_Capability policy) (od_policies db)
      then Inl sql_constraint
      else insert_policies principalID rest (db\<lparr>od_policies := od_policies db @ [(apo_ID policy, policy\<lparr>apo_PrincipalID := principalID\<rparr>)]\<rparr>))"

text \<open>The defaults of a new grant, its row, and the rows of its principal and approval profile.\<close>

definition grant_item :: "OAuthGrant \<Rightarrow> APIPrincipal \<Rightarrow> OAuthApprovalProfile \<Rightarrow> time \<Rightarrow> OAuthGrant" where
  "grant_item grant princ profile ts =
     grant\<lparr>og_PrincipalID := apr_ID princ, og_ApprovalProfileID := opf_ID profile, og_CreatedAt := ts,
       og_ResourceKey := (if og_ResourceKey grant = [] then OAuthResourceKeyMCP else og_ResourceKey grant),
       og_AccessLevel := (if og_AccessLevel grant = [] then ''read'' else og_AccessLevel grant),
       og_PolicyVersion := (if og_PolicyVersion grant = 0 then 1 else og_PolicyVersion grant),
       og_RoleVersion := (if og_RoleVersion grant = 0 then 1 else og_RoleVersion grant),
       og_ConsentVersion := (if og_ConsentVersion grant = 0 then 1 else og_ConsentVersion grant)\<rparr>"

definition grant_row :: "OAuthGrant \<Rightarrow> time \<Rightarrow> OAuthGrant" where
  "grant_row item ts =
     item\<lparr>og_Status := (if og_Status item = [] then OAuthGrantActive else og_Status item),
       og_ResourceBoundaryJSON := stored_boundary (og_ResourceBoundaryJSON item),
       og_LastAuthorizedAt := Some ts, og_LastUsedAt := None\<rparr>"

definition with_owner :: "APIPrincipal \<Rightarrow> OAuthApprovalProfile \<Rightarrow> time \<Rightarrow> oauth_db \<Rightarrow> oauth_db" where
  "with_owner princ profile ts db =
     db\<lparr>od_principals := od_principals db @
          [(apr_ID princ, princ\<lparr>apr_ResourceFilter := normalizedJSONObject (apr_ResourceFilter princ), apr_UpdatedAt := ts\<rparr>)],
        od_profiles := od_profiles db @ [(opf_ID profile, profile)]\<rparr>"

definition insertOAuthGrantV2Tx :: "OAuthGrant \<Rightarrow> APIPrincipal \<Rightarrow> OAuthApprovalProfile \<Rightarrow> ApprovalPolicy list \<Rightarrow> time \<Rightarrow> oauth_db \<Rightarrow>
    (OAuthGrant \<times> oauth_db) result" where
  "insertOAuthGrantV2Tx grant princ profile policies ts db =
     (if has_row (apr_ID princ) (od_principals db) then Inl sql_constraint
      else if has_row (opf_ID profile) (od_profiles db) \<or> opf_AutoApproveRisk profile < 0 \<or> opf_AutoApproveRisk profile > 3 then Inl sql_constraint
      else
        (case insert_grant (grant_row (grant_item grant princ profile ts) ts) (with_owner princ profile ts db) of
           Inl e \<Rightarrow> Inl e
         | Inr db \<Rightarrow>
             (case insert_policies (apr_ID princ) policies db of Inl e \<Rightarrow> Inl e | Inr db \<Rightarrow> Inr (grant_item grant princ profile ts, db))))"

definition CreateOAuthGrantV2 :: "OAuthGrant \<Rightarrow> APIPrincipal \<Rightarrow> OAuthApprovalProfile \<Rightarrow> ApprovalPolicy list \<Rightarrow> time \<Rightarrow> oauth_db \<Rightarrow>
    unit result \<times> oauth_db" where
  "CreateOAuthGrantV2 grant princ profile policies ts db =
     (case insertOAuthGrantV2Tx grant princ profile policies ts db of Inl e \<Rightarrow> (Inl e, db) | Inr (_, db') \<Rightarrow> (Inr (), db'))"

text \<open>The select joins the client, the user and the approval profile of a grant.\<close>

definition joined_grant :: "oauth_db \<Rightarrow> OAuthGrant \<Rightarrow> bool" where
  "joined_grant db g \<longleftrightarrow> has_row (og_ClientID g) (od_clients db) \<and> has_row (og_UserID g) (od_users db) \<and> has_row (og_ApprovalProfileID g) (od_profiles db)"

definition GetOAuthGrant :: "string \<Rightarrow> oauth_db \<Rightarrow> OAuthGrant result" where
  "GetOAuthGrant grantID db =
     (case map_of (od_grants db) grantID of
        None \<Rightarrow> Inl sql_ErrNoRows
      | Some g \<Rightarrow> if joined_grant db g
                   then Inr (if og_ResourceKey g = [] then g\<lparr>og_ResourceKey := OAuthResourceKeyMCP\<rparr> else g)
                   else Inl sql_ErrNoRows)"

definition live_for :: "string \<Rightarrow> int \<Rightarrow> string \<Rightarrow> OAuthGrant \<Rightarrow> bool" where
  "live_for clientID userID resourceKey g \<longleftrightarrow>
     og_ClientID g = clientID \<and> og_UserID g = userID \<and> og_ResourceKey g = resourceKey \<and> live_grant g"

text \<open>Rows with equal keys would be ordered by creation, newest first; the index leaves at most one.\<close>

definition findLiveOAuthGrantTx :: "string \<Rightarrow> int \<Rightarrow> string \<Rightarrow> oauth_db \<Rightarrow> OAuthGrant option" where
  "findLiveOAuthGrantTx clientID userID resourceKey db =
     (let resourceKey = (if resourceKey = [] then OAuthResourceKeyMCP else resourceKey)
      in case sort_key (\<lambda>g. - og_CreatedAt g)
                (filter (\<lambda>g. live_for clientID userID resourceKey g \<and> joined_grant db g) (map snd (od_grants db))) of
           [] \<Rightarrow> None
         | g # _ \<Rightarrow> Some g)"

section \<open>Authorization\<close>

record OAuthAuthorizeRequest =
  ar_ClientID :: string
  ar_UserID :: int
  ar_ResourceKey :: string
  ar_RequestOffline :: bool
  ar_AccessLevel :: string
  ar_BoundaryJSON :: string
  ar_PrincipalResourceFilter :: string
  ar_NewGrant :: OAuthGrant
  ar_NewPrincipal :: APIPrincipal
  ar_NewProfile :: OAuthApprovalProfile
  ar_NewPolicies :: "ApprovalPolicy list"
  ar_Code :: OAuthAuthorizationCode

text \<open>The two branches of the transaction: a live grant is brought up to date, otherwise the new one is inserted.\<close>

definition reuse_grant :: "OAuthAuthorizeRequest \<Rightarrow> time \<Rightarrow> OAuthGrant \<Rightarrow> oauth_db \<Rightarrow> (OAuthGrant \<times> oauth_db) result" where
  "reuse_grant req ts live db =
     (if \<not> has_row (og_PrincipalID live) (od_principals db) then Inl sql_ErrNoRows
      else
        (let offline = (og_OfflineAccess live \<or> ar_RequestOffline req);
             status = (if og_Status live = OAuthGrantNeedsReconsent then OAuthGrantActive else og_Status live);
             scopes = NormalizedScopes (ParseAccessLevel (ar_AccessLevel req)) offline;
             upd = (\<lambda>g. g\<lparr>og_AccessLevel := ar_AccessLevel req, og_ResourceBoundaryJSON := stored_boundary (ar_BoundaryJSON req),
               og_OfflineAccess := offline, og_Status := status, og_LastAuthorizedAt := Some ts\<rparr>)
         in case write_grants (sql_update (\<lambda>k g. k = og_ID live) upd (od_grants db)) db of
              Inl e \<Rightarrow> Inl e
            | Inr db \<Rightarrow>
                Inr ((upd live)\<lparr>og_ResourceBoundaryJSON := ar_BoundaryJSON req\<rparr>,
                     db\<lparr>od_principals := sql_update (\<lambda>k p. k = og_PrincipalID live)
                       (\<lambda>p. p\<lparr>apr_Enabled := True, apr_Scopes := scopes,
                          apr_ResourceFilter := normalizedJSONObject (ar_PrincipalResourceFilter req), apr_UpdatedAt := ts\<rparr>) (od_principals db)\<rparr>)))"

definition create_grant :: "OAuthAuthorizeRequest \<Rightarrow> time \<Rightarrow> oauth_db \<Rightarrow> (OAuthGrant \<times> oauth_db) result" where
  "create_grant req ts db =
     (case insertOAuthGrantV2Tx (ar_NewGrant req) (ar_NewPrincipal req) (ar_NewProfile req) (ar_NewPolicies req) ts db of
        Inl e \<Rightarrow> Inl e
      | Inr (grant, db) \<Rightarrow>
          (case write_grants (sql_update (\<lambda>k g. k = og_ID grant)
                  (\<lambda>g. g\<lparr>og_LastAuthorizedAt := Some ts, og_ResourceKey := ar_ResourceKey req\<rparr>) (od_grants db)) db of
             Inl e \<Rightarrow> Inl e
           | Inr db \<Rightarrow> Inr (grant\<lparr>og_LastAuthorizedAt := Some ts\<rparr>, db)))"

definition authorizeOAuthClientOnce :: "OAuthAuthorizeRequest \<Rightarrow> time \<Rightarrow> oauth_db \<Rightarrow> (OAuthGrant \<times> OAuthAuthorizationCode) result \<times> oauth_db" where
  "authorizeOAuthClientOnce req ts db =
     (case (case findLiveOAuthGrantTx (ar_ClientID req) (ar_UserID req) (ar_ResourceKey req) db of
              Some live \<Rightarrow> reuse_grant req ts live db
            | None \<Rightarrow> create_grant req ts db) of
        Inl e \<Rightarrow> (Inl e, db)
      | Inr (grant, tx) \<Rightarrow>
          (let code = (ar_Code req)\<lparr>oc_GrantID := og_ID grant, oc_PrincipalID := og_PrincipalID grant, oc_CreatedAt := ts\<rparr>
           in case insert_code code tx of
                Inl e \<Rightarrow> (Inl e, db)
              | Inr tx \<Rightarrow> (Inr (grant, code), tx)))"

definition isOAuthGrantUniqueViolation :: "string \<Rightarrow> bool" where
  "isOAuthGrantUniqueViolation err \<longleftrightarrow> Contains (ToLower err) ''unique'' \<or> Contains (ToLower err) ''constraint''"

text \<open>The second attempt sees what other transactions have committed since the first.\<close>

definition AuthorizeOAuthClient :: "(oauth_db \<Rightarrow> oauth_db) \<Rightarrow> OAuthAuthorizeRequest \<Rightarrow> time \<Rightarrow> time \<Rightarrow> oauth_db \<Rightarrow>
    (OAuthGrant \<times> OAuthAuthorizationCode) result \<times> oauth_db" where
  "AuthorizeOAuthClient others req ts ts' db =
     (let req = (if ar_ResourceKey req = [] then req\<lparr>ar_ResourceKey := OAuthResourceKeyMCP\<rparr> else req)
      in case authorizeOAuthClientOnce req ts db of
           (Inr r, db') \<Rightarrow> (Inr r, db')
         | (Inl e, _) \<Rightarrow> if \<not> isOAuthGrantUniqueViolation e then (Inl e, db) else authorizeOAuthClientOnce req ts' (others db))"

section \<open>Revocation\<close>

definition revoke_access :: "(OAuthToken \<Rightarrow> bool) \<Rightarrow> time \<Rightarrow> oauth_db \<Rightarrow> oauth_db" where
  "revoke_access P ts db =
     db\<lparr>od_access := sql_update (\<lambda>k t. P t \<and> ot_RevokedAt t = None) (\<lambda>t. t\<lparr>ot_RevokedAt := Some ts\<rparr>) (od_access db)\<rparr>"

definition revoke_refresh :: "(OAuthToken \<Rightarrow> bool) \<Rightarrow> time \<Rightarrow> oauth_db \<Rightarrow> oauth_db" where
  "revoke_refresh P ts db =
     db\<lparr>od_refresh := sql_update (\<lambda>k t. P t \<and> ot_RevokedAt t = None) (\<lambda>t. t\<lparr>ot_RevokedAt := Some ts\<rparr>) (od_refresh db)\<rparr>"

definition invalidateOAuthGrantConsumablesTx :: "time \<Rightarrow> string \<Rightarrow> oauth_db \<Rightarrow> oauth_db" where
  "invalidateOAuthGrantConsumablesTx ts grantID db =
     db\<lparr>od_codes := filter (\<lambda>(k, c). oc_GrantID c \<noteq> grantID) (od_codes db),
        od_prepared := filter (\<lambda>(k, (g, consumed)). \<not> (g = grantID \<and> consumed = None)) (od_prepared db),
        od_continuations := filter (\<lambda>(k, g). g \<noteq> grantID) (od_continuations db),
        od_external := sql_update (\<lambda>k (g, consumed). g = grantID \<and> consumed = None) (\<lambda>(g, _). (g, Some ts)) (od_external db)\<rparr>"

text \<open>What both revocations do after the grant row itself is marked.\<close>

definition disable_grant :: "time \<Rightarrow> string \<Rightarrow> string \<Rightarrow> oauth_db \<Rightarrow> oauth_db" where
  "disable_grant ts grantID principalID db =
     (let db = db\<lparr>od_principals := sql_update (\<lambda>k p. k = principalID) (\<lambda>p. p\<lparr>apr_Enabled := False, apr_UpdatedAt := ts\<rparr>) (od_principals db)\<rparr>;
          db = revoke_access (\<lambda>t. ot_GrantID t = grantID) ts db;
          db = revoke_refresh (\<lambda>t. ot_GrantID t = grantID) ts db;
          db = db\<lparr>od_privileged := sql_update (\<lambda>k p. mp_OAuthGrantID p = grantID \<and> mp_RevokedAt p = None)
            (\<lambda>p. p\<lparr>mp_RevokedAt := Some ts, mp_UpdatedAt := ts\<rparr>) (od_privileged db)\<rparr>
      in invalidateOAuthGrantConsumablesTx ts grantID db)"

definition RevokeOAuthGrantReason :: "string \<Rightarrow> time \<Rightarrow> string \<Rightarrow> oauth_db \<Rightarrow> unit result \<times> oauth_db" where
  "RevokeOAuthGrantReason grantID ts reason db =
     (case map_of (od_grants db) grantID of
        None \<Rightarrow> (Inl sql_ErrNoRows, db)
      | Some g \<Rightarrow>
          if og_RevokedAt g \<noteq> None then (Inl sql_ErrNoRows, db)
          else (Inr (), disable_grant ts grantID (og_PrincipalID g)
                  (db\<lparr>od_grants := sql_update (\<lambda>k g. k = grantID \<and> og_RevokedAt g = None)
                    (\<lambda>g. g\<lparr>og_Status := OAuthGrantRevoked, og_RevokedAt := Some ts, og_RevokeReason := reason\<rparr>) (od_grants db)\<rparr>)))"

definition live_authorizations :: "string \<Rightarrow> oauth_db \<Rightarrow> string list result" where
  "live_authorizations grantID db =
     (case GetOAuthGrant grantID db of
        Inl e \<Rightarrow> Inl e
      | Inr grant \<Rightarrow>
          Inr (map fst (filter (\<lambda>(k, g). live_for (og_ClientID grant) (og_UserID grant) (og_ResourceKey grant) g) (od_grants db))))"

fun revoke_authorizations :: "string list \<Rightarrow> time \<Rightarrow> oauth_db \<Rightarrow> oauth_db result" where
  "revoke_authorizations [] ts db = Inr db"
| "revoke_authorizations (grantID # rest) ts db =
     (case map_of (od_grants db) grantID of
        None \<Rightarrow> Inl sql_ErrNoRows
      | Some g \<Rightarrow>
          if og_RevokedAt g \<noteq> None then revoke_authorizations rest ts db
          else revoke_authorizations rest ts (disable_grant ts grantID (og_PrincipalID g)
                 (db\<lparr>od_grants := sql_update (\<lambda>k g. k = grantID \<and> og_RevokedAt g = None)
                   (\<lambda>g. g\<lparr>og_Status := OAuthGrantRevoked, og_RevokedAt := Some ts,
                      og_RevokeReason := (if og_RevokeReason g = [] then ''authorization_revoked'' else og_RevokeReason g)\<rparr>) (od_grants db)\<rparr>)))"

text \<open>The live grants are read before the transaction starts, so others may commit in between.\<close>

definition RevokeOAuthAuthorization :: "(oauth_db \<Rightarrow> oauth_db) \<Rightarrow> string \<Rightarrow> time \<Rightarrow> oauth_db \<Rightarrow> unit result \<times> oauth_db" where
  "RevokeOAuthAuthorization others grantID ts db =
     (case live_authorizations grantID db of
        Inl e \<Rightarrow> (Inl e, db)
      | Inr ids \<Rightarrow>
          if ids = [] then (Inl sql_ErrNoRows, db)
          else (case revoke_authorizations ids ts (others db) of Inl e \<Rightarrow> (Inl e, others db) | Inr db' \<Rightarrow> (Inr (), db')))"

definition RevokeOAuthOfflineAccess :: "string \<Rightarrow> time \<Rightarrow> oauth_db \<Rightarrow> unit result \<times> oauth_db" where
  "RevokeOAuthOfflineAccess grantID ts db =
     (case map_of (od_grants db) grantID of
        None \<Rightarrow> (Inl sql_ErrNoRows, db)
      | Some g \<Rightarrow>
          if \<not> live_grant g then (Inl sql_ErrNoRows, db)
          else (Inr (), revoke_refresh (\<lambda>t. ot_GrantID t = grantID) ts
                  (db\<lparr>od_grants := sql_update (\<lambda>k g. k = grantID \<and> live_grant g) (\<lambda>g. g\<lparr>og_OfflineAccess := False\<rparr>) (od_grants db)\<rparr>)))"

definition MarkOAuthGrantNeedsReconsent :: "string \<Rightarrow> time \<Rightarrow> string \<Rightarrow> oauth_db \<Rightarrow> oauth_db" where
  "MarkOAuthGrantNeedsReconsent grantID ts reason db =
     (let hit = (\<lambda>k g. k = grantID \<and> og_Status g = OAuthGrantActive)
      in if sql_affected hit (od_grants db) = 0 then db
         else
           (let db = db\<lparr>od_grants := sql_update hit (\<lambda>g. g\<lparr>og_Status := OAuthGrantNeedsReconsent, og_RevokeReason := reason\<rparr>) (od_grants db)\<rparr>;
                db = revoke_access (\<lambda>t. ot_GrantID t = grantID) ts db;
                db = revoke_refresh (\<lambda>t. ot_GrantID t = grantID) ts db
            in db\<lparr>od_codes := filter (\<lambda>(k, c). oc_GrantID c \<noteq> grantID) (od_codes db)\<rparr>))"

section \<open>Codes and tokens\<close>

definition CreateOAuthAuthorizationCode :: "OAuthAuthorizationCode \<Rightarrow> time \<Rightarrow> oauth_db \<Rightarrow> unit result \<times> oauth_db" where
  "CreateOAuthAuthorizationCode item ts db =
     (case insert_code (item\<lparr>oc_CreatedAt := ts\<rparr>) db of Inl e \<Rightarrow> (Inl e, db) | Inr db' \<Rightarrow> (Inr (), db'))"

definition ConsumeOAuthAuthorizationCode :: "string \<Rightarrow> oauth_db \<Rightarrow> OAuthAuthorizationCode result \<times> oauth_db" where
  "ConsumeOAuthAuthorizationCode codeHash db =
     (case map_of (od_codes db) codeHash of
        None \<Rightarrow> (Inl sql_ErrNoRows, db)
      | Some c \<Rightarrow> (Inr c, db\<lparr>od_codes := filter (\<lambda>(k, _). k \<noteq> codeHash) (od_codes db)\<rparr>))"

definition MigrateOAuthResource :: "string \<Rightarrow> string \<Rightarrow> oauth_db \<Rightarrow> oauth_db" where
  "MigrateOAuthResource from to db =
     (if from = [] \<or> to = [] \<or> from = to then db
      else db\<lparr>od_access := sql_update (\<lambda>k t. ot_Resource t = from) (\<lambda>t. t\<lparr>ot_Resource := to\<rparr>) (od_access db),
              od_refresh := sql_update (\<lambda>k t. ot_Resource t = from) (\<lambda>t. t\<lparr>ot_Resource := to\<rparr>) (od_refresh db),
              od_codes := sql_update (\<lambda>k c. oc_Resource c = from) (\<lambda>c. c\<lparr>oc_Resource := to\<rparr>) (od_codes db)\<rparr>)"

text \<open>New token rows start with the columns that are not written as null.\<close>

definition new_token :: "time \<Rightarrow> OAuthToken \<Rightarrow> OAuthToken" where
  "new_token ts t = t\<lparr>ot_ConsumedAt := None, ot_RevokedAt := None, ot_ReuseDetectedAt := None, ot_CreatedAt := ts\<rparr>"

definition CreateOAuthTokens :: "OAuthToken \<Rightarrow> OAuthToken option \<Rightarrow> time \<Rightarrow> oauth_db \<Rightarrow> unit result \<times> oauth_db" where
  "CreateOAuthTokens access refresh ts db =
     (case insert_access (new_token ts access) db of
        Inl e \<Rightarrow> (Inl e, db)
      | Inr tx \<Rightarrow>
          (case refresh of
             None \<Rightarrow> (Inr (), tx)
           | Some r \<Rightarrow> (case insert_refresh (new_token ts r) tx of Inl e \<Rightarrow> (Inl e, db) | Inr tx \<Rightarrow> (Inr (), tx))))"

definition AuthenticateMCPAccessToken :: "string \<Rightarrow> string \<Rightarrow> time \<Rightarrow> oauth_db \<Rightarrow> (OAuthToken \<times> Role \<times> string) result" where
  "AuthenticateMCPAccessToken tokenHash resource at db =
     (case map_of (od_access db) tokenHash of
        None \<Rightarrow> Inl sql_ErrNoRows
      | Some t \<Rightarrow>
          (case map_of (od_users db) (ot_UserID t) of
             None \<Rightarrow> Inl sql_ErrNoRows
           | Some (role, status) \<Rightarrow>
               if ot_RevokedAt t \<noteq> None \<or> \<not> at < ot_ExpiresAt t \<or> ot_Resource t \<noteq> resource then Inl sql_ErrNoRows
               else Inr (t, role, status)))"

text \<open>The two timestamps of last use are best-effort writes after the decision.\<close>

definition AuthenticateOAuthAccessToken :: "(string \<Rightarrow> string) \<Rightarrow> string \<Rightarrow> time \<Rightarrow> oauth_db \<Rightarrow>
    (APIPrincipal \<times> OAuthToken \<times> OAuthGrant) result \<times> oauth_db" where
  "AuthenticateOAuthAccessToken legacyFilter tokenHash at db =
     (case map_of (od_access db) tokenHash of
        None \<Rightarrow> (Inl sql_ErrNoRows, db)
      | Some t \<Rightarrow>
          (case map_of (od_principals db) (ot_PrincipalID t) of
             None \<Rightarrow> (Inl sql_ErrNoRows, db)
           | Some p \<Rightarrow>
               if \<not> apr_Enabled p \<or> ot_RevokedAt t \<noteq> None \<or> \<not> at < ot_ExpiresAt t \<or> (case apr_ExpiresAt p of None \<Rightarrow> False | Some e \<Rightarrow> \<not> at < e)
               then (Inl sql_ErrNoRows, db)
               else
                 (case GetOAuthGrant (ot_GrantID t) db of
                    Inl e \<Rightarrow> (Inl sql_ErrNoRows, db)
                  | Inr g \<Rightarrow>
                      if og_PrincipalID g \<noteq> apr_ID p \<or> og_ClientID g \<noteq> ot_ClientID t \<or> og_UserID g \<noteq> ot_UserID t \<or> og_RevokedAt g \<noteq> None \<or>
                         og_Status g \<noteq> OAuthGrantActive \<or> (case og_ExpiresAt g of None \<Rightarrow> False | Some e \<Rightarrow> \<not> at < e)
                      then (Inl sql_ErrNoRows, db)
                      else (Inr (p\<lparr>apr_Scopes := NormalizedScopes (ParseAccessLevel (og_AccessLevel g)) (og_OfflineAccess g),
                                   apr_ResourceFilter := legacyFilter (og_ResourceBoundaryJSON g)\<rparr>, t, g\<lparr>og_LastUsedAt := Some at\<rparr>),
                            db\<lparr>od_principals := sql_update (\<lambda>k _. k = apr_ID p) (\<lambda>p. p\<lparr>apr_LastUsedAt := Some at\<rparr>) (od_principals db),
                               od_grants := sql_update (\<lambda>k _. k = og_ID g) (\<lambda>g. g\<lparr>og_LastUsedAt := Some at\<rparr>) (od_grants db)\<rparr>))))"

definition role_rank :: "Role \<Rightarrow> int" where
  "role_rank role = (if role = RoleViewer then 1 else if role = RoleOperator then 2 else if role = RoleAdmin then 3 else 0)"

definition EffectiveUserRole :: "int \<Rightarrow> Role \<Rightarrow> oauth_db \<Rightarrow> Role" where
  "EffectiveUserRole userID role db =
     (let rows = concat (map (\<lambda>((groupID, u), enabled).
            if u = userID \<and> enabled then (case map_of (od_groups db) groupID of Some (r, True) \<Rightarrow> [r] | _ \<Rightarrow> []) else []) (od_members db))
      in fold (\<lambda>candidate role. if role_rank candidate > role_rank role then candidate else role) rows role)"

text \<open>Two queries: the grant with its client, user and profile is read from \<open>db\<close>, the groups of the user from \<open>dbg\<close>.\<close>

definition ResolveActiveGrant :: "string \<Rightarrow> time \<Rightarrow> oauth_db \<Rightarrow> oauth_db \<Rightarrow> (OAuthGrant \<times> OAuthApprovalProfile \<times> Role) result" where
  "ResolveActiveGrant grantID at db dbg =
     (case map_of (od_grants db) grantID of
        None \<Rightarrow> Inl sql_ErrNoRows
      | Some g \<Rightarrow>
          (case (map_of (od_clients db) (og_ClientID g), map_of (od_users db) (og_UserID g), map_of (od_profiles db) (og_ApprovalProfileID g)) of
             (Some c, Some (role, status), Some profile) \<Rightarrow>
               if og_RevokedAt g \<noteq> None \<or> og_Status g \<noteq> OAuthGrantActive \<or> (case og_ExpiresAt g of None \<Rightarrow> False | Some e \<Rightarrow> \<not> at < e) \<or>
                  \<not> cli_Enabled c \<or> status \<noteq> ''active''
               then Inl sql_ErrNoRows
               else Inr (g, profile, EffectiveUserRole (og_UserID g) role dbg)
           | _ \<Rightarrow> Inl sql_ErrNoRows))"

text \<open>
  A refresh token is answered in one of four ways: unknown, revoked or expired; rotated just now; presented again,
  which revokes its family and the access tokens of its grant; or consumed.
\<close>

datatype refresh_outcome = Refused string | Replayed OAuthToken | Reused OAuthToken | Rotated OAuthToken

definition ConsumeOAuthRefreshToken :: "string \<Rightarrow> time \<Rightarrow> duration \<Rightarrow> oauth_db \<Rightarrow> refresh_outcome \<times> oauth_db" where
  "ConsumeOAuthRefreshToken tokenHash at grace db =
     (case map_of (od_refresh db) tokenHash of
        None \<Rightarrow> (Refused sql_ErrNoRows, db)
      | Some item \<Rightarrow>
          (case ot_ConsumedAt item of
             Some consumed \<Rightarrow>
               if grace > 0 \<and> ot_RevokedAt item = None \<and> ot_ReuseDetectedAt item = None \<and> \<not> consumed + grace < at
               then (Replayed item, db)
               else
                 (let db = db\<lparr>od_refresh := sql_update (\<lambda>k t. ot_FamilyID t = ot_FamilyID item)
                        (\<lambda>t. t\<lparr>ot_RevokedAt := (case ot_RevokedAt t of None \<Rightarrow> Some at | Some r \<Rightarrow> Some r),
                           ot_ReuseDetectedAt := (if ot_TokenHash t = tokenHash then Some at else ot_ReuseDetectedAt t)\<rparr>) (od_refresh db)\<rparr>
                  in (Reused item, revoke_access (\<lambda>t. ot_GrantID t = ot_GrantID item) at db))
           | None \<Rightarrow>
               if ot_RevokedAt item \<noteq> None \<or> \<not> at < ot_ExpiresAt item then (Refused sql_ErrNoRows, db)
               else (Rotated item, db\<lparr>od_refresh := sql_update (\<lambda>k t. k = tokenHash \<and> ot_ConsumedAt t = None)
                       (\<lambda>t. t\<lparr>ot_ConsumedAt := Some at\<rparr>) (od_refresh db)\<rparr>)))"

text \<open>Three statements without a transaction; \<open>others\<close> is what commits before the second and before the third.\<close>

definition revoke_access_token :: "string \<Rightarrow> time \<Rightarrow> oauth_db \<Rightarrow> oauth_db" where
  "revoke_access_token tokenHash ts db =
     db\<lparr>od_access := sql_update (\<lambda>k t. k = tokenHash \<and> ot_RevokedAt t = None) (\<lambda>t. t\<lparr>ot_RevokedAt := Some ts\<rparr>) (od_access db)\<rparr>"

definition RevokeOAuthToken :: "string \<Rightarrow> time \<Rightarrow> (nat \<Rightarrow> oauth_db \<Rightarrow> oauth_db) \<Rightarrow> oauth_db \<Rightarrow> unit result \<times> oauth_db" where
  "RevokeOAuthToken tokenHash ts others db =
     (let count = sql_affected (\<lambda>k t. k = tokenHash \<and> ot_RevokedAt t = None) (od_access db);
          db = revoke_access_token tokenHash ts db
      in if count > 0 then (Inr (), db)
         else
           (let db = others 1 db
            in case map_of (od_refresh db) tokenHash of
                 None \<Rightarrow> (Inl sql_ErrNoRows, db)
               | Some t \<Rightarrow> (Inr (), revoke_refresh (\<lambda>u. ot_FamilyID u = ot_FamilyID t) ts (others 2 db))))"

section \<open>Histories\<close>

text \<open>
  Every handler of the controller is a sequence of these transactions and single statements, so the steps in any order are every
  interleaving of handlers, the administration of users and clients included. The identifiers of grants and the hashes of codes and
  tokens that a history creates are random; \<open>H\<close> holds them, so that a theorem about an older identifier
  says that it is not drawn again.
\<close>

inductive oauth_step :: "string set \<Rightarrow> oauth_db \<Rightarrow> oauth_db \<Rightarrow> bool" for H where
  users: "oauth_step H db (db\<lparr>od_users := AList.update userID u (od_users db)\<rparr>)"
| drop_user: "oauth_step H db (drop_user userID db)"
| groups: "oauth_step H db (db\<lparr>od_groups := groups, od_members := members\<rparr>)"
| privileged: "oauth_step H db (db\<lparr>od_privileged := privileged, od_prepared := prepared, od_continuations := continuations, od_external := external\<rparr>)"
| create_client: "oauth_step H db (snd (CreateOAuthClient item db))"
| update_client: "oauth_step H db (snd (UpdateOAuthClient item db))"
| delete_client: "oauth_step H db (snd (DeleteOAuthClient clientID db))"
| create: "og_ID grant \<in> H \<Longrightarrow> oauth_step H db (snd (CreateOAuthGrantV2 grant princ profile policies ts db))"
| authorize: "og_ID (ar_NewGrant req) \<in> H \<Longrightarrow> oc_CodeHash (ar_Code req) \<in> H \<Longrightarrow> oauth_step H db (snd (authorizeOAuthClientOnce req ts db))"
| revoke_grant: "oauth_step H db (snd (RevokeOAuthGrantReason grantID ts reason db))"
| revoke_authorization: "oauth_step H db (case revoke_authorizations ids ts db of Inl e \<Rightarrow> db | Inr db' \<Rightarrow> db')"
| revoke_offline: "oauth_step H db (snd (RevokeOAuthOfflineAccess grantID ts db))"
| reconsent: "oauth_step H db (MarkOAuthGrantNeedsReconsent grantID ts reason db)"
| create_code: "oc_CodeHash item \<in> H \<Longrightarrow> oauth_step H db (snd (CreateOAuthAuthorizationCode item ts db))"
| consume_code: "oauth_step H db (snd (ConsumeOAuthAuthorizationCode codeHash db))"
| migrate: "oauth_step H db (MigrateOAuthResource from to db)"
| create_tokens: "ot_TokenHash access \<in> H \<Longrightarrow> (case refresh of None \<Rightarrow> True | Some r \<Rightarrow> ot_TokenHash r \<in> H) \<Longrightarrow>
    oauth_step H db (snd (CreateOAuthTokens access refresh ts db))"
| authenticate: "oauth_step H db (snd (AuthenticateOAuthAccessToken legacyFilter tokenHash at db))"
| consume_refresh: "oauth_step H db (snd (ConsumeOAuthRefreshToken tokenHash at grace db))"
| revoke_token: "oauth_step H db (revoke_access_token tokenHash ts db)"
| revoke_family: "oauth_step H db (revoke_refresh (\<lambda>u. ot_FamilyID u = family) ts db)"

definition empty_oauth :: oauth_db where
  "empty_oauth = \<lparr>od_users = [], od_groups = [], od_members = [], od_clients = [], od_principals = [], od_profiles = [], od_policies = [],
     od_grants = [], od_codes = [], od_access = [], od_refresh = [], od_privileged = [], od_prepared = [], od_continuations = [], od_external = []\<rparr>"

subsection \<open>What rows may become\<close>

text \<open>Every row of the later table with an old key comes from a row of the earlier one, related by \<open>R\<close>.\<close>

definition tracks :: "('r \<Rightarrow> 'r \<Rightarrow> bool) \<Rightarrow> 'k set \<Rightarrow> ('k, 'r) gomap \<Rightarrow> ('k, 'r) gomap \<Rightarrow> bool" where
  "tracks R H rows rows' \<longleftrightarrow> (\<forall>k r'. (k, r') \<in> set rows' \<longrightarrow> k \<notin> H \<longrightarrow> (\<exists>r. (k, r) \<in> set rows \<and> R r r'))"

lemma tracks_refl: "(\<And>r. R r r) \<Longrightarrow> tracks R H rows rows"
  by (auto simp: tracks_def)

lemma tracks_trans: "(\<And>a b c. R a b \<Longrightarrow> R b c \<Longrightarrow> R a c) \<Longrightarrow> tracks R H a b \<Longrightarrow> tracks R H b c \<Longrightarrow> tracks R H a c"
  unfolding tracks_def by meson

lemma tracks_filter: "(\<And>r. R r r) \<Longrightarrow> tracks R H rows (filter P rows)"
  by (auto simp: tracks_def)

lemma tracks_filter2: "tracks R H rows rows' \<Longrightarrow> tracks R H rows (filter P rows')"
  by (auto simp: tracks_def)

lemma tracks_update: "(\<And>r. R r r) \<Longrightarrow> (\<And>r. R r (f r)) \<Longrightarrow> tracks R H rows (sql_update P f rows)"
  by (auto simp: tracks_def sql_update_def)

lemma tracks_append: "(\<And>r. R r r) \<Longrightarrow> k \<in> H \<Longrightarrow> tracks R H rows (rows @ [(k, r)])"
  by (auto simp: tracks_def)

text \<open>A revoked grant stays revoked and keeps its owner; so do tokens, and a consumed refresh token stays consumed.\<close>

definition grant_later :: "OAuthGrant \<Rightarrow> OAuthGrant \<Rightarrow> bool" where
  "grant_later g g' \<longleftrightarrow> (og_RevokedAt g \<noteq> None \<longrightarrow> og_RevokedAt g' \<noteq> None)"

definition token_later :: "OAuthToken \<Rightarrow> OAuthToken \<Rightarrow> bool" where
  "token_later t t' \<longleftrightarrow> ot_GrantID t' = ot_GrantID t \<and> ot_FamilyID t' = ot_FamilyID t \<and> ot_ClientID t' = ot_ClientID t \<and> ot_UserID t' = ot_UserID t \<and>
     (ot_RevokedAt t \<noteq> None \<longrightarrow> ot_RevokedAt t' \<noteq> None) \<and> (ot_ConsumedAt t \<noteq> None \<longrightarrow> ot_ConsumedAt t' = ot_ConsumedAt t)"

definition db_later :: "string set \<Rightarrow> oauth_db \<Rightarrow> oauth_db \<Rightarrow> bool" where
  "db_later H db db' \<longleftrightarrow> tracks grant_later H (od_grants db) (od_grants db') \<and> tracks (\<lambda>_ _. True) H (od_codes db) (od_codes db') \<and>
     tracks token_later H (od_access db) (od_access db') \<and> tracks token_later H (od_refresh db) (od_refresh db')"

lemma later_refl [simp]: "grant_later g g" "token_later t t"
  by (simp_all add: grant_later_def token_later_def)

lemma grant_later_trans: "grant_later a b \<Longrightarrow> grant_later b c \<Longrightarrow> grant_later a c"
  by (simp add: grant_later_def)

lemma token_later_trans: "token_later a b \<Longrightarrow> token_later b c \<Longrightarrow> token_later a c"
  by (auto simp: token_later_def)

lemma db_later_refl [simp]: "db_later H db db"
  by (simp add: db_later_def tracks_refl)

lemma db_later_trans: "db_later H a b \<Longrightarrow> db_later H b c \<Longrightarrow> db_later H a c"
  unfolding db_later_def by (blast intro: tracks_trans grant_later_trans token_later_trans)

named_theorems later_intros \<open>the basic statements move rows forward\<close>

lemma later_same [later_intros]:
  "od_grants db' = od_grants db \<Longrightarrow> od_codes db' = od_codes db \<Longrightarrow> od_access db' = od_access db \<Longrightarrow> od_refresh db' = od_refresh db \<Longrightarrow> db_later H db db'"
  by (simp add: db_later_def tracks_refl)

lemma keep_grants_later [later_intros]: "db_later H db (keep_grants P db)"
  by (simp add: db_later_def keep_grants_def Let_def tracks_filter)

lemma drop_clients_later [later_intros]: "db_later H db (drop_clients clientID db)"
  by (simp add: db_later_def drop_clients_def keep_grants_def Let_def tracks_filter tracks_filter2)

lemma drop_principal_later [later_intros]: "db_later H db (drop_principal principalID db)"
  by (simp add: db_later_def drop_principal_def keep_grants_def Let_def tracks_filter tracks_filter2)

lemma drop_user_later [later_intros]: "db_later H db (drop_user userID db)"
  by (simp add: db_later_def drop_user_def keep_grants_def Let_def tracks_filter tracks_filter2)

lemma drop_oauth_principal_later: "db_later H db (drop_oauth_principal principalID db)"
  unfolding drop_oauth_principal_def by (auto split: option.splits intro: drop_principal_later)

lemma fold_later: "(\<And>x db. db_later H db (f x db)) \<Longrightarrow> db_later H db (fold f xs db)"
  by (induction xs arbitrary: db) (auto intro: db_later_trans)

lemma drop_profiles_later: "drop_profiles ids db = Inr db' \<Longrightarrow> db_later H db db'"
proof (induction ids db rule: drop_profiles.induct)
  case (2 profileID rest db)
  then have "db_later H (db\<lparr>od_profiles := filter (\<lambda>(k, p). k \<noteq> profileID) (od_profiles db)\<rparr>) db'" by (auto split: if_splits)
  then show ?case by (rule db_later_trans [rotated]) (simp add: later_intros)
qed simp

lemma DeleteOAuthClient_later: "db_later H db (snd (DeleteOAuthClient clientID db))"
proof -
  have *: "db_later H db (fold drop_oauth_principal ps (drop_clients clientID db))" for ps
    by (rule db_later_trans [OF drop_clients_later fold_later]) (rule drop_oauth_principal_later)
  show ?thesis
    unfolding DeleteOAuthClient_def Let_def
    by (auto split: sum.splits dest: drop_profiles_later [where H = H] intro: db_later_trans [OF *])
qed

lemma write_grants_later:
  "write_grants grants db = Inr db' \<Longrightarrow> tracks grant_later H (od_grants db) grants \<Longrightarrow> db_later H db db'"
  by (auto simp: write_grants_def db_later_def tracks_refl split: if_splits)

lemma insert_grant_later: "insert_grant g db = Inr db' \<Longrightarrow> og_ID g \<in> H \<Longrightarrow> db_later H db db'"
  unfolding insert_grant_def by (simp split: if_splits) (erule write_grants_later, simp add: tracks_append)

lemma insert_policies_later: "insert_policies principalID policies db = Inr db' \<Longrightarrow> db_later H db db'"
proof (induction principalID policies db rule: insert_policies.induct)
  case (2 principalID policy rest db)
  then have "db_later H (db\<lparr>od_policies := od_policies db @ [(apo_ID policy, policy\<lparr>apo_PrincipalID := principalID\<rparr>)]\<rparr>) db'"
    by (auto split: if_splits)
  then show ?case by (rule db_later_trans [rotated]) (simp add: later_intros)
qed simp

lemma insertOAuthGrantV2TxE:
  assumes "insertOAuthGrantV2Tx grant princ profile policies ts db = Inr (g, db')"
  obtains db1 where "insert_grant (grant_row (grant_item grant princ profile ts) ts) (with_owner princ profile ts db) = Inr db1"
    "insert_policies (apr_ID princ) policies db1 = Inr db'" "g = grant_item grant princ profile ts"
    "\<not> has_row (apr_ID princ) (od_principals db)" "\<not> has_row (opf_ID profile) (od_profiles db)"
  using assms by (auto simp: insertOAuthGrantV2Tx_def split: if_splits sum.splits)

lemma grant_item_simps [simp]: "og_ID (grant_item grant princ profile ts) = og_ID grant" "og_PrincipalID (grant_item grant princ profile ts) = apr_ID princ"
  "og_ID (grant_row item ts) = og_ID item"
  by (simp_all add: grant_item_def grant_row_def)

lemma with_owner_later: "db_later H db (with_owner princ profile ts db)"
  by (rule later_same) (simp_all add: with_owner_def)

lemma insertOAuthGrantV2Tx_later:
  assumes "insertOAuthGrantV2Tx grant princ profile policies ts db = Inr (g, db')" "og_ID grant \<in> H"
  shows "db_later H db db'"
  using assms(1)
proof (rule insertOAuthGrantV2TxE)
  fix db1
  assume i: "insert_grant (grant_row (grant_item grant princ profile ts) ts) (with_owner princ profile ts db) = Inr db1"
    and p: "insert_policies (apr_ID princ) policies db1 = Inr db'"
  have "db_later H (with_owner princ profile ts db) db1" using i by (rule insert_grant_later) (simp add: assms(2))
  then show ?thesis by (rule db_later_trans [OF with_owner_later db_later_trans]) (rule insert_policies_later [OF p])
qed

lemma create_grant_later:
  assumes "create_grant req ts db = Inr (g, db')" "og_ID (ar_NewGrant req) \<in> H"
  shows "db_later H db db'"
proof -
  obtain g1 db1 where i: "insertOAuthGrantV2Tx (ar_NewGrant req) (ar_NewPrincipal req) (ar_NewProfile req) (ar_NewPolicies req) ts db = Inr (g1, db1)"
    and w: "write_grants (sql_update (\<lambda>k g. k = og_ID g1) (\<lambda>g. g\<lparr>og_LastAuthorizedAt := Some ts, og_ResourceKey := ar_ResourceKey req\<rparr>) (od_grants db1)) db1 = Inr db'"
    using assms(1) by (auto simp: create_grant_def split: sum.splits)
  have "db_later H db1 db'" using w by (rule write_grants_later) (rule tracks_update, simp_all add: grant_later_def)
  with insertOAuthGrantV2Tx_later [OF i assms(2)] show ?thesis by (rule db_later_trans)
qed

lemma reuse_grant_later:
  assumes "reuse_grant req ts live db = Inr (g, db')"
  shows "db_later H db db'"
proof -
  obtain upd db1 where w: "write_grants (sql_update (\<lambda>k g. k = og_ID live) upd (od_grants db)) db = Inr db1" "\<And>g. grant_later g (upd g)"
    and r: "od_grants db' = od_grants db1" "od_codes db' = od_codes db1" "od_access db' = od_access db1" "od_refresh db' = od_refresh db1"
    using assms by (fastforce simp: reuse_grant_def Let_def grant_later_def split: if_splits sum.splits)
  have "db_later H db db1" using w(1) by (rule write_grants_later) (rule tracks_update, simp_all add: w(2))
  then show ?thesis by (rule db_later_trans) (rule later_same [OF r])
qed

lemma insert_code_later: "insert_code c db = Inr db' \<Longrightarrow> oc_CodeHash c \<in> H \<Longrightarrow> db_later H db db'"
  unfolding insert_code_def by (simp split: if_splits) (clarify, simp add: db_later_def tracks_refl tracks_append)

lemma authorizeOAuthClientOnce_later:
  assumes "og_ID (ar_NewGrant req) \<in> H" "oc_CodeHash (ar_Code req) \<in> H"
  shows "db_later H db (snd (authorizeOAuthClientOnce req ts db))"
proof (cases "case findLiveOAuthGrantTx (ar_ClientID req) (ar_UserID req) (ar_ResourceKey req) db of
    Some live \<Rightarrow> reuse_grant req ts live db | None \<Rightarrow> create_grant req ts db")
  case (Inr r)
  obtain g tx where r: "r = (g, tx)" by (cases r)
  have l: "db_later H db tx" using Inr r assms(1) by (auto split: option.splits intro: reuse_grant_later create_grant_later)
  have "insert_code c tx = Inr tx' \<Longrightarrow> oc_CodeHash c = oc_CodeHash (ar_Code req) \<Longrightarrow> db_later H db tx'" for c tx'
    using insert_code_later [of c tx tx' H] assms(2) l by (auto intro: db_later_trans)
  then show ?thesis unfolding authorizeOAuthClientOnce_def Inr r by (auto simp: Let_def split: sum.splits)
qed (simp add: authorizeOAuthClientOnce_def)

lemma revoke_access_later [later_intros]: "db_later H db (revoke_access P ts db)"
  by (simp add: db_later_def revoke_access_def tracks_refl tracks_update token_later_def)

lemma revoke_refresh_later [later_intros]: "db_later H db (revoke_refresh P ts db)"
  by (simp add: db_later_def revoke_refresh_def tracks_refl tracks_update token_later_def)

lemma invalidate_later [later_intros]: "db_later H db (invalidateOAuthGrantConsumablesTx ts grantID db)"
  by (simp add: db_later_def invalidateOAuthGrantConsumablesTx_def tracks_refl tracks_filter)

lemma disable_grant_later: "db_later H db (disable_grant ts grantID principalID db)"
  unfolding disable_grant_def Let_def
  by (rule db_later_trans [OF _ invalidate_later], rule db_later_trans [OF _ later_same], rule db_later_trans [OF _ revoke_refresh_later],
      rule db_later_trans [OF _ revoke_access_later], rule later_same) simp_all

lemma update_grants_later: "(\<And>g. grant_later g (f g)) \<Longrightarrow> db_later H db (db\<lparr>od_grants := sql_update P f (od_grants db)\<rparr>)"
  by (simp add: db_later_def tracks_refl tracks_update)

lemma RevokeOAuthGrantReason_later: "db_later H db (snd (RevokeOAuthGrantReason grantID ts reason db))"
  unfolding RevokeOAuthGrantReason_def
  by (auto split: option.splits intro!: db_later_trans [OF update_grants_later disable_grant_later] simp: grant_later_def)

lemma revoke_authorizations_later: "revoke_authorizations ids ts db = Inr db' \<Longrightarrow> db_later H db db'"
proof (induction ids ts db rule: revoke_authorizations.induct)
  case (2 grantID rest ts db)
  then obtain g where g: "map_of (od_grants db) grantID = Some g" by (auto split: option.splits)
  show ?case
  proof (cases "og_RevokedAt g = None")
    case True
    note IH = "2.IH"(2) [OF g, simplified True, simplified]
    show ?thesis
      by (rule db_later_trans [OF db_later_trans [OF update_grants_later disable_grant_later] IH])
        (use "2.prems" g True in \<open>simp_all add: grant_later_def\<close>)
  next
    case False
    with "2.prems" g show ?thesis by (intro "2.IH"(1) [OF g]) simp_all
  qed
qed simp

lemma RevokeOAuthOfflineAccess_later: "db_later H db (snd (RevokeOAuthOfflineAccess grantID ts db))"
  unfolding RevokeOAuthOfflineAccess_def
  by (auto split: option.splits intro!: db_later_trans [OF update_grants_later revoke_refresh_later] simp: grant_later_def)

lemma MarkOAuthGrantNeedsReconsent_later: "db_later H db (MarkOAuthGrantNeedsReconsent grantID ts reason db)"
proof -
  have codes: "db_later H db (db\<lparr>od_codes := filter P (od_codes db)\<rparr>)" for db P by (simp add: db_later_def tracks_refl tracks_filter)
  show ?thesis
    unfolding MarkOAuthGrantNeedsReconsent_def Let_def
    by (simp, intro impI, rule db_later_trans [OF _ codes], rule db_later_trans [OF _ revoke_refresh_later],
        rule db_later_trans [OF _ revoke_access_later], rule update_grants_later) (simp add: grant_later_def)
qed

lemma ConsumeOAuthAuthorizationCode_later: "db_later H db (snd (ConsumeOAuthAuthorizationCode codeHash db))"
  by (auto simp: ConsumeOAuthAuthorizationCode_def db_later_def split: option.splits intro: tracks_refl tracks_filter)

lemma MigrateOAuthResource_later: "db_later H db (MigrateOAuthResource from to db)"
  by (simp add: MigrateOAuthResource_def db_later_def tracks_refl tracks_update token_later_def)

lemma insert_access_later: "insert_access t db = Inr db' \<Longrightarrow> ot_TokenHash t \<in> H \<Longrightarrow> db_later H db db'"
  unfolding insert_access_def by (simp split: if_splits) (clarify, simp add: db_later_def tracks_refl tracks_append)

lemma insert_refresh_later: "insert_refresh t db = Inr db' \<Longrightarrow> ot_TokenHash t \<in> H \<Longrightarrow> db_later H db db'"
  unfolding insert_refresh_def by (simp split: if_splits) (clarify, simp add: db_later_def tracks_refl tracks_append)

lemma new_token_hash [simp]: "ot_TokenHash (new_token ts t) = ot_TokenHash t"
  by (simp add: new_token_def)

lemma CreateOAuthTokens_later:
  assumes "ot_TokenHash access \<in> H" "case refresh of None \<Rightarrow> True | Some r \<Rightarrow> ot_TokenHash r \<in> H"
  shows "db_later H db (snd (CreateOAuthTokens access refresh ts db))"
proof (cases "insert_access (new_token ts access) db")
  case (Inr tx)
  from insert_access_later [OF Inr] assms(1) have a: "db_later H db tx" by simp
  show ?thesis
  proof (cases refresh)
    case (Some r)
    with assms(2) have "insert_refresh (new_token ts r) tx = Inr tx' \<Longrightarrow> db_later H db tx'" for tx'
      using insert_refresh_later [of "new_token ts r" tx tx' H] a by (auto intro: db_later_trans)
    then show ?thesis by (auto simp: CreateOAuthTokens_def Inr Some split: sum.splits)
  qed (simp add: CreateOAuthTokens_def Inr a)
qed (simp add: CreateOAuthTokens_def)

lemma AuthenticateOAuthAccessToken_later: "db_later H db (snd (AuthenticateOAuthAccessToken legacyFilter tokenHash at db))"
  unfolding AuthenticateOAuthAccessToken_def
  by (auto split: option.splits sum.splits simp: db_later_def grant_later_def intro!: tracks_refl tracks_update)

lemma ConsumeOAuthRefreshToken_later: "db_later H db (snd (ConsumeOAuthRefreshToken tokenHash at grace db))"
proof -
  have r: "db_later H db (db\<lparr>od_refresh := sql_update P f (od_refresh db)\<rparr>)" if "\<And>t. P' t \<Longrightarrow> token_later t (f t)" "\<And>k t. P k t \<Longrightarrow> P' t" for P P' f
    using that by (auto simp: db_later_def tracks_refl tracks_def sql_update_def)
  have "db_later H db (db\<lparr>od_refresh := sql_update (\<lambda>k t. ot_FamilyID t = ot_FamilyID item)
      (\<lambda>t. t\<lparr>ot_RevokedAt := (case ot_RevokedAt t of None \<Rightarrow> Some at | Some r \<Rightarrow> Some r),
         ot_ReuseDetectedAt := (if ot_TokenHash t = tokenHash then Some at else ot_ReuseDetectedAt t)\<rparr>) (od_refresh db)\<rparr>)" for item
    by (rule r [where P' = "\<lambda>_. True"]) (auto simp: token_later_def split: option.splits)
  moreover have "db_later H db (db\<lparr>od_refresh := sql_update (\<lambda>k t. k = tokenHash \<and> ot_ConsumedAt t = None) (\<lambda>t. t\<lparr>ot_ConsumedAt := Some at\<rparr>) (od_refresh db)\<rparr>)"
    by (rule r [where P' = "\<lambda>t. ot_ConsumedAt t = None"]) (auto simp: token_later_def)
  ultimately show ?thesis
    unfolding ConsumeOAuthRefreshToken_def Let_def by (auto split: option.splits intro: db_later_trans [OF _ revoke_access_later])
qed

lemma revoke_access_token_later: "db_later H db (revoke_access_token tokenHash ts db)"
  by (simp add: revoke_access_token_def db_later_def tracks_refl tracks_update token_later_def)

lemma oauth_step_later: "oauth_step H db db' \<Longrightarrow> db_later H db db'"
proof (induction rule: oauth_step.cases)
  case (create grant db princ profile policies ts)
  then show ?thesis by (auto simp: CreateOAuthGrantV2_def split: sum.splits intro: insertOAuthGrantV2Tx_later)
next
  case (create_code item db ts)
  then show ?thesis by (auto simp: CreateOAuthAuthorizationCode_def split: sum.splits intro: insert_code_later)
next
  case (revoke_authorization db ids ts)
  then show ?thesis by (auto split: sum.splits intro: revoke_authorizations_later)
next
  case (create_client db item)
  then show ?thesis by (auto simp: CreateOAuthClient_def Let_def intro: later_same)
next
  case (update_client db item)
  then show ?thesis by (auto simp: UpdateOAuthClient_def intro: later_same)
qed (auto intro: later_same drop_user_later DeleteOAuthClient_later authorizeOAuthClientOnce_later RevokeOAuthGrantReason_later RevokeOAuthOfflineAccess_later
    MarkOAuthGrantNeedsReconsent_later ConsumeOAuthAuthorizationCode_later MigrateOAuthResource_later CreateOAuthTokens_later
    AuthenticateOAuthAccessToken_later ConsumeOAuthRefreshToken_later revoke_access_token_later revoke_refresh_later)

lemma oauth_steps_later: "(oauth_step H)\<^sup>*\<^sup>* db db' \<Longrightarrow> db_later H db db'"
  by (induction rule: rtranclp_induct) (auto intro: db_later_trans oauth_step_later)

subsection \<open>Keys\<close>

definition grants_ok :: "(string, OAuthGrant) gomap \<Rightarrow> bool" where
  "grants_ok grants \<longleftrightarrow> gomap_ok grants \<and> list_all (\<lambda>(k, g). og_ID g = k) grants"

lemma grants_ok_filter [simp]: "grants_ok rows \<Longrightarrow> grants_ok (filter P rows)"
  by (auto simp: grants_ok_def list_all_iff)

lemma grants_ok_update: "grants_ok rows \<Longrightarrow> (\<And>g. og_ID (f g) = og_ID g) \<Longrightarrow> grants_ok (sql_update P f rows)"
  by (auto simp: grants_ok_def list_all_iff sql_update_def comp_def case_prod_beta)

definition oauth_inv :: "oauth_db \<Rightarrow> bool" where
  "oauth_inv db \<longleftrightarrow> grants_ok (od_grants db) \<and> gomap_ok (od_codes db) \<and> gomap_ok (od_access db) \<and> gomap_ok (od_refresh db) \<and> unique_live (od_grants db)"

lemma oauth_inv_grants:
  "oauth_inv db \<Longrightarrow> grants_ok grants \<Longrightarrow> unique_live grants \<Longrightarrow> oauth_inv (db\<lparr>od_grants := grants\<rparr>)"
  by (simp add: oauth_inv_def)

lemma oauth_inv_same:
  "oauth_inv db \<Longrightarrow> od_grants db' = od_grants db \<Longrightarrow> od_codes db' = od_codes db \<Longrightarrow> od_access db' = od_access db \<Longrightarrow> od_refresh db' = od_refresh db \<Longrightarrow>
     oauth_inv db'"
  by (simp add: oauth_inv_def)

lemma live_keys_update:
  assumes "\<And>g. grant_key (f g) = grant_key g" "\<And>g. live_grant (f g) \<Longrightarrow> live_grant g"
  shows "set (map grant_key (filter live_grant (map snd (sql_update P f rows)))) \<subseteq> set (map grant_key (filter live_grant (map snd rows)))"
    and "unique_live rows \<Longrightarrow> unique_live (sql_update P f rows)"
proof -
  show sub: "set (map grant_key (filter live_grant (map snd (sql_update P f rows)))) \<subseteq> set (map grant_key (filter live_grant (map snd rows)))" for rows
  proof
    fix x assume "x \<in> set (map grant_key (filter live_grant (map snd (sql_update P f rows))))"
    then obtain k g where g: "(k, g) \<in> set rows" "live_grant (if P k g then f g else g)" "x = grant_key (if P k g then f g else g)"
      by (auto simp: sql_update_def)
    then have "live_grant g" "x = grant_key g" using assms(1) assms(2) [of g] by (auto split: if_splits)
    with g(1) show "x \<in> set (map grant_key (filter live_grant (map snd rows)))" by force
  qed
  show "unique_live rows \<Longrightarrow> unique_live (sql_update P f rows)"
  proof (induction rows)
    case (Cons r rows)
    obtain k g where r: "r = (k, g)" by (cases r)
    have u: "sql_update P f (r # rows) = (k, if P k g then f g else g) # sql_update P f rows" by (simp add: sql_update_def r)
    have key: "grant_key (if P k g then f g else g) = grant_key g" using assms(1) by simp
    have IH: "unique_live (sql_update P f rows)" using Cons by (auto simp: unique_live_def split: if_splits)
    show ?case
    proof (cases "live_grant (if P k g then f g else g)")
      case True
      then have "live_grant g" using assms(2) [of g] by (cases "P k g") simp_all
      with Cons.prems have "grant_key g \<notin> set (map grant_key (filter live_grant (map snd rows)))" by (simp add: unique_live_def r)
      with sub [of rows] have "grant_key g \<notin> set (map grant_key (filter live_grant (map snd (sql_update P f rows))))" by blast
      with IH True show ?thesis unfolding u by (simp only: unique_live_def list.map filter.simps if_True snd_conv key distinct.simps) simp
    next
      case False
      with IH show ?thesis unfolding u by (simp add: unique_live_def)
    qed
  qed (simp add: sql_update_def)
qed

lemma unique_live_filter: "unique_live rows \<Longrightarrow> unique_live (filter P rows)"
proof (induction rows)
  case (Cons r rows)
  have "set (map grant_key (filter live_grant (map snd (filter P rows)))) \<subseteq> set (map grant_key (filter live_grant (map snd rows)))" by auto
  with Cons show ?case by (auto simp: unique_live_def split: if_splits)
qed simp

lemma oauth_inv_update_grants:
  "oauth_inv db \<Longrightarrow> (\<And>g. grant_key (f g) = grant_key g) \<Longrightarrow> (\<And>g. live_grant (f g) \<Longrightarrow> live_grant g) \<Longrightarrow>
     (\<And>g. og_ID (f g) = og_ID g) \<Longrightarrow> oauth_inv (db\<lparr>od_grants := sql_update P f (od_grants db)\<rparr>)"
  by (rule oauth_inv_grants) (simp_all add: oauth_inv_def live_keys_update(2) grants_ok_update)

lemma oauth_inv_delete:
  assumes "oauth_inv db"
  shows "oauth_inv (keep_grants P db)" "oauth_inv (drop_clients clientID db)" "oauth_inv (drop_principal principalID db)" "oauth_inv (drop_user userID db)"
  using assms by (simp_all add: oauth_inv_def keep_grants_def drop_clients_def drop_principal_def drop_user_def Let_def unique_live_filter)

lemma fold_inv: "(\<And>x db. oauth_inv db \<Longrightarrow> oauth_inv (f x db)) \<Longrightarrow> oauth_inv db \<Longrightarrow> oauth_inv (fold f xs db)"
  by (induction xs arbitrary: db) auto

lemma drop_oauth_principal_inv: "oauth_inv db \<Longrightarrow> oauth_inv (drop_oauth_principal principalID db)"
  by (auto simp: drop_oauth_principal_def oauth_inv_delete split: option.splits)

lemma drop_profiles_inv: "drop_profiles ids db = Inr db' \<Longrightarrow> oauth_inv db \<Longrightarrow> oauth_inv db'"
proof (induction ids db rule: drop_profiles.induct)
  case (2 profileID rest db)
  have "oauth_inv (db\<lparr>od_profiles := filter (\<lambda>(k, p). k \<noteq> profileID) (od_profiles db)\<rparr>)" using 2(3) by (rule oauth_inv_same) simp_all
  with 2 show ?case by (auto split: if_splits)
qed simp

lemma DeleteOAuthClient_inv: "oauth_inv db \<Longrightarrow> oauth_inv (snd (DeleteOAuthClient clientID db))"
  using drop_profiles_inv [OF _ fold_inv [where f = drop_oauth_principal, OF drop_oauth_principal_inv oauth_inv_delete(2)]]
  unfolding DeleteOAuthClient_def Let_def by (simp split: sum.splits)

lemma write_grants_inv: "write_grants grants db = Inr db' \<Longrightarrow> oauth_inv db \<Longrightarrow> grants_ok grants \<Longrightarrow> oauth_inv db'"
  by (auto simp: write_grants_def split: if_splits intro: oauth_inv_grants)

lemma insert_grant_inv: "insert_grant g db = Inr db' \<Longrightarrow> oauth_inv db \<Longrightarrow> oauth_inv db'"
  unfolding insert_grant_def by (simp split: if_splits) (erule write_grants_inv, simp_all add: oauth_inv_def grants_ok_def)

lemma insert_policies_inv: "insert_policies principalID policies db = Inr db' \<Longrightarrow> oauth_inv db \<Longrightarrow> oauth_inv db'"
proof (induction principalID policies db rule: insert_policies.induct)
  case (2 principalID policy rest db)
  have "oauth_inv (db\<lparr>od_policies := od_policies db @ [(apo_ID policy, policy\<lparr>apo_PrincipalID := principalID\<rparr>)]\<rparr>)"
    using 2(3) by (rule oauth_inv_same) simp_all
  with 2 show ?case by (auto split: if_splits)
qed simp

lemma insertOAuthGrantV2Tx_inv:
  "insertOAuthGrantV2Tx grant princ profile policies ts db = Inr (g, db') \<Longrightarrow> oauth_inv db \<Longrightarrow> oauth_inv db'"
  by (erule insertOAuthGrantV2TxE, erule insert_policies_inv, erule insert_grant_inv, erule oauth_inv_same) (simp_all add: with_owner_def)

lemma oauth_inv_keys: "oauth_inv db \<Longrightarrow> grants_ok (od_grants db)"
  by (simp add: oauth_inv_def)

lemma create_grant_inv:
  assumes "create_grant req ts db = Inr (g, db')" "oauth_inv db"
  shows "oauth_inv db'"
proof -
  obtain g1 db1 where i: "insertOAuthGrantV2Tx (ar_NewGrant req) (ar_NewPrincipal req) (ar_NewProfile req) (ar_NewPolicies req) ts db = Inr (g1, db1)"
    and w: "write_grants (sql_update (\<lambda>k g. k = og_ID g1) (\<lambda>g. g\<lparr>og_LastAuthorizedAt := Some ts, og_ResourceKey := ar_ResourceKey req\<rparr>) (od_grants db1)) db1 = Inr db'"
    using assms(1) by (auto simp: create_grant_def split: sum.splits)
  from insertOAuthGrantV2Tx_inv [OF i assms(2)] have inv: "oauth_inv db1" .
  show ?thesis using w inv by (rule write_grants_inv) (simp add: grants_ok_update oauth_inv_keys [OF inv])
qed

lemma reuse_grant_inv:
  assumes "reuse_grant req ts live db = Inr (g, db')" "oauth_inv db"
  shows "oauth_inv db'"
proof -
  obtain upd db1 where w: "write_grants (sql_update (\<lambda>k g. k = og_ID live) upd (od_grants db)) db = Inr db1" "\<And>g. og_ID (upd g) = og_ID g"
    and r: "od_grants db' = od_grants db1" "od_codes db' = od_codes db1" "od_access db' = od_access db1" "od_refresh db' = od_refresh db1"
    using assms(1) by (fastforce simp: reuse_grant_def Let_def split: if_splits sum.splits)
  have "oauth_inv db1" using w(1) assms(2) by (rule write_grants_inv) (simp add: grants_ok_update oauth_inv_keys [OF assms(2)] w(2))
  then show ?thesis using r by (rule oauth_inv_same)
qed

lemma insert_code_inv: "insert_code c db = Inr db' \<Longrightarrow> oauth_inv db \<Longrightarrow> oauth_inv db'"
  unfolding insert_code_def by (simp split: if_splits) (clarify, simp add: oauth_inv_def)

lemma authorizeOAuthClientOnce_inv:
  assumes "oauth_inv db"
  shows "oauth_inv (snd (authorizeOAuthClientOnce req ts db))"
proof (cases "case findLiveOAuthGrantTx (ar_ClientID req) (ar_UserID req) (ar_ResourceKey req) db of
    Some live \<Rightarrow> reuse_grant req ts live db | None \<Rightarrow> create_grant req ts db")
  case (Inr r)
  obtain g tx where r: "r = (g, tx)" by (cases r)
  have "oauth_inv tx" using Inr r assms by (auto split: option.splits intro: reuse_grant_inv create_grant_inv)
  then show ?thesis unfolding authorizeOAuthClientOnce_def Inr r by (auto simp: Let_def assms split: sum.splits intro: insert_code_inv)
qed (simp add: authorizeOAuthClientOnce_def assms)

lemma oauth_inv_revoke:
  assumes "oauth_inv db"
  shows "oauth_inv (revoke_access P ts db)" "oauth_inv (revoke_refresh P ts db)" "oauth_inv (invalidateOAuthGrantConsumablesTx ts grantID db)"
  using assms by (simp_all add: oauth_inv_def revoke_access_def revoke_refresh_def invalidateOAuthGrantConsumablesTx_def)

lemma disable_grant_inv:
  assumes "oauth_inv db"
  shows "oauth_inv (disable_grant ts grantID principalID db)"
  unfolding disable_grant_def Let_def
  by (rule oauth_inv_revoke(3), rule oauth_inv_same, rule oauth_inv_revoke(2), rule oauth_inv_revoke(1), rule oauth_inv_same [OF assms]) simp_all

lemma revoked_not_live: "live_grant (g\<lparr>og_Status := s, og_RevokedAt := Some ts, og_RevokeReason := r\<rparr>) = False"
  by (simp add: live_grant_def)

lemma RevokeOAuthGrantReason_inv: "oauth_inv db \<Longrightarrow> oauth_inv (snd (RevokeOAuthGrantReason grantID ts reason db))"
  unfolding RevokeOAuthGrantReason_def
  by (simp split: option.splits) (intro allI impI disable_grant_inv oauth_inv_update_grants; simp add: grant_key_def revoked_not_live)

lemma revoke_authorizations_inv: "revoke_authorizations ids ts db = Inr db' \<Longrightarrow> oauth_inv db \<Longrightarrow> oauth_inv db'"
proof (induction ids ts db rule: revoke_authorizations.induct)
  case (2 grantID rest ts db)
  then obtain g where g: "map_of (od_grants db) grantID = Some g" by (auto split: option.splits)
  show ?case
  proof (cases "og_RevokedAt g = None")
    case True
    have "oauth_inv (disable_grant ts grantID (og_PrincipalID g)
        (db\<lparr>od_grants := sql_update (\<lambda>k g. k = grantID \<and> og_RevokedAt g = None)
           (\<lambda>g. g\<lparr>og_Status := OAuthGrantRevoked, og_RevokedAt := Some ts,
              og_RevokeReason := (if og_RevokeReason g = [] then ''authorization_revoked'' else og_RevokeReason g)\<rparr>) (od_grants db)\<rparr>))"
      by (intro disable_grant_inv oauth_inv_update_grants "2.prems"(2)) (simp_all only: revoked_not_live, simp_all add: grant_key_def)
    from "2.IH"(2) [OF g _ _ this] "2.prems"(1) g True show ?thesis by simp
  next
    case False
    with "2.prems" g show ?thesis by (intro "2.IH"(1) [OF g]) simp_all
  qed
qed simp

lemma RevokeOAuthOfflineAccess_inv: "oauth_inv db \<Longrightarrow> oauth_inv (snd (RevokeOAuthOfflineAccess grantID ts db))"
  unfolding RevokeOAuthOfflineAccess_def
  by (simp split: option.splits) (intro allI impI oauth_inv_revoke oauth_inv_update_grants; simp add: grant_key_def live_grant_def)

lemma MarkOAuthGrantNeedsReconsent_inv:
  assumes "oauth_inv db"
  shows "oauth_inv (MarkOAuthGrantNeedsReconsent grantID ts reason db)"
proof -
  define hit where "hit = (\<lambda>k (g :: OAuthGrant). k = grantID \<and> og_Status g = OAuthGrantActive)"
  define f where "f = (\<lambda>g :: OAuthGrant. if og_Status g = OAuthGrantActive then g\<lparr>og_Status := OAuthGrantNeedsReconsent, og_RevokeReason := reason\<rparr> else g)"
  have u: "sql_update hit (\<lambda>g. g\<lparr>og_Status := OAuthGrantNeedsReconsent, og_RevokeReason := reason\<rparr>) rows = sql_update hit f rows" for rows
    by (auto simp: sql_update_def hit_def f_def)
  have "oauth_inv (db\<lparr>od_grants := sql_update hit f (od_grants db)\<rparr>)"
    using assms by (rule oauth_inv_update_grants) (auto simp: f_def grant_key_def live_grant_def split: if_splits)
  then have "oauth_inv (revoke_refresh (\<lambda>t. ot_GrantID t = grantID) ts (revoke_access (\<lambda>t. ot_GrantID t = grantID) ts (db\<lparr>od_grants := sql_update hit f (od_grants db)\<rparr>)))"
    by (intro oauth_inv_revoke)
  then show ?thesis
    unfolding MarkOAuthGrantNeedsReconsent_def Let_def hit_def [symmetric] u using assms by (simp add: oauth_inv_def)
qed

lemma CreateOAuthTokens_inv: "oauth_inv db \<Longrightarrow> oauth_inv (snd (CreateOAuthTokens access refresh ts db))"
  unfolding CreateOAuthTokens_def insert_access_def insert_refresh_def
  by (simp split: option.splits) (simp add: oauth_inv_def)

lemma AuthenticateOAuthAccessToken_inv: "oauth_inv db \<Longrightarrow> oauth_inv (snd (AuthenticateOAuthAccessToken legacyFilter tokenHash at db))"
proof -
  assume "oauth_inv db"
  then have "oauth_inv (db\<lparr>od_grants := sql_update P (\<lambda>g. g\<lparr>og_LastUsedAt := Some at\<rparr>) (od_grants db)\<rparr>)" for P
    by (rule oauth_inv_update_grants) (simp_all add: grant_key_def live_grant_def)
  then have "oauth_inv (db\<lparr>od_principals := ps, od_grants := sql_update P (\<lambda>g. g\<lparr>og_LastUsedAt := Some at\<rparr>) (od_grants db)\<rparr>)" for P ps
    by (rule oauth_inv_same) simp_all
  with \<open>oauth_inv db\<close> show ?thesis
    unfolding AuthenticateOAuthAccessToken_def by (simp split: option.splits sum.splits)
qed

lemma ConsumeOAuthRefreshToken_inv: "oauth_inv db \<Longrightarrow> oauth_inv (snd (ConsumeOAuthRefreshToken tokenHash at grace db))"
  unfolding ConsumeOAuthRefreshToken_def Let_def
  by (simp split: option.splits) (simp add: oauth_inv_def revoke_access_def)

lemma revoke_access_token_inv: "oauth_inv db \<Longrightarrow> oauth_inv (revoke_access_token tokenHash ts db)"
  by (simp add: revoke_access_token_def oauth_inv_def)

lemma oauth_step_inv: "oauth_step H db db' \<Longrightarrow> oauth_inv db \<Longrightarrow> oauth_inv db'"
proof (induction rule: oauth_step.cases)
  case (create grant db princ profile policies ts)
  then show ?thesis by (auto simp: CreateOAuthGrantV2_def split: sum.splits intro: insertOAuthGrantV2Tx_inv)
next
  case (create_code item db ts)
  then show ?thesis by (auto simp: CreateOAuthAuthorizationCode_def split: sum.splits intro: insert_code_inv)
next
  case (consume_code db codeHash)
  then show ?thesis by (auto simp: ConsumeOAuthAuthorizationCode_def oauth_inv_def split: option.splits)
next
  case (migrate db "from" to)
  then show ?thesis by (simp add: MigrateOAuthResource_def oauth_inv_def)
next
  case (revoke_authorization db ids ts)
  then show ?thesis by (auto split: sum.splits intro: revoke_authorizations_inv)
next
  case (create_client db item)
  then show ?thesis by (simp add: CreateOAuthClient_def Let_def oauth_inv_def)
next
  case (update_client db item)
  then show ?thesis by (simp add: UpdateOAuthClient_def oauth_inv_def)
qed (simp_all add: oauth_inv_delete DeleteOAuthClient_inv authorizeOAuthClientOnce_inv RevokeOAuthGrantReason_inv RevokeOAuthOfflineAccess_inv
    MarkOAuthGrantNeedsReconsent_inv CreateOAuthTokens_inv AuthenticateOAuthAccessToken_inv ConsumeOAuthRefreshToken_inv revoke_access_token_inv oauth_inv_revoke,
    simp_all add: oauth_inv_def)

interpretation oa: inv_system "\<lambda>db. db = empty_oauth" "oauth_step H" oauth_inv
  by unfold_locales (simp add: empty_oauth_def oauth_inv_def grants_ok_def unique_live_def, rule oauth_step_inv)

text \<open>The revocation of a token is a run of these steps, whatever commits between its statements.\<close>

lemma RevokeOAuthToken_steps:
  assumes "\<And>k db. (oauth_step H)\<^sup>*\<^sup>* db (others k db)"
  shows "(oauth_step H)\<^sup>*\<^sup>* db (snd (RevokeOAuthToken tokenHash ts others db))"
proof -
  let ?d = "others 1 (revoke_access_token tokenHash ts db)"
  have "(oauth_step H)\<^sup>*\<^sup>* db (revoke_access_token tokenHash ts db)" by (rule r_into_rtranclp) (rule revoke_token)
  moreover from this have "(oauth_step H)\<^sup>*\<^sup>* db (others 1 (revoke_access_token tokenHash ts db))" using assms by (rule rtranclp_trans)
  moreover from this have "(oauth_step H)\<^sup>*\<^sup>* db (revoke_refresh (\<lambda>u. ot_FamilyID u = f) ts (others 2 ?d))" for f
    by (rule rtranclp.rtrancl_into_rtrancl [OF rtranclp_trans [OF _ assms] revoke_family])
  ultimately show ?thesis unfolding RevokeOAuthToken_def Let_def by (simp split: option.split)
qed

section \<open>Single use and revocation\<close>

lemma tracked_row: "tracks R H rows rows' \<Longrightarrow> map_of rows' k = Some r' \<Longrightarrow> k \<notin> H \<Longrightarrow> \<exists>r. (k, r) \<in> set rows \<and> R r r'"
  unfolding tracks_def by (blast dest: map_of_SomeD)

lemma not_rotated: "(\<And>t. map_of (od_refresh db) h = Some t \<Longrightarrow> ot_ConsumedAt t \<noteq> None \<or> ot_RevokedAt t \<noteq> None) \<Longrightarrow>
    fst (ConsumeOAuthRefreshToken h at grace db) \<noteq> Rotated item"
  by (auto simp: ConsumeOAuthRefreshToken_def Let_def split: option.splits)

lemma rotated_row:
  assumes "ConsumeOAuthRefreshToken h at grace db = (Rotated item, db')" "gomap_ok (od_refresh db)" "(h, t) \<in> set (od_refresh db')"
  shows "t = item\<lparr>ot_ConsumedAt := Some at\<rparr>"
proof -
  from assms(1) have m: "map_of (od_refresh db) h = Some item" "ot_ConsumedAt item = None"
    and db': "od_refresh db' = sql_update (\<lambda>k t. k = h \<and> ot_ConsumedAt t = None) (\<lambda>t. t\<lparr>ot_ConsumedAt := Some at\<rparr>) (od_refresh db)"
    by (auto simp: ConsumeOAuthRefreshToken_def Let_def split: option.splits if_splits)
  have "gomap_ok (od_refresh db')" unfolding db' using assms(2) by simp
  then have "map_of (od_refresh db') h = Some t" using assms(3) by simp
  with m show ?thesis by (auto simp: db' sql_update_lookup)
qed

text \<open>
  C4. A refresh token is rotated at most once. After a rotation, whatever transactions follow in whatever order, the
  same token is never accepted for another rotation: it is refused, answered as a replay or taken as reuse.
\<close>
theorem refresh_token_rotates_once:
  assumes "(oauth_step UNIV)\<^sup>*\<^sup>* empty_oauth db" "ConsumeOAuthRefreshToken h at grace db = (Rotated item, db')"
    "(oauth_step H)\<^sup>*\<^sup>* db' db''" "h \<notin> H"
  shows "fst (ConsumeOAuthRefreshToken h at' grace' db'') \<noteq> Rotated item'"
proof (rule not_rotated)
  fix t assume t: "map_of (od_refresh db'') h = Some t"
  have ok: "gomap_ok (od_refresh db)" using oa.reached_inv [OF refl assms(1)] by (simp add: oauth_inv_def)
  have "tracks token_later H (od_refresh db') (od_refresh db'')" using oauth_steps_later [OF assms(3)] by (simp add: db_later_def)
  from tracked_row [OF this t assms(4)] obtain r where r: "(h, r) \<in> set (od_refresh db')" "token_later r t" by blast
  with rotated_row [OF assms(2) ok r(1)] show "ot_ConsumedAt t \<noteq> None \<or> ot_RevokedAt t \<noteq> None" by (auto simp: token_later_def)
qed

lemma consumed_code_gone: "ConsumeOAuthAuthorizationCode h db = (Inr c, db') \<Longrightarrow> h \<notin> fst ` set (od_codes db')"
  by (auto simp: ConsumeOAuthAuthorizationCode_def split: option.splits)

text \<open>The same for authorization codes, which are deleted when they are exchanged.\<close>

theorem authorization_code_used_once:
  assumes "ConsumeOAuthAuthorizationCode h db = (Inr c, db')" "(oauth_step H)\<^sup>*\<^sup>* db' db''" "h \<notin> H"
  shows "ConsumeOAuthAuthorizationCode h db'' = (Inl sql_ErrNoRows, db'')"
proof -
  have "tracks (\<lambda>_ _. True) H (od_codes db') (od_codes db'')" using oauth_steps_later [OF assms(2)] by (simp add: db_later_def)
  with consumed_code_gone [OF assms(1)] assms(3) have "map_of (od_codes db'') h = None"
    using tracked_row [of _ H "od_codes db'" "od_codes db''" h] by (cases "map_of (od_codes db'') h") force+
  then show ?thesis by (simp add: ConsumeOAuthAuthorizationCode_def)
qed

lemma reuse_effect:
  assumes "ConsumeOAuthRefreshToken h at grace db = (Reused item, db')"
  shows "(k, t) \<in> set (od_refresh db') \<Longrightarrow> ot_FamilyID t = ot_FamilyID item \<Longrightarrow> ot_RevokedAt t \<noteq> None"
    and "(k, t) \<in> set (od_access db') \<Longrightarrow> ot_GrantID t = ot_GrantID item \<Longrightarrow> ot_RevokedAt t \<noteq> None"
proof -
  have r: "od_refresh db' = sql_update (\<lambda>k t. ot_FamilyID t = ot_FamilyID item)
      (\<lambda>t. t\<lparr>ot_RevokedAt := (case ot_RevokedAt t of None \<Rightarrow> Some at | Some r \<Rightarrow> Some r),
         ot_ReuseDetectedAt := (if ot_TokenHash t = h then Some at else ot_ReuseDetectedAt t)\<rparr>) (od_refresh db)"
    and a: "od_access db' = sql_update (\<lambda>k t. ot_GrantID t = ot_GrantID item \<and> ot_RevokedAt t = None) (\<lambda>t. t\<lparr>ot_RevokedAt := Some at\<rparr>) (od_access db)"
    using assms by (auto simp: ConsumeOAuthRefreshToken_def Let_def revoke_access_def split: option.splits if_splits)
  show "(k, t) \<in> set (od_refresh db') \<Longrightarrow> ot_FamilyID t = ot_FamilyID item \<Longrightarrow> ot_RevokedAt t \<noteq> None"
    unfolding r sql_update_def by (auto split: if_splits option.splits)
  show "(k, t) \<in> set (od_access db') \<Longrightarrow> ot_GrantID t = ot_GrantID item \<Longrightarrow> ot_RevokedAt t \<noteq> None"
    unfolding a sql_update_def by (auto split: if_splits)
qed

lemma reused_revokes:
  assumes "(oauth_step UNIV)\<^sup>*\<^sup>* empty_oauth db" "ConsumeOAuthRefreshToken h at grace db = (Reused item, db')"
    "(oauth_step H)\<^sup>*\<^sup>* db' db''" "k \<notin> H"
  shows "(map_of (od_refresh db') k = Some t \<and> ot_FamilyID t = ot_FamilyID item \<longrightarrow> fst (ConsumeOAuthRefreshToken k at' grace' db'') \<noteq> Rotated item') \<and>
    (map_of (od_access db') k = Some t \<and> ot_GrantID t = ot_GrantID item \<longrightarrow> AuthenticateMCPAccessToken k resource at' db'' = Inl sql_ErrNoRows)"
proof -
  have later: "tracks token_later H (od_refresh db') (od_refresh db'')" "tracks token_later H (od_access db') (od_access db'')"
    using oauth_steps_later [OF assms(3)] by (simp_all add: db_later_def)
  have "oauth_inv db'"
    using oauth_step_inv [OF consume_refresh [of UNIV db h at grace] oa.reached_inv [OF refl assms(1)]] assms(2) by simp
  then have ok: "gomap_ok (od_refresh db')" "gomap_ok (od_access db')" by (simp_all add: oauth_inv_def)
  have "fst (ConsumeOAuthRefreshToken k at' grace' db'') \<noteq> Rotated item'" if t: "map_of (od_refresh db') k = Some t" "ot_FamilyID t = ot_FamilyID item"
  proof (rule not_rotated)
    fix t' assume "map_of (od_refresh db'') k = Some t'"
    from tracked_row [OF later(1) this assms(4)] t(1) ok(1) have "token_later t t'" by force
    moreover from reuse_effect(1) [OF assms(2)] t have "ot_RevokedAt t \<noteq> None" by (blast dest: map_of_SomeD)
    ultimately show "ot_ConsumedAt t' \<noteq> None \<or> ot_RevokedAt t' \<noteq> None" by (simp add: token_later_def)
  qed
  moreover have "AuthenticateMCPAccessToken k resource at' db'' = Inl sql_ErrNoRows"
    if t: "map_of (od_access db') k = Some t" "ot_GrantID t = ot_GrantID item"
  proof (cases "map_of (od_access db'') k")
    case (Some t')
    from tracked_row [OF later(2) this assms(4)] t(1) ok(2) have "token_later t t'" by force
    moreover from reuse_effect(2) [OF assms(2)] t have "ot_RevokedAt t \<noteq> None" by (blast dest: map_of_SomeD)
    ultimately have "ot_RevokedAt t' \<noteq> None" by (simp add: token_later_def)
    with Some show ?thesis by (auto simp: AuthenticateMCPAccessToken_def split: option.splits)
  qed (simp add: AuthenticateMCPAccessToken_def)
  ultimately show ?thesis by blast
qed

lemma oauth_steps_UNIV: "(oauth_step H)\<^sup>*\<^sup>* db db' \<Longrightarrow> (oauth_step UNIV)\<^sup>*\<^sup>* db db'"
proof (induction rule: rtranclp_induct)
  case (step y z)
  from step(2) have "oauth_step UNIV y z" by cases (auto intro: oauth_step.intros split: option.splits)
  with step(3) show ?case by (rule rtranclp.rtrancl_into_rtrancl)
qed simp

lemma consumed_reused:
  assumes "map_of (od_refresh db) h = Some t" "ot_ConsumedAt t = Some at" "grace \<le> 0 \<or> at + grace < at'"
  shows "fst (ConsumeOAuthRefreshToken h at' grace db) = Reused t"
  using assms by (auto simp: ConsumeOAuthRefreshToken_def Let_def)

text \<open>
  C5. A rotated refresh token that is presented again after the replay grace is taken as reuse, and revokes its family for
  good. Take a rotation at \<open>at\<close> and any transactions after it. If the row of the token still exists and the token comes
  in again, with no grace configured or later than \<open>at + grace\<close>, the outcome is reuse of a token of the same family
  and grant. From then on, whatever transactions follow, no refresh token that was in the family at that moment is
  rotated again and no access token that the grant had at that moment authenticates again.
\<close>
theorem reuse_revokes_family:
  assumes "(oauth_step UNIV)\<^sup>*\<^sup>* empty_oauth db" "ConsumeOAuthRefreshToken h at grace0 db = (Rotated item, db1)"
    "(oauth_step H)\<^sup>*\<^sup>* db1 db2" "h \<notin> H" "map_of (od_refresh db2) h \<noteq> None" "grace \<le> 0 \<or> at + grace < at'"
    "ConsumeOAuthRefreshToken h at' grace db2 = (outcome, db3)" "(oauth_step H')\<^sup>*\<^sup>* db3 db4" "k \<notin> H'"
  shows "(\<exists>item'. outcome = Reused item' \<and> ot_FamilyID item' = ot_FamilyID item \<and> ot_GrantID item' = ot_GrantID item) \<and>
    (map_of (od_refresh db3) k = Some t \<and> ot_FamilyID t = ot_FamilyID item \<longrightarrow> fst (ConsumeOAuthRefreshToken k at'' grace'' db4) \<noteq> Rotated item'') \<and>
    (map_of (od_access db3) k = Some t \<and> ot_GrantID t = ot_GrantID item \<longrightarrow> AuthenticateMCPAccessToken k resource at'' db4 = Inl sql_ErrNoRows)"
proof -
  obtain t' where t': "map_of (od_refresh db2) h = Some t'" using assms(5) by blast
  have ok: "gomap_ok (od_refresh db)" using oa.reached_inv [OF refl assms(1)] by (simp add: oauth_inv_def)
  have "tracks token_later H (od_refresh db1) (od_refresh db2)" using oauth_steps_later [OF assms(3)] by (simp add: db_later_def)
  from tracked_row [OF this t' assms(4)] obtain r where r: "(h, r) \<in> set (od_refresh db1)" "token_later r t'" by blast
  with rotated_row [OF assms(2) ok r(1)]
  have same: "ot_ConsumedAt t' = Some at" "ot_FamilyID t' = ot_FamilyID item" "ot_GrantID t' = ot_GrantID item" by (simp_all add: token_later_def)
  have out: "outcome = Reused t'" using consumed_reused [OF t' same(1) assms(6)] assms(7) by simp
  have "oauth_step UNIV db db1" using consume_refresh [of UNIV db h at grace0] assms(2) by simp
  then have "(oauth_step UNIV)\<^sup>*\<^sup>* empty_oauth db2"
    using assms(1) oauth_steps_UNIV [OF assms(3)] by (meson rtranclp.rtrancl_into_rtrancl rtranclp_trans)
  from reused_revokes [OF this assms(7) [unfolded out] assms(8,9)] same out show ?thesis by simp
qed

section \<open>Authorization\<close>

text \<open>What the controller passes: the new grant belongs to the request and is live.\<close>

definition request_ok :: "OAuthAuthorizeRequest \<Rightarrow> bool" where
  "request_ok req \<longleftrightarrow> og_ClientID (ar_NewGrant req) = ar_ClientID req \<and> og_UserID (ar_NewGrant req) = ar_UserID req \<and> ar_ResourceKey req \<noteq> [] \<and>
     og_Status (ar_NewGrant req) = OAuthGrantActive \<and> og_RevokedAt (ar_NewGrant req) = None"

definition live_ids :: "OAuthAuthorizeRequest \<Rightarrow> oauth_db \<Rightarrow> string list" where
  "live_ids req db = map fst (filter (\<lambda>(k, g). live_for (ar_ClientID req) (ar_UserID req) (ar_ResourceKey req) g) (od_grants db))"

lemma unique_live_ids:
  assumes "unique_live grants"
  shows "length (filter (\<lambda>(k, g). live_for c u r g) grants) \<le> 1"
proof -
  have "filter (\<lambda>(k, g). live_for c u r g) grants = filter (\<lambda>x. live_grant (snd x) \<and> grant_key (snd x) = (c, u, r)) grants"
    by (rule filter_cong) (auto simp: live_for_def grant_key_def)
  then have "length (filter (\<lambda>(k, g). live_for c u r g) grants) = length (filter (\<lambda>x. x = (c, u, r)) (map grant_key (filter live_grant (map snd grants))))"
    by (simp add: filter_map comp_def case_prod_beta conj_commute)
  also have "\<dots> \<le> 1"
  proof -
    have "distinct (filter (\<lambda>x. x = (c, u, r)) (map grant_key (filter live_grant (map snd grants))))"
      using assms by (simp add: unique_live_def)
    then have "length (filter (\<lambda>x. x = (c, u, r)) (map grant_key (filter live_grant (map snd grants)))) =
        card (set (filter (\<lambda>x. x = (c, u, r)) (map grant_key (filter live_grant (map snd grants)))))" by (simp only: distinct_card)
    also have "\<dots> \<le> card {(c, u, r)}" by (rule card_mono) auto
    finally show ?thesis by simp
  qed
  finally show ?thesis .
qed

lemma live_ids_single:
  assumes "oauth_inv db" "(k, g) \<in> set (od_grants db)" "live_for (ar_ClientID req) (ar_UserID req) (ar_ResourceKey req) g"
  shows "live_ids req db = [k]"
proof -
  let ?f = "filter (\<lambda>(k, g). live_for (ar_ClientID req) (ar_UserID req) (ar_ResourceKey req) g) (od_grants db)"
  have "length ?f \<le> 1" using assms(1) by (intro unique_live_ids) (simp add: oauth_inv_def)
  moreover have "(k, g) \<in> set ?f" using assms(2,3) by simp
  ultimately have "?f = [(k, g)]" by (cases ?f) (auto simp: le_Suc_eq)
  then show ?thesis by (simp add: live_ids_def)
qed

lemma insert_policies_grants: "insert_policies principalID policies db = Inr db' \<Longrightarrow> od_grants db' = od_grants db"
  by (induction principalID policies db rule: insert_policies.induct) (auto split: if_splits)

lemma create_grant_row:
  assumes "create_grant req ts db = Inr (g, db')"
  shows "og_ID g = og_ID (ar_NewGrant req)" "og_ID g \<notin> fst ` set (od_grants db)"
    "od_grants db' = sql_update (\<lambda>k _. k = og_ID g) (\<lambda>g. g\<lparr>og_LastAuthorizedAt := Some ts, og_ResourceKey := ar_ResourceKey req\<rparr>)
       (od_grants db @ [(og_ID g, grant_row (grant_item (ar_NewGrant req) (ar_NewPrincipal req) (ar_NewProfile req) ts) ts)])"
proof -
  obtain g1 db1 where i: "insertOAuthGrantV2Tx (ar_NewGrant req) (ar_NewPrincipal req) (ar_NewProfile req) (ar_NewPolicies req) ts db = Inr (g1, db1)"
    and w: "write_grants (sql_update (\<lambda>k g. k = og_ID g1) (\<lambda>g. g\<lparr>og_LastAuthorizedAt := Some ts, og_ResourceKey := ar_ResourceKey req\<rparr>) (od_grants db1)) db1 = Inr db'"
    and g: "g = g1\<lparr>og_LastAuthorizedAt := Some ts\<rparr>"
    using assms by (auto simp: create_grant_def split: sum.splits)
  let ?row = "grant_row (grant_item (ar_NewGrant req) (ar_NewPrincipal req) (ar_NewProfile req) ts) ts"
  from i obtain db2 where s: "insert_grant ?row (with_owner (ar_NewPrincipal req) (ar_NewProfile req) ts db) = Inr db2"
    "insert_policies (apr_ID (ar_NewPrincipal req)) (ar_NewPolicies req) db2 = Inr db1"
    and g1: "g1 = grant_item (ar_NewGrant req) (ar_NewPrincipal req) (ar_NewProfile req) ts"
    by (rule insertOAuthGrantV2TxE) blast
  from s(1) have "og_ID (ar_NewGrant req) \<notin> fst ` set (od_grants db)" "od_grants db2 = od_grants db @ [(og_ID (ar_NewGrant req), ?row)]"
    by (auto simp: insert_grant_def write_grants_def with_owner_def split: if_splits)
  moreover have "od_grants db' = sql_update (\<lambda>k g. k = og_ID g1) (\<lambda>g. g\<lparr>og_LastAuthorizedAt := Some ts, og_ResourceKey := ar_ResourceKey req\<rparr>) (od_grants db2)"
    using w insert_policies_grants [OF s(2)] by (auto simp: write_grants_def split: if_splits)
  ultimately show "og_ID g = og_ID (ar_NewGrant req)" "og_ID g \<notin> fst ` set (od_grants db)"
    "od_grants db' = sql_update (\<lambda>k _. k = og_ID g) (\<lambda>g. g\<lparr>og_LastAuthorizedAt := Some ts, og_ResourceKey := ar_ResourceKey req\<rparr>) (od_grants db @ [(og_ID g, ?row)])"
    by (simp_all add: g g1)
qed

lemma create_grant_live:
  assumes c: "create_grant req ts db = Inr (g, db')" and inv: "oauth_inv db" and req: "request_ok req"
  shows "live_ids req db' = [og_ID g]" "live_ids req db = []" "\<exists>row. map_of (od_grants db') (og_ID g) = Some row \<and> og_Status row = OAuthGrantActive"
proof -
  note row = create_grant_row [OF c]
  have inv': "oauth_inv db'" using c inv by (rule create_grant_inv)
  define new where "new = (grant_row (grant_item (ar_NewGrant req) (ar_NewPrincipal req) (ar_NewProfile req) ts) ts)
    \<lparr>og_LastAuthorizedAt := Some ts, og_ResourceKey := ar_ResourceKey req\<rparr>"
  have mem: "(og_ID g, new) \<in> set (od_grants db')" unfolding row(3) by (auto simp: sql_update_def new_def)
  have live: "live_for (ar_ClientID req) (ar_UserID req) (ar_ResourceKey req) new" "og_Status new = OAuthGrantActive"
    using req by (simp_all add: new_def live_for_def live_grant_def request_ok_def grant_row_def grant_item_def)
  show ids: "live_ids req db' = [og_ID g]" using inv' mem live(1) by (rule live_ids_single)
  show "live_ids req db = []"
  proof (rule ccontr)
    assume "live_ids req db \<noteq> []"
    then obtain k h where h: "(k, h) \<in> set (od_grants db)" "live_for (ar_ClientID req) (ar_UserID req) (ar_ResourceKey req) h"
      by (auto simp: live_ids_def filter_empty_conv)
    with row(2) have "k \<noteq> og_ID g" by force
    with h(1) have "(k, h) \<in> set (od_grants db')" unfolding row(3) by (force simp: sql_update_def)
    from live_ids_single [OF inv' this h(2)] ids \<open>k \<noteq> og_ID g\<close> show False by simp
  qed
  from mem inv' have "map_of (od_grants db') (og_ID g) = Some new" by (simp add: oauth_inv_def grants_ok_def)
  with live(2) show "\<exists>row. map_of (od_grants db') (og_ID g) = Some row \<and> og_Status row = OAuthGrantActive" by blast
qed

lemma findLive_Some:
  assumes "findLiveOAuthGrantTx c u r db = Some g" "r \<noteq> []"
  shows "\<exists>k. (k, g) \<in> set (od_grants db) \<and> live_for c u r g"
proof -
  let ?l = "sort_key (\<lambda>g. - og_CreatedAt g) (filter (\<lambda>g. live_for c u r g \<and> joined_grant db g) (map snd (od_grants db)))"
  from assms obtain rest where "?l = g # rest" by (auto simp: findLiveOAuthGrantTx_def Let_def split: list.splits)
  then have "g \<in> set ?l" by (metis list.set_intros(1))
  then show ?thesis by auto
qed

lemma reuse_grant_row:
  assumes "reuse_grant req ts live db = Inr (g, db')"
  shows "\<exists>upd. od_grants db' = sql_update (\<lambda>k _. k = og_ID live) upd (od_grants db) \<and> og_ID g = og_ID live \<and>
    (\<forall>h. grant_key (upd h) = grant_key h \<and> og_RevokedAt (upd h) = og_RevokedAt h \<and>
       og_Status (upd h) = (if og_Status live = OAuthGrantNeedsReconsent then OAuthGrantActive else og_Status live))"
proof -
  define upd where "upd = (\<lambda>g :: OAuthGrant. g\<lparr>og_AccessLevel := ar_AccessLevel req, og_ResourceBoundaryJSON := stored_boundary (ar_BoundaryJSON req),
    og_OfflineAccess := og_OfflineAccess live \<or> ar_RequestOffline req,
    og_Status := if og_Status live = OAuthGrantNeedsReconsent then OAuthGrantActive else og_Status live, og_LastAuthorizedAt := Some ts\<rparr>)"
  have "od_grants db' = sql_update (\<lambda>k _. k = og_ID live) upd (od_grants db)" "og_ID g = og_ID live"
    using assms unfolding reuse_grant_def Let_def upd_def [symmetric] by (auto simp: write_grants_def upd_def split: if_splits)
  then show ?thesis by (intro exI [of _ upd]) (simp add: upd_def grant_key_def)
qed

lemma reuse_grant_live:
  assumes r: "reuse_grant req ts live db = Inr (g, db')" and inv: "oauth_inv db"
    and f: "(k, live) \<in> set (od_grants db)" "live_for (ar_ClientID req) (ar_UserID req) (ar_ResourceKey req) live"
  shows "live_ids req db' = [og_ID g]" "live_ids req db = [og_ID g]" "\<exists>row. map_of (od_grants db') (og_ID g) = Some row \<and> og_Status row = OAuthGrantActive"
proof -
  obtain upd where u: "od_grants db' = sql_update (\<lambda>k _. k = og_ID live) upd (od_grants db)" "og_ID g = og_ID live"
    "\<And>h. grant_key (upd h) = grant_key h" "\<And>h. og_RevokedAt (upd h) = og_RevokedAt h"
    "\<And>h. og_Status (upd h) = (if og_Status live = OAuthGrantNeedsReconsent then OAuthGrantActive else og_Status live)"
    using reuse_grant_row [OF r] by blast
  have k: "k = og_ID live" using inv f(1) by (auto simp: oauth_inv_def grants_ok_def list_all_iff)
  have inv': "oauth_inv db'" using r inv by (rule reuse_grant_inv)
  have mem: "(og_ID g, upd live) \<in> set (od_grants db')" using f(1) by (force simp: u(1,2) k sql_update_def)
  have st: "og_Status (upd live) = OAuthGrantActive" using f(2) u(5) by (auto simp: live_for_def live_grant_def)
  then have "live_for (ar_ClientID req) (ar_UserID req) (ar_ResourceKey req) (upd live)"
    using f(2) u(3,4) [of live] by (simp add: live_for_def live_grant_def grant_key_def)
  with inv' mem show "live_ids req db' = [og_ID g]" by (rule live_ids_single)
  show "live_ids req db = [og_ID g]" using live_ids_single [OF inv f] by (simp add: k u(2))
  from mem inv' have "map_of (od_grants db') (og_ID g) = Some (upd live)" by (simp add: oauth_inv_def grants_ok_def)
  with st show "\<exists>row. map_of (od_grants db') (og_ID g) = Some row \<and> og_Status row = OAuthGrantActive" by blast
qed

text \<open>
  C37. Authorizing a client again never makes a second authorization: after a successful transaction exactly one grant of the client, the user
  and the resource is live, it is the one returned, it is active, and it is the one that was live before if there was
  one; the stored code is bound to it.
\<close>
theorem authorization_keeps_one_live_grant:
  assumes "(oauth_step UNIV)\<^sup>*\<^sup>* empty_oauth db" "request_ok req" "authorizeOAuthClientOnce req ts db = (Inr (g, code), db')"
  shows "live_ids req db' = [og_ID g] \<and> live_ids req db \<in> {[], [og_ID g]} \<and>
    (\<exists>row. map_of (od_grants db') (og_ID g) = Some row \<and> og_Status row = OAuthGrantActive) \<and>
    map_of (od_codes db') (oc_CodeHash code) = Some code \<and> oc_GrantID code = og_ID g"
proof -
  have inv: "oauth_inv db" using oa.reached_inv [OF refl assms(1)] .
  obtain tx where tx: "(case findLiveOAuthGrantTx (ar_ClientID req) (ar_UserID req) (ar_ResourceKey req) db of
      Some live \<Rightarrow> reuse_grant req ts live db | None \<Rightarrow> create_grant req ts db) = Inr (g, tx)"
    and c: "insert_code code tx = Inr db'" "oc_GrantID code = og_ID g"
    using assms(3) by (auto simp: authorizeOAuthClientOnce_def Let_def split: sum.splits prod.splits)
  have codes: "od_grants db' = od_grants tx" "map_of (od_codes db') (oc_CodeHash code) = Some code"
    using c(1) by (auto simp: insert_code_def map_add_def map_of_eq_None_iff [symmetric] split: if_splits option.splits)
  have ids: "live_ids req db' = live_ids req tx" by (simp add: live_ids_def codes(1))
  show ?thesis
  proof (cases "findLiveOAuthGrantTx (ar_ClientID req) (ar_UserID req) (ar_ResourceKey req) db")
    case None
    with tx have "create_grant req ts db = Inr (g, tx)" by simp
    from create_grant_live [OF this inv assms(2)] c(2) codes ids show ?thesis by simp
  next
    case (Some live)
    with tx have r: "reuse_grant req ts live db = Inr (g, tx)" by simp
    obtain k where k: "(k, live) \<in> set (od_grants db)" "live_for (ar_ClientID req) (ar_UserID req) (ar_ResourceKey req) live"
      using findLive_Some [OF Some] assms(2) by (auto simp: request_ok_def)
    from reuse_grant_live [OF r inv k] c(2) codes ids show ?thesis by simp
  qed
qed

section \<open>An example history\<close>

definition demo_client :: OAuthClient where
  "demo_client = \<lparr>cli_ID = ''app'', cli_IdentityType = [], cli_Enabled = True\<rparr>"

definition demo_oauth_grant :: OAuthGrant where
  "demo_oauth_grant = \<lparr>og_ID = ''g1'', og_ClientID = ''app'', og_UserID = 1, og_PrincipalID = [], og_AccessLevel = ''read'', og_ResourceBoundaryJSON = [],
     og_ApprovalProfileID = [], og_OfflineAccess = True, og_PolicyVersion = 1, og_RoleVersion = 1, og_ConsentVersion = 2, og_Status = OAuthGrantActive,
     og_ResourceKey = OAuthResourceKeyMCP, og_CreatedAt = 0, og_LastAuthorizedAt = None, og_ExpiresAt = None, og_LastUsedAt = None, og_RevokedAt = None,
     og_RevokeReason = []\<rparr>"

definition demo_request :: OAuthAuthorizeRequest where
  "demo_request = \<lparr>ar_ClientID = ''app'', ar_UserID = 1, ar_ResourceKey = OAuthResourceKeyMCP, ar_RequestOffline = True, ar_AccessLevel = ''read'',
     ar_BoundaryJSON = [], ar_PrincipalResourceFilter = [], ar_NewGrant = demo_oauth_grant,
     ar_NewPrincipal = \<lparr>apr_ID = ''p1'', apr_Type = APIPrincipalOAuth, apr_Enabled = True, apr_Scopes = [], apr_ResourceFilter = [], apr_ExpiresAt = None,
       apr_LastUsedAt = None, apr_UpdatedAt = 0\<rparr>,
     ar_NewProfile = \<lparr>opf_ID = ''f1'', opf_AutoApproveRisk = 3\<rparr>, ar_NewPolicies = [],
     ar_Code = \<lparr>oc_CodeHash = ''c1'', oc_GrantID = [], oc_ClientID = ''app'', oc_UserID = 1, oc_PrincipalID = [], oc_RedirectURI = ''cb'', oc_Resource = ''mcp'',
       oc_CodeChallenge = ''x'', oc_Scopes = [ScopeRead, ScopeOffline], oc_ExpiresAt = 60, oc_CreatedAt = 0\<rparr>\<rparr>"

definition demo_token :: "string \<Rightarrow> string \<Rightarrow> OAuthToken" where
  "demo_token h parent = \<lparr>ot_TokenHash = h, ot_FamilyID = ''fam'', ot_GrantID = ''g1'', ot_ParentTokenHash = parent, ot_PrincipalID = ''p1'', ot_ClientID = ''app'',
     ot_UserID = 1, ot_Resource = ''mcp'', ot_ExpiresAt = 900, ot_ConsumedAt = None, ot_RevokedAt = None, ot_ReuseDetectedAt = None, ot_CreatedAt = 2\<rparr>"

definition demo_registered :: oauth_db where
  "demo_registered = snd (CreateOAuthClient demo_client (empty_oauth\<lparr>od_users := AList.update 1 (RoleViewer, ''active'') (od_users empty_oauth)\<rparr>))"

definition demo_authorized :: oauth_db where
  "demo_authorized = snd (authorizeOAuthClientOnce demo_request 1 demo_registered)"

definition demo_issued :: oauth_db where
  "demo_issued = snd (CreateOAuthTokens (demo_token ''a1'' []) (Some (demo_token ''r1'' [])) 2 demo_authorized)"

definition demo_rotated :: oauth_db where
  "demo_rotated = snd (ConsumeOAuthRefreshToken ''r1'' 10 0 demo_issued)"

lemmas oauth_run = rtranclp.rtrancl_into_rtrancl [where r = "oauth_step H" for H]

lemma demo_registered_reached: "(oauth_step UNIV)\<^sup>*\<^sup>* empty_oauth demo_registered"
  unfolding demo_registered_def by (intro oauth_run [OF oauth_run [OF rtranclp.rtrancl_refl users] create_client])

lemma demo_issued_reached: "(oauth_step UNIV)\<^sup>*\<^sup>* empty_oauth demo_issued"
  unfolding demo_issued_def demo_authorized_def
  by (rule oauth_run, rule oauth_run [OF demo_registered_reached authorize], simp_all, rule create_tokens, simp_all)

lemma demo_rotated_reached: "(oauth_step UNIV)\<^sup>*\<^sup>* empty_oauth demo_rotated"
  unfolding demo_rotated_def by (rule oauth_run [OF demo_issued_reached consume_refresh])

lemma demo_rotates: "ConsumeOAuthRefreshToken ''r1'' 10 0 demo_issued = (Rotated (demo_token ''r1'' []), demo_rotated)"
  unfolding demo_rotated_def by (rule prod_eqI) (simp_all, code_simp)

theorem refresh_token_rotates_once_witness:
  "fst (ConsumeOAuthRefreshToken ''r1'' 11 0 demo_rotated) \<noteq> Rotated (demo_token ''r1'' [])"
  by (rule refresh_token_rotates_once [where H = "{}", OF demo_issued_reached demo_rotates]) simp_all

theorem reuse_revokes_family_witness:
  "AuthenticateMCPAccessToken ''a1'' ''mcp'' 21 (snd (ConsumeOAuthRefreshToken ''r1'' 20 5 demo_rotated)) = Inl sql_ErrNoRows \<and>
     AuthenticateMCPAccessToken ''a1'' ''mcp'' 19 demo_rotated = Inr (demo_token ''a1'' [], RoleViewer, ''active'')"
proof -
  let ?db = "snd (ConsumeOAuthRefreshToken ''r1'' 20 5 demo_rotated)" and ?t = "(demo_token ''a1'' [])\<lparr>ot_RevokedAt := Some 20\<rparr>"
  have a: "map_of (od_access ?db) ''a1'' = Some ?t" by code_simp
  have r: "map_of (od_refresh demo_rotated) ''r1'' = Some ((demo_token ''r1'' [])\<lparr>ot_ConsumedAt := Some 10\<rparr>)" by code_simp
  have "AuthenticateMCPAccessToken ''a1'' ''mcp'' 21 ?db = Inl sql_ErrNoRows"
    using reuse_revokes_family [where H = "{}" and H' = "{}" and k = "''a1''" and t = ?t and grace = 5 and at' = 20,
        OF demo_issued_reached demo_rotates rtranclp.rtrancl_refl _ _ _ prod.collapse [symmetric] rtranclp.rtrancl_refl] a r
    by (simp add: demo_token_def)
  moreover have "AuthenticateMCPAccessToken ''a1'' ''mcp'' 19 demo_rotated = Inr (demo_token ''a1'' [], RoleViewer, ''active'')" by code_simp
  ultimately show ?thesis by simp
qed

theorem authorization_keeps_one_live_grant_witness:
  "live_ids demo_request demo_authorized = [''g1'']"
proof -
  have "fst (authorizeOAuthClientOnce demo_request 1 demo_registered) =
      Inr (demo_oauth_grant\<lparr>og_PrincipalID := ''p1'', og_ApprovalProfileID := ''f1'', og_CreatedAt := 1, og_LastAuthorizedAt := Some 1\<rparr>,
        (ar_Code demo_request)\<lparr>oc_GrantID := ''g1'', oc_PrincipalID := ''p1'', oc_CreatedAt := 1\<rparr>)" by code_simp
  then have e: "authorizeOAuthClientOnce demo_request 1 demo_registered =
      (Inr (demo_oauth_grant\<lparr>og_PrincipalID := ''p1'', og_ApprovalProfileID := ''f1'', og_CreatedAt := 1, og_LastAuthorizedAt := Some 1\<rparr>,
        (ar_Code demo_request)\<lparr>oc_GrantID := ''g1'', oc_PrincipalID := ''p1'', oc_CreatedAt := 1\<rparr>), demo_authorized)"
    by (simp add: demo_authorized_def prod_eq_iff)
  have "request_ok demo_request" by code_simp
  from authorization_keeps_one_live_grant [OF demo_registered_reached this e] show ?thesis by (simp add: demo_oauth_grant_def)
qed

end
