(* ===== verification/OAuth_Tokens.thy ===== *)
theory OAuth_Tokens
  imports OAuth_Store
begin

text \<open>
  The token endpoint of \<open>internal/controller/oauth.go\<close> and the authentication of MCP calls of \<open>mcp_auth.go\<close>, on the
  tables of \<open>OAuth_Store\<close>. The keyed hash of a secret, the SHA-256 challenge of a verifier, the random tokens, the
  clock readings, the capability descriptors of the catalogue and the JSON decoder of a boundary are arguments. What
  other requests commit between two statements of a handler is a function on the tables, so a fact for every such
  function is a fact for every interleaving. Audit log entries, response headers and the mutexes that
  serialize requests with the same refresh token are left out.
\<close>

section \<open>The token endpoint\<close>

definition oauthAccessTokenTTL :: duration where "oauthAccessTokenTTL = 15 * minute"
definition oauthRefreshTokenTTL :: duration where "oauthRefreshTokenTTL = 30 * 24 * hour"
definition oauthRefreshReplayGrace :: duration where "oauthRefreshReplayGrace = 30 * second"

record token_form =
  tf_code :: string
  tf_client_id :: string
  tf_redirect_uri :: string
  tf_code_verifier :: string
  tf_resource :: string
  tf_refresh_token :: string

text \<open>The random strings a request draws, each with the error of a generator that fails, and the clock readings in order.\<close>

record token_random =
  rn_access :: "string result"
  rn_refresh :: "string result"
  rn_family :: "string result"

record token_clock =
  ck_consume :: time
  ck_grant :: time
  ck_now :: time
  ck_write :: time

record token_response =
  rp_access_token :: string
  rp_token_type :: string
  rp_expires_in :: int
  rp_scope :: string
  rp_resource :: string
  rp_refresh_token :: "string option"

datatype token_reply = Token_Error int string string | Token_Response token_response | Rate_Limited

record oauthRefreshReplay =
  rr_response :: token_response
  rr_clientID :: string
  rr_resource :: string
  rr_expiresAt :: time

record oauth_server =
  sr_grace :: duration
  sr_replays :: "(string, oauthRefreshReplay) gomap"

definition pkceMatches :: "(string \<Rightarrow> string) \<Rightarrow> string \<Rightarrow> string \<Rightarrow> bool" where
  "pkceMatches s256 challenge verifier = (if length verifier < 43 \<or> length verifier > 128 then False else challenge = s256 verifier)"

definition mcpAccessLevelForRole :: "Role \<Rightarrow> AccessLevel" where
  "mcpAccessLevelForRole role = (if RoleRank role \<ge> 2 then AccessOperate else if RoleRank role \<ge> 1 then AccessRead else [])"

fun join_words :: "string list \<Rightarrow> string" where
  "join_words [] = []"
| "join_words [w] = w"
| "join_words (w # ws) = w @ '' '' @ join_words ws"

definition rememberOAuthRefreshReplay :: "string \<Rightarrow> string \<Rightarrow> string \<Rightarrow> token_response \<Rightarrow> time \<Rightarrow> oauth_server \<Rightarrow> oauth_server" where
  "rememberOAuthRefreshReplay tokenHash clientID resource response at s =
     (if tokenHash = [] \<or> sr_grace s \<le> 0 then s
      else s\<lparr>sr_replays := AList.update tokenHash
             \<lparr>rr_response = response, rr_clientID = clientID, rr_resource = resource, rr_expiresAt = at + sr_grace s\<rparr>
             (filter (\<lambda>(h, e). at < rr_expiresAt e) (sr_replays s))\<rparr>)"

definition oauthRefreshReplayResponse :: "string \<Rightarrow> string \<Rightarrow> string \<Rightarrow> time \<Rightarrow> oauth_server \<Rightarrow> token_response option \<times> oauth_server" where
  "oauthRefreshReplayResponse tokenHash clientID resource at s =
     (case map_of (sr_replays s) tokenHash of
        None \<Rightarrow> (None, s)
      | Some entry \<Rightarrow>
          if \<not> at < rr_expiresAt entry then (None, s\<lparr>sr_replays := AList.delete tokenHash (sr_replays s)\<rparr>)
          else if rr_clientID entry \<noteq> clientID \<or> rr_resource entry \<noteq> resource then (None, s)
          else (Some (rr_response entry), s))"

text \<open>Whom the tokens are for.\<close>

record token_subject =
  su_grantID :: string
  su_principalID :: string
  su_clientID :: string
  su_userID :: int
  su_resource :: string

text \<open>
  The checks on the current rows. The grant, the client, the user and the groups of the user are read one after the
  other; \<open>others k\<close> is what other requests commit before the \<open>k\<close>-th of the handler's statements. The result is the
  refusal, or the grant with the effective role of the user, and the tables at that moment.
\<close>

definition issue_check :: "token_subject \<Rightarrow> time \<Rightarrow> (nat \<Rightarrow> oauth_db \<Rightarrow> oauth_db) \<Rightarrow> oauth_db \<Rightarrow> (token_reply + (OAuthGrant \<times> Role)) \<times> oauth_db" where
  "issue_check su at others db =
     (let db1 = others 1 db; db2 = others 2 db1; db3 = others 3 db2; db4 = others 4 db3 in
      case GetOAuthGrant (su_grantID su) db1 of
        Inl _ \<Rightarrow> (Inl (Token_Error 400 ''invalid_grant'' ''OAuth grant is no longer active''), db1)
      | Inr grant \<Rightarrow>
          if og_RevokedAt grant \<noteq> None \<or> og_Status grant \<noteq> OAuthGrantActive \<or> (case og_ExpiresAt grant of None \<Rightarrow> False | Some e \<Rightarrow> \<not> at < e) \<or>
             og_PrincipalID grant \<noteq> su_principalID su \<or> og_ClientID grant \<noteq> su_clientID su \<or> og_UserID grant \<noteq> su_userID su
          then (Inl (Token_Error 400 ''invalid_grant'' ''OAuth grant is no longer active''), db1)
          else
            (case GetOAuthClient (su_clientID su) db2 of
               Inl _ \<Rightarrow> (Inl (Token_Error 400 ''invalid_grant'' ''OAuth client is disabled''), db2)
             | Inr client \<Rightarrow>
                 if \<not> cli_Enabled client then (Inl (Token_Error 400 ''invalid_grant'' ''OAuth client is disabled''), db2)
                 else
                   (case map_of (od_users db3) (su_userID su) of
                      None \<Rightarrow> (Inl (Token_Error 400 ''invalid_grant'' ''user is no longer authorized''), db3)
                    | Some (role, _) \<Rightarrow>
                        if mcpAccessLevelForRole (EffectiveUserRole (su_userID su) role db4) = []
                        then (Inl (Token_Error 400 ''invalid_grant'' ''user is no longer authorized for the requested scopes''), db4)
                        else (Inr (grant, EffectiveUserRole (su_userID su) role db4), db4))))"

definition access_token :: "(string \<Rightarrow> string) \<Rightarrow> token_subject \<Rightarrow> string \<Rightarrow> time \<Rightarrow> OAuthToken" where
  "access_token hash su raw now =
     \<lparr>ot_TokenHash = hash (''oba_'' @ raw), ot_FamilyID = [], ot_GrantID = su_grantID su, ot_ParentTokenHash = [], ot_PrincipalID = su_principalID su,
      ot_ClientID = su_clientID su, ot_UserID = su_userID su, ot_Resource = su_resource su, ot_ExpiresAt = now + oauthAccessTokenTTL,
      ot_ConsumedAt = None, ot_RevokedAt = None, ot_ReuseDetectedAt = None, ot_CreatedAt = 0\<rparr>"

definition refresh_token :: "(string \<Rightarrow> string) \<Rightarrow> token_subject \<Rightarrow> string \<Rightarrow> string \<Rightarrow> string \<Rightarrow> time \<Rightarrow> OAuthToken" where
  "refresh_token hash su raw familyID parent now =
     (access_token hash su raw now)\<lparr>ot_TokenHash := hash (''obr_'' @ raw), ot_FamilyID := familyID, ot_ParentTokenHash := parent,
        ot_ExpiresAt := now + oauthRefreshTokenTTL\<rparr>"

definition token_reply_for :: "token_subject \<Rightarrow> OAuthGrant \<Rightarrow> Role \<Rightarrow> string \<Rightarrow> string option \<Rightarrow> token_response" where
  "token_reply_for su grant role accessRaw refreshRaw =
     \<lparr>rp_access_token = ''oba_'' @ accessRaw, rp_token_type = ''Bearer'', rp_expires_in = oauthAccessTokenTTL div second,
      rp_scope = join_words (NormalizedScopes (mcpAccessLevelForRole role) (og_OfflineAccess grant)), rp_resource = su_resource su,
      rp_refresh_token = map_option (\<lambda>raw. ''obr_'' @ raw) refreshRaw\<rparr>"

text \<open>The random part of a refresh token, when the grant and the request ask for one.\<close>

definition draw_refresh :: "token_random \<Rightarrow> bool \<Rightarrow> string option result" where
  "draw_refresh rnd issueRefresh =
     (if \<not> issueRefresh then Inr None else case rn_refresh rnd of Inl e \<Rightarrow> Inl e | Inr raw \<Rightarrow> Inr (Some raw))"

definition family_for :: "token_random \<Rightarrow> string \<Rightarrow> string" where
  "family_for rnd familyID = (if familyID = [] then (case rn_family rnd of Inl _ \<Rightarrow> [] | Inr f \<Rightarrow> f) else familyID)"

definition issueOAuthTokens :: "(string \<Rightarrow> string) \<Rightarrow> token_random \<Rightarrow> string \<Rightarrow> token_subject \<Rightarrow> string \<Rightarrow> string \<Rightarrow> bool \<Rightarrow> token_clock \<Rightarrow>
    (nat \<Rightarrow> oauth_db \<Rightarrow> oauth_db) \<Rightarrow> oauth_db \<Rightarrow> oauth_server \<Rightarrow> token_reply \<times> oauth_db \<times> oauth_server" where
  "issueOAuthTokens hash rnd flow su familyID parent requestOffline ck others db s =
     (case issue_check su (ck_grant ck) others db of
        (Inl e, db) \<Rightarrow> (e, db, s)
      | (Inr (grant, role), db) \<Rightarrow>
          (case rn_access rnd of
             Inl e \<Rightarrow> (Token_Error 500 ''server_error'' e, db, s)
           | Inr accessRaw \<Rightarrow>
               (case draw_refresh rnd (og_OfflineAccess grant \<and> (flow = ''refresh_token'' \<or> requestOffline)) of
                  Inl e \<Rightarrow> (Token_Error 500 ''server_error'' e, db, s)
                | Inr refreshRaw \<Rightarrow>
                    (case CreateOAuthTokens (access_token hash su accessRaw (ck_now ck))
                            (map_option (\<lambda>raw. refresh_token hash su raw (family_for rnd familyID) parent (ck_now ck)) refreshRaw) (ck_write ck) (others 5 db) of
                       (Inl e, db) \<Rightarrow> (Token_Error 500 ''server_error'' e, db, s)
                     | (Inr _, db) \<Rightarrow>
                         let response = token_reply_for su grant role accessRaw refreshRaw
                         in (Token_Response response, db,
                             if flow = ''refresh_token'' then rememberOAuthRefreshReplay parent (su_clientID su) (su_resource su) response (ck_now ck) s else s)))))"

definition code_subject :: "OAuthAuthorizationCode \<Rightarrow> token_subject" where
  "code_subject code = \<lparr>su_grantID = oc_GrantID code, su_principalID = oc_PrincipalID code, su_clientID = oc_ClientID code, su_userID = oc_UserID code,
     su_resource = oc_Resource code\<rparr>"

definition refresh_subject :: "OAuthToken \<Rightarrow> token_subject" where
  "refresh_subject refresh = \<lparr>su_grantID = ot_GrantID refresh, su_principalID = ot_PrincipalID refresh, su_clientID = ot_ClientID refresh,
     su_userID = ot_UserID refresh, su_resource = ot_Resource refresh\<rparr>"

definition oauthExchangeCode :: "(string \<Rightarrow> string) \<Rightarrow> (string \<Rightarrow> string) \<Rightarrow> token_random \<Rightarrow> token_form \<Rightarrow> token_clock \<Rightarrow> (nat \<Rightarrow> oauth_db \<Rightarrow> oauth_db) \<Rightarrow>
    oauth_db \<Rightarrow> oauth_server \<Rightarrow> token_reply \<times> oauth_db \<times> oauth_server" where
  "oauthExchangeCode hash s256 rnd form ck others db s =
     (case ConsumeOAuthAuthorizationCode (hash (tf_code form)) db of
        (Inl _, db) \<Rightarrow> (Token_Error 400 ''invalid_grant'' ''authorization code is invalid'', db, s)
      | (Inr code, db) \<Rightarrow>
          if \<not> ck_consume ck < oc_ExpiresAt code \<or> oc_ClientID code \<noteq> tf_client_id form \<or> oc_RedirectURI code \<noteq> tf_redirect_uri form \<or>
             \<not> pkceMatches s256 (oc_CodeChallenge code) (tf_code_verifier form) \<or> oc_Resource code \<noteq> tf_resource form
          then (Token_Error 400 ''invalid_grant'' ''authorization code is invalid'', db, s)
          else issueOAuthTokens hash rnd ''authorization_code'' (code_subject code) [] [] (RequestsOffline (oc_Scopes code)) ck others db s)"

definition oauthReplayRefresh :: "OAuthToken \<Rightarrow> string \<Rightarrow> string \<Rightarrow> string \<Rightarrow> time \<Rightarrow> oauth_server \<Rightarrow> token_reply \<times> oauth_server" where
  "oauthReplayRefresh refresh tokenHash clientID resource at s =
     (if ot_ClientID refresh \<noteq> clientID \<or> ot_Resource refresh \<noteq> resource then (Token_Error 400 ''invalid_grant'' ''refresh token is invalid'', s)
      else (case oauthRefreshReplayResponse tokenHash clientID resource at s of
              (None, s) \<Rightarrow> (Token_Error 400 ''invalid_grant'' ''refresh token was already rotated; retry with the newest refresh token'', s)
            | (Some response, s) \<Rightarrow> (Token_Response response, s)))"

definition oauthExchangeRefresh :: "(string \<Rightarrow> string) \<Rightarrow> token_random \<Rightarrow> token_form \<Rightarrow> token_clock \<Rightarrow> (nat \<Rightarrow> oauth_db \<Rightarrow> oauth_db) \<Rightarrow>
    oauth_db \<Rightarrow> oauth_server \<Rightarrow> token_reply \<times> oauth_db \<times> oauth_server" where
  "oauthExchangeRefresh hash rnd form ck others db s =
     (let tokenHash = hash (tf_refresh_token form) in
      case ConsumeOAuthRefreshToken tokenHash (ck_consume ck) (sr_grace s) db of
        (Replayed refresh, db) \<Rightarrow>
          (case oauthReplayRefresh refresh tokenHash (tf_client_id form) (tf_resource form) (ck_consume ck) s of (reply, s) \<Rightarrow> (reply, db, s))
      | (Reused refresh, db) \<Rightarrow> (Token_Error 400 ''invalid_grant'' ''refresh token reuse detected; token family revoked'', db, s)
      | (Refused e, db) \<Rightarrow> (Token_Error 400 ''invalid_grant'' ''refresh token is invalid'', db, s)
      | (Rotated refresh, db) \<Rightarrow>
          if ot_ClientID refresh \<noteq> tf_client_id form \<or> ot_Resource refresh \<noteq> tf_resource form
          then (Token_Error 400 ''invalid_grant'' ''refresh token is invalid'', db, s)
          else issueOAuthTokens hash rnd ''refresh_token'' (refresh_subject refresh) (ot_FamilyID refresh) (ot_TokenHash refresh) True ck others db s)"

text \<open>\<open>None\<close> is a form that cannot be parsed; the rate limiter has answered the request it refuses.\<close>

definition oauthToken :: "(string \<Rightarrow> string) \<Rightarrow> (string \<Rightarrow> string) \<Rightarrow> token_random \<Rightarrow> string \<Rightarrow> bool \<Rightarrow> (string \<times> token_form) option \<Rightarrow> token_clock \<Rightarrow>
    (nat \<Rightarrow> oauth_db \<Rightarrow> oauth_db) \<Rightarrow> oauth_db \<Rightarrow> oauth_server \<Rightarrow> token_reply \<times> oauth_db \<times> oauth_server" where
  "oauthToken hash s256 rnd reqMethod allowed request ck others db s =
     (if reqMethod \<noteq> ''POST'' then (Token_Error 405 ''invalid_request'' ''method not allowed'', db, s)
      else if \<not> allowed then (Rate_Limited, db, s)
      else case request of
             None \<Rightarrow> (Token_Error 400 ''invalid_request'' ''invalid token request'', db, s)
           | Some (grant_type, form) \<Rightarrow>
               if grant_type = ''authorization_code'' then oauthExchangeCode hash s256 rnd form ck others db s
               else if grant_type = ''refresh_token'' then oauthExchangeRefresh hash rnd form ck others db s
               else (Token_Error 400 ''unsupported_grant_type'' ''unsupported grant_type'', db, s))"

definition oauthRevoke :: "(string \<Rightarrow> string) \<Rightarrow> string \<Rightarrow> string option \<Rightarrow> time \<Rightarrow> (nat \<Rightarrow> oauth_db \<Rightarrow> oauth_db) \<Rightarrow> oauth_db \<Rightarrow> int \<times> oauth_db" where
  "oauthRevoke hash reqMethod tok ts others db =
     (if reqMethod \<noteq> ''POST'' then (405, db)
      else case tok of None \<Rightarrow> (200, db) | Some raw \<Rightarrow> (200, snd (RevokeOAuthToken (hash raw) ts others db)))"

section \<open>Authentication of MCP calls\<close>

text \<open>A capability descriptor: name, permission, resource types.\<close>

type_synonym descriptor = "string \<times> string \<times> string list"

definition select_all :: ResourceSelection where
  "select_all = \<lparr>rs_Selection = SelectionAll, rs_IDs = [], rs_IncludeFuture = True, rs_AllowCreate = False\<rparr>"

definition oauthRoleBoundary :: "RBAC \<Rightarrow> (AccessLevel \<Rightarrow> Role \<Rightarrow> descriptor list) \<Rightarrow> Role \<Rightarrow> ResourceBoundary" where
  "oauthRoleBoundary rbac listMCP role =
     (let base = map (\<lambda>t. (t, select_all)) [''audit_incident'', ''certificate'', ''deployment'', ''external_outbound'', ''inbound'', ''proxy_path'', ''server'',
            ''subscription'', ''user'', ''workflow'', ''changeset''];
          allowed = filter (\<lambda>(name, permission, types). Allows rbac role permission) (listMCP (mcpAccessLevelForRole role) role);
          global = map fst (filter (\<lambda>(name, permission, types). types = []) allowed);
          resources = fold (\<lambda>t. AList.update t select_all) (concat (map (\<lambda>(name, permission, types). types) allowed)) base;
          resources = AList.update ''server'' ((the (map_of resources ''server''))\<lparr>rs_AllowCreate := Allows rbac role ''servers.onboard''\<rparr>) resources
      in Normalized \<lparr>rb_Version = ResourceBoundaryVersion, rb_Resources = resources, rb_GlobalCapabilities = global, rb_DestructiveOperations = False\<rparr>)"

definition strip_bearer :: "string \<Rightarrow> string option" where
  "strip_bearer header = (if take 7 (ToLower header) = ''bearer '' then Some (drop 7 header) else None)"

definition bearerToken :: "string \<Rightarrow> string option" where
  "bearerToken authorization =
     (case strip_bearer (TrimSpace authorization) of
        None \<Rightarrow> None
      | Some rest \<Rightarrow> if TrimSpace rest = [] then None else Some (TrimSpace rest))"

definition trim_slashes :: "string \<Rightarrow> string" where
  "trim_slashes s = rev (dropWhile (\<lambda>c. c = CHR ''/'') (rev s))"

definition loadPrivilegedGrantPolicy :: "(string \<Rightarrow> ResourceBoundary) \<Rightarrow> MCPPrivilegedGrant \<Rightarrow> time \<Rightarrow> PrivilegedGrantPolicy option" where
  "loadPrivilegedGrantPolicy parse item now =
     (if (case mp_RevokedAt item of None \<Rightarrow> False | Some t \<Rightarrow> \<not> IsZero t) then None
      else if (case mp_ExpiresAt item of None \<Rightarrow> False | Some t \<Rightarrow> \<not> IsZero t \<and> \<not> now < t) then None
      else Some \<lparr>pg_ID = mp_ID item, pg_OAuthGrantID = mp_OAuthGrantID item, pg_Capabilities = mp_Capabilities item,
             pg_ResourceBoundary = Normalized (parse (mp_ResourceBoundaryJSON item)), pg_ExpiresAt = mp_ExpiresAt item, pg_RevokedAt = mp_RevokedAt item,
             pg_Revision = mp_Revision item\<rparr>)"

datatype mcp_auth_reply = AuthenticationRequired | InvalidBearer | Authenticated GrantPrincipal

record mcp_env =
  me_hash :: "string \<Rightarrow> string"
  me_base :: "string option"
  me_rbac :: RBAC
  me_listMCP :: "AccessLevel \<Rightarrow> Role \<Rightarrow> descriptor list"
  me_parse :: "string \<Rightarrow> ResourceBoundary"
  me_metadataFresh :: "OAuthClient \<Rightarrow> bool"

definition grant_policy :: "mcp_env \<Rightarrow> OAuthGrant \<Rightarrow> OAuthApprovalProfile \<Rightarrow> Role \<Rightarrow> GrantPolicy" where
  "grant_policy env grant profile role =
     \<lparr>gp_GrantID = og_ID grant, gp_ClientID = og_ClientID grant, gp_UserID = FormatInt (og_UserID grant), gp_PrincipalID = og_PrincipalID grant,
      gp_AccessLevel = mcpAccessLevelForRole role, gp_ResourceBoundary = oauthRoleBoundary (me_rbac env) (me_listMCP env) role,
      gp_ApprovalProfile = og_ApprovalProfileID grant, gp_ApprovalMaxRisk = opf_AutoApproveRisk profile, gp_OfflineAccess = og_OfflineAccess grant,
      gp_PolicyVersion = og_PolicyVersion grant, gp_RoleVersion = og_RoleVersion grant, gp_ConsentVersion = og_ConsentVersion grant,
      gp_IssuedAt = og_CreatedAt grant, gp_ExpiresAt = og_ExpiresAt grant, gp_RevokedAt = og_RevokedAt grant\<rparr>"

definition privileged_policy :: "mcp_env \<Rightarrow> string \<Rightarrow> time \<Rightarrow> oauth_db \<Rightarrow> PrivilegedGrantPolicy option" where
  "privileged_policy env grantID now db =
     (case find (\<lambda>(k, item). mp_OAuthGrantID item = grantID) (od_privileged db) of
        None \<Rightarrow> None
      | Some (k, item) \<Rightarrow> loadPrivilegedGrantPolicy (me_parse env) item now)"

text \<open>
  The token, the grant, the groups of its user, the client and the privileged grant are read one after the other: \<open>db1\<close>,
  \<open>db2\<close>, \<open>dbg\<close>, \<open>db3\<close> and \<open>db4\<close> are the tables at each of these reads, \<open>t1\<close> to \<open>t3\<close> the clock readings for the token, the grant and the privileged grant.
  A refresh of the metadata of a client identified by its metadata document happens between the last two reads.
\<close>

definition mcpAuth :: "mcp_env \<Rightarrow> string \<Rightarrow> time \<Rightarrow> time \<Rightarrow> time \<Rightarrow> oauth_db \<Rightarrow> oauth_db \<Rightarrow> oauth_db \<Rightarrow> oauth_db \<Rightarrow> oauth_db \<Rightarrow> mcp_auth_reply" where
  "mcpAuth env authorization t1 t2 t3 db1 db2 dbg db3 db4 =
     (case bearerToken authorization of
        None \<Rightarrow> AuthenticationRequired
      | Some tok \<Rightarrow>
          if take 4 tok = ''obk_'' \<or> take 4 tok = ''obr_'' \<or> CHR '' '' \<in> set tok then InvalidBearer
          else
            (case me_base env of
               None \<Rightarrow> InvalidBearer
             | Some canonical \<Rightarrow>
                 (case AuthenticateMCPAccessToken (me_hash env tok) (trim_slashes canonical @ ''/api/v1/mcp'') t1 db1 of
                    Inl _ \<Rightarrow> InvalidBearer
                  | Inr (stored, _, userStatus) \<Rightarrow>
                      if userStatus \<noteq> ''active'' then InvalidBearer
                      else
                        (case ResolveActiveGrant (ot_GrantID stored) t2 db2 dbg of
                           Inl _ \<Rightarrow> InvalidBearer
                         | Inr (grant, profile, role) \<Rightarrow>
                             if role = RoleNone then InvalidBearer
                             else
                               (case GetOAuthClient (ot_ClientID stored) db3 of
                                  Inl _ \<Rightarrow> InvalidBearer
                                | Inr client \<Rightarrow>
                                    if \<not> cli_Enabled client \<or> (cli_IdentityType client = ''cimd'' \<and> \<not> me_metadataFresh env client) then InvalidBearer
                                    else Authenticated \<lparr>pr_Grant = grant_policy env grant profile role, pr_Role = role, pr_UserID = og_UserID grant,
                                           pr_ClientID = og_ClientID grant, pr_PrivilegedGrant = privileged_policy env (og_ID grant) t3 db4\<rparr>)))))"

section \<open>Authentication\<close>

lemma ResolveActiveGrantE:
  assumes "ResolveActiveGrant grantID at db dbg = Inr (g, profile, role)"
  obtains c r where "map_of (od_grants db) grantID = Some g" "og_RevokedAt g = None" "og_Status g = OAuthGrantActive"
    "map_of (od_clients db) (og_ClientID g) = Some c" "cli_Enabled c" "map_of (od_users db) (og_UserID g) = Some (r, ''active'')"
    "role = EffectiveUserRole (og_UserID g) r dbg" "case og_ExpiresAt g of None \<Rightarrow> True | Some e \<Rightarrow> at < e"
  using assms by (auto simp: ResolveActiveGrant_def split: option.splits if_splits)

lemma AuthenticateMCPAccessTokenE:
  assumes "AuthenticateMCPAccessToken h resource at db = Inr (t, role, status)"
  obtains "map_of (od_access db) h = Some t" "ot_RevokedAt t = None" "at < ot_ExpiresAt t" "ot_Resource t = resource"
    "map_of (od_users db) (ot_UserID t) = Some (role, status)"
  using assms by (auto simp: AuthenticateMCPAccessToken_def split: option.splits if_splits)

lemma mcpAuthE:
  assumes "mcpAuth env a t1 t2 t3 db1 db2 dbg db3 db4 = Authenticated p"
  obtains tok base t role0 g profile role where "bearerToken a = Some tok" "me_base env = Some base"
    "AuthenticateMCPAccessToken (me_hash env tok) (trim_slashes base @ ''/api/v1/mcp'') t1 db1 = Inr (t, role0, ''active'')"
    "ResolveActiveGrant (ot_GrantID t) t2 db2 dbg = Inr (g, profile, role)" "role \<noteq> RoleNone"
    "p = \<lparr>pr_Grant = grant_policy env g profile role, pr_Role = role, pr_UserID = og_UserID g, pr_ClientID = og_ClientID g,
       pr_PrivilegedGrant = privileged_policy env (og_ID g) t3 db4\<rparr>"
  using assms unfolding mcpAuth_def by (auto split: option.splits sum.splits prod.splits if_splits)

section \<open>Revoked grants\<close>

lemma grant_row_key: "oauth_inv db \<Longrightarrow> map_of (od_grants db) k = Some g \<Longrightarrow> og_ID g = k"
  by (auto simp: oauth_inv_def grants_ok_def list_all_iff dest: map_of_SomeD)

lemma disable_grant_grants: "od_grants (disable_grant ts grantID principalID db) = od_grants db"
  by (simp add: disable_grant_def Let_def invalidateOAuthGrantConsumablesTx_def revoke_access_def revoke_refresh_def)

lemma revoked_rows: "RevokeOAuthGrantReason grantID ts reason db = (Inr (), db') \<Longrightarrow> (grantID, g) \<in> set (od_grants db') \<Longrightarrow> og_RevokedAt g \<noteq> None"
  by (auto simp: RevokeOAuthGrantReason_def disable_grant_grants sql_update_def split: option.splits if_splits)

lemma revoked_forever:
  assumes "RevokeOAuthGrantReason grantID ts reason db0 = (Inr (), db)" "(oauth_step H)\<^sup>*\<^sup>* db db'" "grantID \<notin> H"
    "map_of (od_grants db') grantID = Some g"
  shows "og_RevokedAt g \<noteq> None"
proof -
  have "tracks grant_later H (od_grants db) (od_grants db')" using oauth_steps_later [OF assms(2)] by (simp add: db_later_def)
  from tracked_row [OF this assms(4,3)] obtain r where "(grantID, r) \<in> set (od_grants db)" "grant_later r g" by blast
  with revoked_rows [OF assms(1)] show ?thesis by (auto simp: grant_later_def)
qed

lemma issue_checkE:
  assumes "issue_check su at others db = (Inr (g, role), db')"
  obtains "GetOAuthGrant (su_grantID su) (others 1 db) = Inr g" "og_RevokedAt g = None"
  using assms unfolding issue_check_def Let_def by (auto split: option.splits sum.splits prod.splits if_splits)

lemma GetOAuthGrant_row: "GetOAuthGrant k db = Inr g \<Longrightarrow> \<exists>g'. map_of (od_grants db) k = Some g' \<and> og_RevokedAt g = og_RevokedAt g'"
  by (auto simp: GetOAuthGrant_def split: option.splits if_splits)

text \<open>
  C3. Revoking a grant is final. Whatever transactions follow the revocation, a call whose grant is read afterwards is
  not authenticated under it, and the token endpoint hands out no tokens for it when it reads the grant afterwards,
  whichever tokens and codes were issued before.
\<close>
theorem revoked_grant_stays_dead:
  assumes "RevokeOAuthGrantReason grantID ts reason db0 = (Inr (), db)" "(oauth_step UNIV)\<^sup>*\<^sup>* empty_oauth db0"
    "(oauth_step H)\<^sup>*\<^sup>* db db'" "grantID \<notin> H"
  shows "(mcpAuth env a t1 t2 t3 db1 db' dbg db3 db4 = Authenticated p \<longrightarrow> gp_GrantID (pr_Grant p) \<noteq> grantID) \<and>
    (others 1 db5 = db' \<and> su_grantID su = grantID \<longrightarrow>
      fst (issueOAuthTokens hash rnd flow su familyID parent offline ck others db5 s) \<noteq> Token_Response r)"
proof -
  have "db = snd (RevokeOAuthGrantReason grantID ts reason db0)" using assms(1) by simp
  then have "oauth_inv db" using oauth_step_inv [OF revoke_grant oa.reached_inv [OF refl assms(2)]] by simp
  with assms(3) have inv: "oauth_inv db'" by (rule oa.steps_inv)
  note dead = revoked_forever [OF assms(1,3,4)]
  have "gp_GrantID (pr_Grant p) \<noteq> grantID" if "mcpAuth env a t1 t2 t3 db1 db' dbg db3 db4 = Authenticated p"
    using that
  proof (rule mcpAuthE)
    fix tok base t role0 g profile role
    assume g: "ResolveActiveGrant (ot_GrantID t) t2 db' dbg = Inr (g, profile, role)"
      and p: "p = \<lparr>pr_Grant = grant_policy env g profile role, pr_Role = role, pr_UserID = og_UserID g, pr_ClientID = og_ClientID g,
        pr_PrivilegedGrant = privileged_policy env (og_ID g) t3 db4\<rparr>"
    from g have row: "map_of (od_grants db') (ot_GrantID t) = Some g" "og_RevokedAt g = None" by (auto elim: ResolveActiveGrantE)
    with grant_row_key [OF inv row(1)] dead show ?thesis by (auto simp: p grant_policy_def)
  qed
  moreover have "fst (issueOAuthTokens hash rnd flow su familyID parent offline ck others db5 s) \<noteq> Token_Response r"
    if o: "others 1 db5 = db'" "su_grantID su = grantID"
  proof (cases "issue_check su (ck_grant ck) others db5")
    case (Pair res db6)
    show ?thesis
    proof (cases res)
      case (Inl e)
      with Pair show ?thesis unfolding issueOAuthTokens_def issue_check_def Let_def
        by (auto split: option.splits sum.splits prod.splits if_splits)
    next
      case (Inr gr)
      obtain g role where "gr = (g, role)" by (cases gr)
      with Inr Pair issue_checkE GetOAuthGrant_row dead o show ?thesis by metis
    qed
  qed
  ultimately show ?thesis by blast
qed

section \<open>Refresh replays\<close>

lemma issue_remembers:
  assumes "issueOAuthTokens hash rnd ''refresh_token'' su familyID parent offline ck others db s = (Token_Response r, db', s')"
  shows "s' = rememberOAuthRefreshReplay parent (su_clientID su) (su_resource su) r (ck_now ck) s"
  using assms unfolding issueOAuthTokens_def issue_check_def Let_def
  by (auto split: option.splits sum.splits prod.splits if_splits)

lemma remembered_replay:
  assumes "parent \<noteq> []" "0 < sr_grace s" "at' < at + sr_grace s"
  shows "oauthRefreshReplayResponse parent clientID resource at' (rememberOAuthRefreshReplay parent clientID resource r at s) =
    (Some r, rememberOAuthRefreshReplay parent clientID resource r at s)"
  using assms by (simp add: oauthRefreshReplayResponse_def rememberOAuthRefreshReplay_def update_conv')

text \<open>
  C38. A client that loses the race to rotate a refresh token gets the credentials that won. After a rotation of a token
  that answered with new tokens, presenting the same token again with the same client and resource within the grace
  period returns exactly that answer, leaves the tables and the remembered answers as they are and creates no tokens, as long
  as the family of the token has not been revoked.
\<close>
theorem replayed_refresh_returns_winner:
  assumes "oauthExchangeRefresh hash rnd form ck others db s = (Token_Response r, db', s')"
    and "fst (ConsumeOAuthRefreshToken (hash (tf_refresh_token form)) (ck_consume ck) (sr_grace s) db) = Rotated item"
    and "ot_TokenHash item = hash (tf_refresh_token form)" "hash (tf_refresh_token form) \<noteq> []" "0 < sr_grace s"
    and "map_of (od_refresh db'') (hash (tf_refresh_token form)) = Some (item\<lparr>ot_ConsumedAt := Some (ck_consume ck)\<rparr>)" "ot_ReuseDetectedAt item = None"
    and "ck_consume ck' \<le> ck_consume ck + sr_grace s" "ck_consume ck' < ck_now ck + sr_grace s"
  shows "oauthExchangeRefresh hash rnd' form ck' others' db'' s' = (Token_Response r, db'', s')"
proof -
  define h where "h = hash (tf_refresh_token form)"
  obtain dbc where c: "ConsumeOAuthRefreshToken h (ck_consume ck) (sr_grace s) db = (Rotated item, dbc)"
    using assms(2) by (cases "ConsumeOAuthRefreshToken h (ck_consume ck) (sr_grace s) db") (simp add: h_def)
  then have live: "ot_RevokedAt item = None"
    by (auto simp: ConsumeOAuthRefreshToken_def Let_def split: option.splits if_splits)
  from assms(1) c have own: "ot_ClientID item = tf_client_id form" "ot_Resource item = tf_resource form"
    and i: "issueOAuthTokens hash rnd ''refresh_token'' (refresh_subject item) (ot_FamilyID item) (ot_TokenHash item) True ck others dbc s = (Token_Response r, db', s')"
    unfolding oauthExchangeRefresh_def Let_def h_def by (auto split: if_splits)
  have s': "s' = rememberOAuthRefreshReplay h (tf_client_id form) (tf_resource form) r (ck_now ck) s"
    using issue_remembers [OF i] own assms(3) by (simp add: refresh_subject_def h_def)
  have grace: "sr_grace s' = sr_grace s" by (simp add: s' rememberOAuthRefreshReplay_def)
  have "ConsumeOAuthRefreshToken h (ck_consume ck') (sr_grace s') db'' = (Replayed (item\<lparr>ot_ConsumedAt := Some (ck_consume ck)\<rparr>), db'')"
    using assms(5-8) live by (simp add: ConsumeOAuthRefreshToken_def grace h_def)
  moreover have "oauthRefreshReplayResponse h (tf_client_id form) (tf_resource form) (ck_consume ck') s' = (Some r, s')"
    unfolding s' using assms(4,5,9) by (intro remembered_replay) (simp_all add: h_def)
  ultimately show ?thesis using own unfolding oauthExchangeRefresh_def Let_def h_def [symmetric] by (simp add: oauthReplayRefresh_def)
qed

section \<open>Issued tokens\<close>

lemma fresh_row: "k \<notin> fst ` set rows \<Longrightarrow> map_of (rows @ [(k, r)]) k = Some r"
  by (induction rows) auto

lemma CreateOAuthTokens_rows:
  assumes "CreateOAuthTokens access refresh ts db = (Inr (), db')"
  shows "map_of (od_access db') (ot_TokenHash access) = Some (new_token ts access)" "od_grants db' = od_grants db" "od_clients db' = od_clients db"
    "od_users db' = od_users db" "od_profiles db' = od_profiles db" "od_groups db' = od_groups db" "od_members db' = od_members db"
  using assms unfolding CreateOAuthTokens_def insert_access_def insert_refresh_def
  by (auto simp: fresh_row simp del: map_of_append split: sum.splits option.splits if_splits)

lemma issue_quiet:
  assumes "issueOAuthTokens hash rnd flow su familyID parent offline ck (\<lambda>_ db. db) db s = (Token_Response r, db', s')"
  obtains g c u st raw refresh where "map_of (od_grants db) (su_grantID su) = Some g" "joined_grant db g" "og_RevokedAt g = None" "og_Status g = OAuthGrantActive"
    "og_ClientID g = su_clientID su" "og_UserID g = su_userID su" "map_of (od_clients db) (su_clientID su) = Some c" "cli_Enabled c"
    "map_of (od_users db) (su_userID su) = Some (u, st)" "mcpAccessLevelForRole (EffectiveUserRole (su_userID su) u db) \<noteq> []"
    "rp_access_token r = ''oba_'' @ raw" "CreateOAuthTokens (access_token hash su raw (ck_now ck)) refresh (ck_write ck) db = (Inr (), db')"
  using assms unfolding issueOAuthTokens_def issue_check_def Let_def GetOAuthGrant_def GetOAuthClient_def
  by (auto simp: token_reply_for_def split: option.splits sum.splits prod.splits if_splits)

text \<open>
  C39. The tokens the endpoint hands out work: a call that carries the new access token within its fifteen minutes is
  authenticated, as the user, the client and the grant the token was issued for and with the current effective role of the user,
  when nothing else was committed in between, the user is active, the grant has not expired and the metadata of the
  client is fresh.
\<close>
theorem issued_token_authenticates:
  assumes "issueOAuthTokens hash rnd flow su familyID parent offline ck (\<lambda>_ db. db) db s = (Token_Response r, db', s')"
    and "bearerToken a = Some (rp_access_token r)" "CHR '' '' \<notin> set (rp_access_token r)" "me_hash env = hash"
    and "me_base env = Some base" "su_resource su = trim_slashes base @ ''/api/v1/mcp''" "\<And>c. me_metadataFresh env c"
    and "map_of (od_users db) (su_userID su) = Some (role, ''active'')" "t1 < ck_now ck + oauthAccessTokenTTL"
    and "map_of (od_grants db) (su_grantID su) = Some g" "case og_ExpiresAt g of None \<Rightarrow> True | Some e \<Rightarrow> t2 < e"
  shows "\<exists>p. mcpAuth env a t1 t2 t3 db' db' db' db' db' = Authenticated p \<and> gp_GrantID (pr_Grant p) = og_ID g \<and> pr_UserID p = su_userID su \<and>
    pr_ClientID p = su_clientID su \<and> pr_Role p = EffectiveUserRole (su_userID su) role db"
  using assms(1)
proof (rule issue_quiet)
  fix g' c u st raw refresh
  assume g': "map_of (od_grants db) (su_grantID su) = Some g'" "joined_grant db g'" "og_RevokedAt g' = None" "og_Status g' = OAuthGrantActive"
      "og_ClientID g' = su_clientID su" "og_UserID g' = su_userID su"
    and c: "map_of (od_clients db) (su_clientID su) = Some c" "cli_Enabled c"
    and u: "map_of (od_users db) (su_userID su) = Some (u, st)" "mcpAccessLevelForRole (EffectiveUserRole (su_userID su) u db) \<noteq> []"
    and raw: "rp_access_token r = ''oba_'' @ raw"
    and t: "CreateOAuthTokens (access_token hash su raw (ck_now ck)) refresh (ck_write ck) db = (Inr (), db')"
  note rows = CreateOAuthTokens_rows [OF t]
  have eff: "EffectiveUserRole k x db' = EffectiveUserRole k x db" for k x unfolding EffectiveUserRole_def rows ..
  have none: "EffectiveUserRole (su_userID su) role db \<noteq> RoleNone" using u assms(8) by (auto simp: mcpAccessLevelForRole_def RoleRank_def)
  obtain profile where profile: "map_of (od_profiles db) (og_ApprovalProfileID g) = Some profile"
    using g'(1,2) assms(10) by (cases "map_of (od_profiles db) (og_ApprovalProfileID g)") (auto simp: joined_grant_def map_of_eq_None_iff)
  have "AuthenticateMCPAccessToken (hash (rp_access_token r)) (su_resource su) t1 db' = Inr (new_token (ck_write ck) (access_token hash su raw (ck_now ck)), role, ''active'')"
    using rows(1) assms(8,9) by (simp add: AuthenticateMCPAccessToken_def raw access_token_def new_token_def rows)
  moreover have "ResolveActiveGrant (su_grantID su) t2 db' db' = Inr (g, profile, EffectiveUserRole (su_userID su) role db)"
    using g' c assms(8,10,11) profile by (auto simp: ResolveActiveGrant_def rows eff split: option.splits)
  moreover have "GetOAuthClient (su_clientID su) db' = Inr c" using c by (simp add: GetOAuthClient_def rows)
  ultimately show ?thesis using assms(2-7) g' c none assms(10)
    by (simp add: mcpAuth_def raw new_token_def access_token_def grant_policy_def)
qed

section \<open>An example\<close>

definition demo_random :: "string \<Rightarrow> token_random" where
  "demo_random n = \<lparr>rn_access = Inr (''a'' @ n), rn_refresh = Inr (''r'' @ n), rn_family = Inr ''f''\<rparr>"

definition demo_clock :: "time \<Rightarrow> token_clock" where
  "demo_clock t = \<lparr>ck_consume = t, ck_grant = t, ck_now = t, ck_write = t\<rparr>"

definition demo_form :: "string \<Rightarrow> token_form" where
  "demo_form tok = \<lparr>tf_code = [], tf_client_id = ''app'', tf_redirect_uri = [], tf_code_verifier = [], tf_resource = ''mcp'', tf_refresh_token = tok\<rparr>"

definition demo_server :: oauth_server where
  "demo_server = \<lparr>sr_grace = 5, sr_replays = []\<rparr>"

definition demo_exchange :: "token_reply \<times> oauth_db \<times> oauth_server" where
  "demo_exchange = oauthExchangeRefresh (\<lambda>x. x) (demo_random ''2'') (demo_form ''r1'') (demo_clock 10) (\<lambda>_ db. db) demo_issued demo_server"

definition demo_winner :: token_response where
  "demo_winner = \<lparr>rp_access_token = ''oba_a2'', rp_token_type = ''Bearer'', rp_expires_in = 900, rp_scope = join_words [ScopeRead, ScopeOffline],
     rp_resource = ''mcp'', rp_refresh_token = Some ''obr_r2''\<rparr>"

lemma demo_exchanges: "demo_exchange = (Token_Response demo_winner, fst (snd demo_exchange), snd (snd demo_exchange))"
proof -
  have "fst demo_exchange = Token_Response demo_winner" by code_simp
  then show ?thesis by (simp add: prod_eq_iff)
qed

text \<open>
  The revocation of a family does not reach a rotation in flight. Here \<open>obr_r2\<close> is being rotated when its
  predecessor \<open>r1\<close> is presented again after the grace period: the reuse is detected and the family revoked before the new tokens
  are stored. They are stored afterwards all the same, in the revoked family, and the new refresh token can be rotated.
\<close>

definition demo_inflight :: "token_reply \<times> oauth_db \<times> oauth_server" where
  "demo_inflight = oauthExchangeRefresh (\<lambda>x. x) (demo_random ''3'') (demo_form ''obr_r2'') (demo_clock 30)
     (\<lambda>k db. if k = 5 then snd (ConsumeOAuthRefreshToken ''r1'' 30 5 db) else db) (fst (snd demo_exchange)) (snd (snd demo_exchange))"

definition is_response :: "token_reply \<Rightarrow> bool" where
  "is_response reply = (case reply of Token_Response _ \<Rightarrow> True | _ \<Rightarrow> False)"

definition is_rotated :: "refresh_outcome \<Rightarrow> bool" where
  "is_rotated o' = (case o' of Rotated _ \<Rightarrow> True | _ \<Rightarrow> False)"

definition is_reused :: "refresh_outcome \<Rightarrow> bool" where
  "is_reused o' = (case o' of Reused _ \<Rightarrow> True | _ \<Rightarrow> False)"

lemma inflight_rotation_escapes_revocation:
  "is_reused (fst (ConsumeOAuthRefreshToken ''r1'' 30 5 (fst (snd demo_exchange))))"
  "is_response (fst demo_inflight)"
  "is_rotated (fst (ConsumeOAuthRefreshToken ''obr_r3'' 40 5 (fst (snd demo_inflight))))"
  by code_simp+

theorem replayed_refresh_returns_winner_witness:
  "oauthExchangeRefresh (\<lambda>x. x) (demo_random ''9'') (demo_form ''r1'') (demo_clock 12) (\<lambda>_ db. db) (fst (snd demo_exchange)) (snd (snd demo_exchange)) =
     (Token_Response demo_winner, fst (snd demo_exchange), snd (snd demo_exchange))"
proof -
  have "oauthExchangeRefresh (\<lambda>x. x) (demo_random ''2'') (demo_form ''r1'') (demo_clock 10) (\<lambda>_ db. db) demo_issued demo_server =
      (Token_Response demo_winner, fst (snd demo_exchange), snd (snd demo_exchange))"
    by (fold demo_exchange_def) (rule demo_exchanges)
  note winner = replayed_refresh_returns_winner [OF this, where item = "demo_token ''r1'' []"]
  have "fst (ConsumeOAuthRefreshToken ''r1'' 10 5 demo_issued) = Rotated (demo_token ''r1'' [])" by code_simp
  moreover have "map_of (od_refresh (fst (snd demo_exchange))) ''r1'' = Some ((demo_token ''r1'' [])\<lparr>ot_ConsumedAt := Some 10\<rparr>)" by code_simp
  ultimately show ?thesis
    by (intro winner) (simp_all add: demo_form_def demo_clock_def demo_server_def demo_token_def)
qed

definition demo_env :: mcp_env where
  "demo_env = \<lparr>me_hash = (\<lambda>x. x), me_base = Some ''u/'', me_rbac = NewRBAC, me_listMCP = (\<lambda>_ _. []), me_parse = (\<lambda>_. \<lparr>rb_Version = 1, rb_Resources = [],
     rb_GlobalCapabilities = [], rb_DestructiveOperations = False\<rparr>), me_metadataFresh = (\<lambda>_. True)\<rparr>"

definition demo_subject :: token_subject where
  "demo_subject = \<lparr>su_grantID = ''g1'', su_principalID = ''p1'', su_clientID = ''app'', su_userID = 1, su_resource = ''u/api/v1/mcp''\<rparr>"

definition demo_issue :: "token_reply \<times> oauth_db \<times> oauth_server" where
  "demo_issue = issueOAuthTokens (\<lambda>x. x) (demo_random ''5'') ''authorization_code'' demo_subject [] [] True (demo_clock 4) (\<lambda>_ db. db) demo_authorized demo_server"

definition demo_stored_grant :: OAuthGrant where
  "demo_stored_grant = the (map_of (od_grants demo_authorized) ''g1'')"

theorem issued_token_authenticates_witness:
  "\<exists>p. mcpAuth demo_env ''Bearer oba_a5'' 5 5 5 (fst (snd demo_issue)) (fst (snd demo_issue)) (fst (snd demo_issue)) (fst (snd demo_issue)) (fst (snd demo_issue)) = Authenticated p \<and>
     gp_GrantID (pr_Grant p) = og_ID demo_stored_grant \<and> pr_UserID p = 1 \<and> pr_ClientID p = ''app'' \<and> pr_Role p = EffectiveUserRole 1 RoleViewer demo_authorized"
proof -
  have f: "fst demo_issue = Token_Response \<lparr>rp_access_token = ''oba_a5'', rp_token_type = ''Bearer'', rp_expires_in = 900,
     rp_scope = join_words [ScopeRead, ScopeOffline], rp_resource = ''u/api/v1/mcp'', rp_refresh_token = Some ''obr_r5''\<rparr>" (is "_ = Token_Response ?r") by code_simp
  have i: "issueOAuthTokens (\<lambda>x. x) (demo_random ''5'') ''authorization_code'' demo_subject [] [] True (demo_clock 4) (\<lambda>_ db. db) demo_authorized demo_server =
     (Token_Response ?r, fst (snd demo_issue), snd (snd demo_issue))"
    by (fold demo_issue_def) (simp add: prod_eq_iff f)
  have b: "bearerToken ''Bearer oba_a5'' = Some ''oba_a5''" by code_simp
  have u: "map_of (od_users demo_authorized) 1 = Some (RoleViewer, ''active'')" by code_simp
  have g: "map_of (od_grants demo_authorized) ''g1'' = Some demo_stored_grant" by code_simp
  have e: "og_ExpiresAt demo_stored_grant = None" by code_simp
  have r: "trim_slashes ''u/'' = ''u''" by code_simp
  show ?thesis
    using issued_token_authenticates [OF i, of "''Bearer oba_a5''" demo_env "''u/''" RoleViewer 5 demo_stored_grant 5 5] b u g e r
    by (simp add: demo_env_def demo_subject_def demo_clock_def oauthAccessTokenTTL_def minute_def second_def)
qed

definition demo_dead :: oauth_db where
  "demo_dead = snd (RevokeOAuthGrantReason ''g1'' 8 ''user'' demo_issued)"

theorem revoked_grant_stays_dead_witness:
  "fst (issueOAuthTokens (\<lambda>x. x) (demo_random ''5'') ''refresh_token'' demo_subject ''fam'' ''r1'' True (demo_clock 9) (\<lambda>_ db. db) demo_dead demo_server) \<noteq>
     Token_Response demo_winner"
proof -
  have "fst (RevokeOAuthGrantReason ''g1'' 8 ''user'' demo_issued) = Inr ()" by code_simp
  then have "RevokeOAuthGrantReason ''g1'' 8 ''user'' demo_issued = (Inr (), demo_dead)" by (simp add: demo_dead_def prod_eq_iff)
  from revoked_grant_stays_dead [OF this demo_issued_reached rtranclp.rtrancl_refl, where H = "{}" and others = "\<lambda>_ db. db" and su = demo_subject]
  show ?thesis by (simp add: demo_subject_def)
qed

end
