(* ===== verification/Port_Ledger.thy ===== *)
theory Port_Ledger
  imports Model_Types
begin

text \<open>
  The ledger of generated listener ports of \<open>internal/core/proxy_paths.go\<close>: the owners with their generations of
  ports, the resolution of a port for a projection, and the migration of an owner to new ports (reserve, switch,
  promote, retire, delete). A generation is a shared object in the code; within an owner its number identifies it, so
  writing a generation back replaces the one with its number. A nil ledger is \<open>None\<close>. The functions that probe for a free port
  are given by their answers: the answer to the \<open>n\<close>-th call in an operation, or the answer for an ordinal. The
  times of a row are left out. The rest of the file, which projects paths onto listeners, is not modelled.
\<close>

section \<open>Rows, requirements and the ledger\<close>

abbreviation PortAllocationStateActive :: string where "PortAllocationStateActive \<equiv> ''active''"
abbreviation PortAllocationStatePreparing :: string where "PortAllocationStatePreparing \<equiv> ''preparing''"
abbreviation PortAllocationStateRetiring :: string where "PortAllocationStateRetiring \<equiv> ''retiring''"
abbreviation ProxyPathPortKindSnellUser :: string where "ProxyPathPortKindSnellUser \<equiv> ''snell_user_inbound''"
abbreviation PortMigrationPhasePrepare :: string where "PortMigrationPhasePrepare \<equiv> ''prepare''"
abbreviation PortMigrationPhaseSwitch :: string where "PortMigrationPhaseSwitch \<equiv> ''switch''"
abbreviation PortMigrationPhaseRetire :: string where "PortMigrationPhaseRetire \<equiv> ''retire''"

record ProxyPathPortAllocation =
  pa_ID :: int
  pa_Kind :: string
  pa_ScopeKey :: string
  pa_ServerID :: int
  pa_Pool :: string
  pa_ListenIP :: string
  pa_Network :: string
  pa_Generation :: int
  pa_Ordinal :: int
  pa_Port :: int
  pa_State :: string
  pa_PolicyRevision :: int

record PortRequirement =
  rq_Kind :: string
  rq_ScopeKey :: string
  rq_ServerID :: int
  rq_Pool :: string
  rq_ListenIP :: string
  rq_Network :: ForwardProtocol
  rq_PolicyRevision :: int
  rq_Allocate :: "(nat \<Rightarrow> int) option"
  rq_AllocateOrdinal :: "(nat \<Rightarrow> int) option"

record proxyPathPortKey =
  pk_Kind :: string
  pk_ScopeKey :: string
  pk_ServerID :: int

record proxyPathPortGeneration =
  gn_generation :: int
  gn_state :: string
  gn_policyRevision :: int
  gn_ports :: "(int, ProxyPathPortAllocation) gomap"

record ProxyPathPortLedger =
  lg_owners :: "(proxyPathPortKey, proxyPathPortGeneration list) gomap"
  lg_pending :: "ProxyPathPortAllocation list"
  lg_pendingByKey :: "proxyPathPortKey list"
  lg_used :: "proxyPathPortKey list"
  lg_removed :: "int list"
  lg_complete :: bool

definition key_of :: "PortRequirement \<Rightarrow> proxyPathPortKey" where
  "key_of requirement = \<lparr>pk_Kind = rq_Kind requirement, pk_ScopeKey = rq_ScopeKey requirement, pk_ServerID = rq_ServerID requirement\<rparr>"

definition row_key :: "ProxyPathPortAllocation \<Rightarrow> proxyPathPortKey" where
  "row_key item = \<lparr>pk_Kind = pa_Kind item, pk_ScopeKey = pa_ScopeKey item, pk_ServerID = pa_ServerID item\<rparr>"

definition normalizeAllocationState :: "string \<Rightarrow> string" where
  "normalizeAllocationState state =
     (if state = PortAllocationStatePreparing \<or> state = PortAllocationStateRetiring \<or> state = PortAllocationStateActive then state
      else PortAllocationStateActive)"

definition forwardNetworkName :: "ForwardProtocol \<Rightarrow> string" where
  "forwardNetworkName protocol = (if protocol = ForwardProtocolTCP then ''tcp'' else if protocol = ForwardProtocolUDP then ''udp'' else ''tcp_udp'')"

section \<open>Owners and generations\<close>

definition ownerFor :: "proxyPathPortKey \<Rightarrow> ProxyPathPortLedger \<Rightarrow> proxyPathPortGeneration list \<times> ProxyPathPortLedger" where
  "ownerFor key l =
     (case map_of (lg_owners l) key of
        Some gens \<Rightarrow> (gens, l)
      | None \<Rightarrow> ([], l\<lparr>lg_owners := AList.update key [] (lg_owners l)\<rparr>))"

definition set_owner :: "proxyPathPortKey \<Rightarrow> proxyPathPortGeneration list \<Rightarrow> ProxyPathPortLedger \<Rightarrow> ProxyPathPortLedger" where
  "set_owner key gens l = l\<lparr>lg_owners := AList.update key gens (lg_owners l)\<rparr>"

definition set_gen :: "proxyPathPortGeneration \<Rightarrow> proxyPathPortGeneration list \<Rightarrow> proxyPathPortGeneration list" where
  "set_gen g gens = map (\<lambda>h. if gn_generation h = gn_generation g then g else h) gens"

definition add_gen :: "proxyPathPortGeneration \<Rightarrow> proxyPathPortGeneration list \<Rightarrow> proxyPathPortGeneration list" where
  "add_gen g gens = sort_key gn_generation (gens @ [g])"

definition generationFor :: "int \<Rightarrow> proxyPathPortGeneration list \<Rightarrow> proxyPathPortGeneration \<times> proxyPathPortGeneration list" where
  "generationFor generation gens =
     (case find (\<lambda>g. gn_generation g = generation) gens of
        Some g \<Rightarrow> (g, gens)
      | None \<Rightarrow>
          (let g = \<lparr>gn_generation = generation, gn_state = PortAllocationStateActive, gn_policyRevision = 0, gn_ports = []\<rparr> in (g, add_gen g gens)))"

definition nextGeneration :: "proxyPathPortGeneration list \<Rightarrow> int" where
  "nextGeneration gens = fold (\<lambda>g n. if gn_generation g \<ge> n then gn_generation g + 1 else n) gens 1"

definition activeGeneration :: "proxyPathPortGeneration list \<Rightarrow> proxyPathPortGeneration option" where
  "activeGeneration gens =
     fold (\<lambda>g active. if gn_state g \<noteq> PortAllocationStateActive then active
                     else case active of None \<Rightarrow> Some g | Some a \<Rightarrow> if gn_generation g > gn_generation a then Some g else active) gens None"

definition generationByState :: "string \<Rightarrow> proxyPathPortGeneration list \<Rightarrow> proxyPathPortGeneration option" where
  "generationByState state gens = find (\<lambda>g. gn_state g = state) gens"

definition sorted_rows :: "(int, ProxyPathPortAllocation) gomap \<Rightarrow> (int \<times> ProxyPathPortAllocation) list" where
  "sorted_rows ports = sort_key fst ports"

definition primaryRow :: "proxyPathPortGeneration \<Rightarrow> ProxyPathPortAllocation option" where
  "primaryRow g =
     fold (\<lambda>(ordinal, row) best. case best of None \<Rightarrow> Some row | Some b \<Rightarrow> if ordinal < pa_Ordinal b then Some row else best)
       (sorted_rows (gn_ports g)) None"

definition add_row :: "ProxyPathPortAllocation \<Rightarrow> ProxyPathPortLedger \<Rightarrow> ProxyPathPortLedger" where
  "add_row item l =
     (if pa_Port item \<le> 0 then l
      else
        (let (gens, l) = ownerFor (row_key item) l;
             generation = (if pa_Generation item \<le> 0 then 1 else pa_Generation item);
             (g, gens) = generationFor generation gens;
             ordinal = (if pa_Ordinal item < 0 then 0 else pa_Ordinal item);
             g = g\<lparr>gn_state := normalizeAllocationState (pa_State item),
                   gn_policyRevision := (if pa_PolicyRevision item > gn_policyRevision g then pa_PolicyRevision item else gn_policyRevision g),
                   gn_ports := AList.update ordinal item (gn_ports g)\<rparr>
         in set_owner (row_key item) (set_gen g gens) l))"

definition NewProxyPathPortLedger :: "ProxyPathPortAllocation list \<Rightarrow> ProxyPathPortLedger" where
  "NewProxyPathPortLedger allocations =
     fold add_row allocations \<lparr>lg_owners = [], lg_pending = [], lg_pendingByKey = [], lg_used = [], lg_removed = [], lg_complete = False\<rparr>"

definition recordPending :: "ProxyPathPortAllocation \<Rightarrow> proxyPathPortKey \<Rightarrow> ProxyPathPortLedger \<Rightarrow> ProxyPathPortLedger" where
  "recordPending row key l = l\<lparr>lg_pending := lg_pending l @ [row], lg_pendingByKey := List.insert key (lg_pendingByKey l)\<rparr>"

section \<open>Resolution\<close>

definition metadataDiverges :: "ProxyPathPortAllocation \<Rightarrow> PortRequirement \<Rightarrow> bool" where
  "metadataDiverges stored requirement \<longleftrightarrow> pa_Pool stored \<noteq> rq_Pool requirement \<or> pa_ListenIP stored \<noteq> rq_ListenIP requirement \<or>
     pa_Network stored \<noteq> forwardNetworkName (rq_Network requirement)"

definition new_row :: "PortRequirement \<Rightarrow> int \<Rightarrow> string \<Rightarrow> nat \<Rightarrow> int \<Rightarrow> ProxyPathPortAllocation" where
  "new_row requirement generation state ordinal port =
     \<lparr>pa_ID = 0, pa_Kind = rq_Kind requirement, pa_ScopeKey = rq_ScopeKey requirement, pa_ServerID = rq_ServerID requirement, pa_Pool = rq_Pool requirement,
      pa_ListenIP = rq_ListenIP requirement, pa_Network = forwardNetworkName (rq_Network requirement), pa_Generation = generation, pa_Ordinal = int ordinal,
      pa_Port = port, pa_State = state, pa_PolicyRevision = rq_PolicyRevision requirement\<rparr>"

definition fresh_port :: "PortRequirement \<Rightarrow> int" where
  "fresh_port requirement =
     (let port = (case rq_AllocateOrdinal requirement of None \<Rightarrow> 0 | Some f \<Rightarrow> f 0)
      in if port \<le> 0 then (case rq_Allocate requirement of None \<Rightarrow> port | Some f \<Rightarrow> f 0) else port)"

definition resolve :: "PortRequirement \<Rightarrow> ProxyPathPortLedger option \<Rightarrow> int \<times> ProxyPathPortLedger option" where
  "resolve requirement ledger =
     (case ledger of
        None \<Rightarrow> (case rq_Allocate requirement of None \<Rightarrow> 0 | Some f \<Rightarrow> f 0, None)
      | Some l \<Rightarrow>
          (let key = key_of requirement;
               (gens, l) = ownerFor key l;
               l = l\<lparr>lg_used := List.insert key (lg_used l)\<rparr>
           in case activeGeneration gens of
                Some g \<Rightarrow>
                  (case primaryRow g of
                     None \<Rightarrow> (0, Some l)
                   | Some item \<Rightarrow>
                       if metadataDiverges item requirement
                       then
                         (let corrected = item\<lparr>pa_Pool := rq_Pool requirement, pa_ListenIP := rq_ListenIP requirement,
                                pa_Network := forwardNetworkName (rq_Network requirement)\<rparr>;
                              g = g\<lparr>gn_ports := AList.update (pa_Ordinal item) corrected (gn_ports g)\<rparr>
                          in (pa_Port item, Some (recordPending corrected key (set_owner key (set_gen g gens) l))))
                       else (pa_Port item, Some l))
              | None \<Rightarrow>
                  if fresh_port requirement \<le> 0 then (0, Some l)
                  else
                    (let generation = nextGeneration gens;
                         row = new_row requirement generation PortAllocationStateActive 0 (fresh_port requirement);
                         g = \<lparr>gn_generation = generation, gn_state = PortAllocationStateActive, gn_policyRevision = rq_PolicyRevision requirement,
                              gn_ports = [(0, row)]\<rparr>
                     in (fresh_port requirement, Some (recordPending row key (set_owner key (add_gen g gens) l))))))"

definition LookupActive :: "proxyPathPortKey \<Rightarrow> ProxyPathPortLedger option \<Rightarrow> int option" where
  "LookupActive key ledger =
     (case ledger of
        None \<Rightarrow> None
      | Some l \<Rightarrow>
          (case map_of (lg_owners l) key of
             None \<Rightarrow> None
           | Some gens \<Rightarrow>
               (case activeGeneration gens of
                  None \<Rightarrow> None
                | Some g \<Rightarrow> (case primaryRow g of None \<Rightarrow> None | Some item \<Rightarrow> if pa_Port item \<le> 0 then None else Some (pa_Port item)))))"

section \<open>Migration\<close>

definition owner_text :: "proxyPathPortKey \<Rightarrow> string" where
  "owner_text key = ''owner '' @ pk_Kind key @ ''/'' @ pk_ScopeKey key @ '' on server '' @ FormatInt (pk_ServerID key)"

definition candidate :: "PortRequirement \<Rightarrow> nat \<Rightarrow> int" where
  "candidate requirement ordinal =
     (case rq_AllocateOrdinal requirement of
        Some f \<Rightarrow> f ordinal
      | None \<Rightarrow> (case rq_Allocate requirement of Some f \<Rightarrow> f ordinal | None \<Rightarrow> 0))"

definition AllocatePreparing :: "PortRequirement \<Rightarrow> int \<Rightarrow> ProxyPathPortLedger option \<Rightarrow> ProxyPathPortAllocation list result \<times> ProxyPathPortLedger option" where
  "AllocatePreparing requirement n ledger =
     (case ledger of
        None \<Rightarrow> (Inl ''port ledger is nil'', None)
      | Some l \<Rightarrow>
          (let cnt = (if n \<le> 0 then 1 else nat n);
               key = key_of requirement;
               (gens, l) = ownerFor key l
           in if activeGeneration gens = None then (Inl (owner_text key @ '' has no active generation to migrate''), Some l)
              else
                (case find (\<lambda>ordinal. candidate requirement ordinal \<le> 0) [0..<cnt] of
                   Some ordinal \<Rightarrow>
                     (Inl (''no port available in pool '' @ rq_Pool requirement @ '' for '' @ rq_Kind requirement @ ''/'' @ rq_ScopeKey requirement @
                           '' generation '' @ FormatInt (nextGeneration gens) @ '' ordinal '' @ FormatInt (int ordinal)), Some l)
                 | None \<Rightarrow>
                     (let generation = nextGeneration gens;
                          rows = map (\<lambda>ordinal. new_row requirement generation PortAllocationStatePreparing ordinal (candidate requirement ordinal)) [0..<cnt];
                          g = \<lparr>gn_generation = generation, gn_state = PortAllocationStatePreparing, gn_policyRevision = rq_PolicyRevision requirement,
                               gn_ports = map (\<lambda>row. (pa_Ordinal row, row)) rows\<rparr>
                      in (Inr rows, Some (fold (\<lambda>row. recordPending row key) rows (set_owner key (add_gen g gens) l)))))))"

definition generationInPhase :: "string \<Rightarrow> string \<Rightarrow> bool" where
  "generationInPhase state phase =
     (if phase = PortMigrationPhasePrepare \<or> phase = PortMigrationPhaseSwitch
      then state = PortAllocationStateActive \<or> state = PortAllocationStatePreparing
      else if phase = PortMigrationPhaseRetire then state = PortAllocationStateActive \<or> state = PortAllocationStateRetiring
      else state = PortAllocationStateActive)"

definition RowsForPhase :: "PortRequirement \<Rightarrow> string \<Rightarrow> ProxyPathPortLedger option \<Rightarrow> ProxyPathPortAllocation list" where
  "RowsForPhase requirement phase ledger =
     (case ledger of
        None \<Rightarrow> []
      | Some l \<Rightarrow>
          (case map_of (lg_owners l) (key_of requirement) of
             None \<Rightarrow> []
           | Some gens \<Rightarrow> concat (map (\<lambda>g. map snd (sorted_rows (gn_ports g))) (filter (\<lambda>g. generationInPhase (gn_state g) phase) gens))))"

definition ResolveForPhase :: "PortRequirement \<Rightarrow> string \<Rightarrow> ProxyPathPortLedger option \<Rightarrow> int \<times> ProxyPathPortLedger option" where
  "ResolveForPhase requirement phase ledger =
     (case ledger of
        None \<Rightarrow> (0, None)
      | Some l \<Rightarrow>
          if phase \<noteq> PortMigrationPhaseSwitch then resolve requirement ledger
          else
            (case map_of (lg_owners l) (key_of requirement) of
               None \<Rightarrow> (0, ledger)
             | Some gens \<Rightarrow>
                 (case generationByState PortAllocationStatePreparing gens of
                    None \<Rightarrow> (0, ledger)
                  | Some g \<Rightarrow> (case primaryRow g of None \<Rightarrow> (0, ledger) | Some item \<Rightarrow> (pa_Port item, ledger)))))"

text \<open>A generation in a new state, its rows included, in the order of their enumeration.\<close>

definition in_state :: "string \<Rightarrow> proxyPathPortGeneration \<Rightarrow> proxyPathPortGeneration" where
  "in_state state g = g\<lparr>gn_state := state, gn_ports := map (\<lambda>(ordinal, item). (ordinal, item\<lparr>pa_State := state\<rparr>)) (gn_ports g)\<rparr>"

definition record_rows :: "proxyPathPortKey \<Rightarrow> ProxyPathPortAllocation list \<Rightarrow> ProxyPathPortLedger \<Rightarrow> ProxyPathPortLedger" where
  "record_rows key rows l = fold (\<lambda>row. recordPending row key) rows l"

definition PromotePreparing :: "proxyPathPortKey \<Rightarrow> ProxyPathPortLedger option \<Rightarrow> ProxyPathPortAllocation list result \<times> ProxyPathPortLedger option" where
  "PromotePreparing key ledger =
     (case ledger of
        None \<Rightarrow> (Inl ''port ledger is nil'', None)
      | Some l \<Rightarrow>
          (case map_of (lg_owners l) key of
             None \<Rightarrow> (Inl (owner_text key @ '' has no generations''), ledger)
           | Some gens \<Rightarrow>
               (case generationByState PortAllocationStatePreparing gens of
                  None \<Rightarrow> (Inl (owner_text key @ '' has no preparing generation''), ledger)
                | Some preparing \<Rightarrow>
                    (let promoted = in_state PortAllocationStateActive preparing;
                         retired = map_option (in_state PortAllocationStateRetiring) (activeGeneration gens);
                         gens = set_gen promoted gens;
                         gens = (case retired of None \<Rightarrow> gens | Some g \<Rightarrow> set_gen g gens);
                         out = map snd (gn_ports promoted) @ (case retired of None \<Rightarrow> [] | Some g \<Rightarrow> map snd (gn_ports g))
                     in (Inr out, Some (record_rows key out (set_owner key gens l)))))))"

definition MarkActiveRetiring :: "proxyPathPortKey \<Rightarrow> ProxyPathPortLedger option \<Rightarrow> ProxyPathPortAllocation list result \<times> ProxyPathPortLedger option" where
  "MarkActiveRetiring key ledger =
     (case ledger of
        None \<Rightarrow> (Inl ''port ledger is nil'', None)
      | Some l \<Rightarrow>
          (case map_of (lg_owners l) key of
             None \<Rightarrow> (Inl (owner_text key @ '' has no generations''), ledger)
           | Some gens \<Rightarrow>
               (case activeGeneration gens of
                  None \<Rightarrow> (Inl (owner_text key @ '' has no active generation to retire''), ledger)
                | Some active \<Rightarrow>
                    (let retired = in_state PortAllocationStateRetiring active; out = map snd (gn_ports retired)
                     in (Inr out, Some (record_rows key out (set_owner key (set_gen retired gens) l)))))))"

text \<open>The identifiers of stored rows that have not been removed yet, and the marks for them.\<close>

fun remove_ids :: "ProxyPathPortAllocation list \<Rightarrow> int list \<Rightarrow> int list \<times> int list" where
  "remove_ids [] removed = ([], removed)"
| "remove_ids (item # rest) removed =
     (if pa_ID item > 0 \<and> pa_ID item \<notin> set removed
      then (let (ids, removed) = remove_ids rest (pa_ID item # removed) in (pa_ID item # ids, removed))
      else remove_ids rest removed)"

definition DeleteRetired :: "proxyPathPortKey \<Rightarrow> int \<Rightarrow> ProxyPathPortLedger option \<Rightarrow> int list result \<times> ProxyPathPortLedger option" where
  "DeleteRetired key generation ledger =
     (case ledger of
        None \<Rightarrow> (Inl ''port ledger is nil'', None)
      | Some l \<Rightarrow>
          (case map_of (lg_owners l) key of
             None \<Rightarrow> (Inl (owner_text key @ '' has no generations''), ledger)
           | Some gens \<Rightarrow>
               (case find (\<lambda>g. gn_generation g = generation) gens of
                  None \<Rightarrow> (Inl (owner_text key @ '' has no generation '' @ FormatInt generation), ledger)
                | Some target \<Rightarrow>
                    if gn_state target \<noteq> PortAllocationStateRetiring
                    then (Inl (owner_text key @ '' generation '' @ FormatInt generation @ '' is '' @ gn_state target @ '', not retiring''), ledger)
                    else
                      (let (ids, removed) = remove_ids (map snd (gn_ports target)) (lg_removed l)
                       in (Inr ids, Some (set_owner key (filter (\<lambda>g. gn_generation g \<noteq> generation) gens) (l\<lparr>lg_removed := removed\<rparr>)))))))"

definition markProjectionComplete :: "ProxyPathPortLedger option \<Rightarrow> ProxyPathPortLedger option" where
  "markProjectionComplete ledger = map_option (\<lambda>l. l\<lparr>lg_complete := True\<rparr>) ledger"

definition StaleProxyPathPortAllocationIDs :: "ProxyPathPortAllocation list \<Rightarrow> ProxyPathPortLedger option \<Rightarrow> int list" where
  "StaleProxyPathPortAllocationIDs stored ledger =
     (case ledger of
        None \<Rightarrow> []
      | Some l \<Rightarrow>
          if \<not> lg_complete l then []
          else map pa_ID (filter (\<lambda>item. pa_Kind item \<noteq> ProxyPathPortKindSnellUser \<and>
                 (pa_ID item \<in> set (lg_removed l) \<or> row_key item \<notin> set (lg_used l) \<and> row_key item \<notin> set (lg_pendingByKey l))) stored))"

definition Pending :: "ProxyPathPortLedger option \<Rightarrow> ProxyPathPortAllocation list" where
  "Pending ledger = (case ledger of None \<Rightarrow> [] | Some l \<Rightarrow> lg_pending l)"

section \<open>Histories\<close>

text \<open>The operations on a ledger in any order; the owners in \<open>M\<close> may be cut over.\<close>

inductive port_step :: "proxyPathPortKey set \<Rightarrow> ProxyPathPortLedger \<Rightarrow> ProxyPathPortLedger \<Rightarrow> bool" for M where
  resolve: "snd (ResolveForPhase requirement phase (Some l)) = Some l' \<Longrightarrow> port_step M l l'"
| allocate: "snd (AllocatePreparing requirement n (Some l)) = Some l' \<Longrightarrow> port_step M l l'"
| promote: "key \<in> M \<Longrightarrow> snd (PromotePreparing key (Some l)) = Some l' \<Longrightarrow> port_step M l l'"
| retire: "key \<in> M \<Longrightarrow> snd (MarkActiveRetiring key (Some l)) = Some l' \<Longrightarrow> port_step M l l'"
| delete: "snd (DeleteRetired key generation (Some l)) = Some l' \<Longrightarrow> port_step M l l'"
| complete: "markProjectionComplete (Some l) = Some l' \<Longrightarrow> port_step M l l'"

section \<open>The invariant\<close>

text \<open>
  The generations of an owner are in ascending order with distinct numbers, at most one of them is active, and a row is
  stored under its ordinal, a negative one under zero.
\<close>

definition ports_ok :: "(int, ProxyPathPortAllocation) gomap \<Rightarrow> bool" where
  "ports_ok ports \<longleftrightarrow> gomap_ok ports \<and> (\<forall>(ordinal, row) \<in> set ports. pa_Ordinal row = ordinal \<or> ordinal = 0 \<and> pa_Ordinal row < 0)"

definition gens_wf :: "proxyPathPortGeneration list \<Rightarrow> bool" where
  "gens_wf gens \<longleftrightarrow> sorted (map gn_generation gens) \<and> distinct (map gn_generation gens) \<and> (\<forall>g \<in> set gens. ports_ok (gn_ports g))"

abbreviation is_active :: "proxyPathPortGeneration \<Rightarrow> bool" where "is_active g \<equiv> gn_state g = PortAllocationStateActive"

definition single_active :: "proxyPathPortGeneration list \<Rightarrow> bool" where
  "single_active gens \<longleftrightarrow> (\<forall>g \<in> set gens. \<forall>h \<in> set gens. is_active g \<longrightarrow> is_active h \<longrightarrow> g = h)"

definition owners_all :: "(proxyPathPortKey \<Rightarrow> proxyPathPortGeneration list \<Rightarrow> bool) \<Rightarrow> ProxyPathPortLedger \<Rightarrow> bool" where
  "owners_all P l \<longleftrightarrow> gomap_ok (lg_owners l) \<and> (\<forall>(k, gens) \<in> set (lg_owners l). P k gens)"

definition port_inv :: "ProxyPathPortLedger \<Rightarrow> bool" where
  "port_inv l \<longleftrightarrow> owners_all (\<lambda>_ gens. gens_wf gens \<and> single_active gens) l"

lemma ledger_fields [simp]:
  "lg_owners (recordPending row key l) = lg_owners l" "lg_owners (record_rows key rows l) = lg_owners l"
  "lg_owners (set_owner key gens l) = AList.update key gens (lg_owners l)"
proof -
  show r: "lg_owners (recordPending row key l) = lg_owners l" for row l by (simp add: recordPending_def)
  show "lg_owners (record_rows key rows l) = lg_owners l" by (induction rows arbitrary: l) (simp_all add: record_rows_def r)
qed (simp add: set_owner_def)

lemma owners_all_cong: "lg_owners l = lg_owners l' \<Longrightarrow> owners_all P l = owners_all P l'"
  by (simp add: owners_all_def)

lemma owners_all_lookup: "owners_all P l \<Longrightarrow> map_of (lg_owners l) key = Some gens \<Longrightarrow> P key gens"
  by (auto simp: owners_all_def dest: map_of_SomeD)

lemma in_update: "(k', v') \<in> set (AList.update k v m) \<Longrightarrow> (k', v') = (k, v) \<or> (k', v') \<in> set m"
  by (induction m) (auto split: if_splits)

lemma owners_all_set: "owners_all P l \<Longrightarrow> P key gens \<Longrightarrow> owners_all P (set_owner key gens l)"
  unfolding owners_all_def by (auto dest!: in_update)

lemma ownerFor_ok:
  assumes "ownerFor key l = (gens, l')" "owners_all P l" "P key []"
  shows "P key gens" "owners_all P l'" "map_of (lg_owners l') key = Some gens"
    "gens = (case map_of (lg_owners l) key of None \<Rightarrow> [] | Some g \<Rightarrow> g)" "key' \<noteq> key \<Longrightarrow> map_of (lg_owners l') key' = map_of (lg_owners l) key'"
  using assms owners_all_set [OF assms(2), of key "[]"]
  by (auto simp: ownerFor_def set_owner_def update_conv' dest: owners_all_lookup split: option.splits)

definition pick :: "proxyPathPortGeneration \<Rightarrow> proxyPathPortGeneration option \<Rightarrow> proxyPathPortGeneration option" where
  "pick g active = (if gn_state g \<noteq> PortAllocationStateActive then active
     else case active of None \<Rightarrow> Some g | Some a \<Rightarrow> if gn_generation g > gn_generation a then Some g else active)"

lemma activeGeneration_pick: "activeGeneration gens = fold pick gens None"
  unfolding activeGeneration_def pick_def ..

lemma pick_Some: "fold pick gens a = Some g \<Longrightarrow> a = Some g \<or> g \<in> set gens \<and> is_active g"
proof (induction gens arbitrary: a)
  case (Cons h gens)
  then have "pick h a = Some g \<or> g \<in> set gens \<and> is_active g" by simp
  then show ?case by (auto simp: pick_def split: if_splits option.splits)
qed simp

lemma pick_None: "fold pick gens a = None \<Longrightarrow> a = None \<and> (\<forall>g \<in> set gens. \<not> is_active g)"
proof (induction gens arbitrary: a)
  case (Cons h gens)
  then have "pick h a = None" "\<forall>g \<in> set gens. \<not> is_active g" by auto
  then show ?case by (auto simp: pick_def split: if_splits option.splits)
qed simp

lemma activeGeneration_Some: "activeGeneration gens = Some g \<Longrightarrow> g \<in> set gens \<and> is_active g"
  unfolding activeGeneration_pick by (drule pick_Some) simp

lemma activeGeneration_None: "activeGeneration gens = None \<longleftrightarrow> (\<forall>g \<in> set gens. \<not> is_active g)"
proof
  show "activeGeneration gens = None \<Longrightarrow> \<forall>g \<in> set gens. \<not> is_active g" unfolding activeGeneration_pick by (drule pick_None) simp
  show "\<forall>g \<in> set gens. \<not> is_active g \<Longrightarrow> activeGeneration gens = None" using activeGeneration_Some by (cases "activeGeneration gens") auto
qed

lemma activeGeneration_iff: "single_active gens \<Longrightarrow> activeGeneration gens = Some g \<longleftrightarrow> g \<in> set gens \<and> is_active g"
  using activeGeneration_Some activeGeneration_None [of gens] unfolding single_active_def by (cases "activeGeneration gens") auto

lemma nextGeneration_above: "g \<in> set gens \<Longrightarrow> gn_generation g < nextGeneration gens"
proof -
  have mono: "n \<le> fold (\<lambda>g n. if gn_generation g \<ge> n then gn_generation g + 1 else n) gens n" for gens and n :: int
  proof (induction gens arbitrary: n)
    case (Cons h gens)
    show ?case using Cons.IH [of "if gn_generation h \<ge> n then gn_generation h + 1 else n"] by (auto split: if_splits)
  qed simp
  have "g \<in> set gens \<Longrightarrow> gn_generation g < fold (\<lambda>g n. if gn_generation g \<ge> n then gn_generation g + 1 else n) gens n" for n
  proof (induction gens arbitrary: n)
    case (Cons h gens)
    then show ?case using mono [of "if gn_generation h \<ge> n then gn_generation h + 1 else n" gens] by (auto split: if_splits)
  qed simp
  then show "g \<in> set gens \<Longrightarrow> gn_generation g < nextGeneration gens" by (simp add: nextGeneration_def)
qed

lemma add_gen_set [simp]: "set (add_gen g gens) = insert g (set gens)"
  by (auto simp: add_gen_def)

lemma add_gen_wf:
  assumes "gens_wf gens" "gn_generation g \<notin> gn_generation ` set gens" "ports_ok (gn_ports g)"
  shows "gens_wf (add_gen g gens)"
proof -
  have "mset (map gn_generation (add_gen g gens)) = mset (map gn_generation (gens @ [g]))" by (simp add: add_gen_def)
  moreover have "distinct (map gn_generation (gens @ [g]))" using assms by (auto simp: gens_wf_def)
  ultimately have "distinct (map gn_generation (add_gen g gens))" by (metis mset_eq_imp_distinct_iff)
  moreover have "sorted (map gn_generation (add_gen g gens))" by (simp add: add_gen_def)
  ultimately show ?thesis using assms by (auto simp: gens_wf_def)
qed

lemma same_number: "gens_wf gens \<Longrightarrow> g \<in> set gens \<Longrightarrow> h \<in> set gens \<Longrightarrow> gn_generation g = gn_generation h \<Longrightarrow> g = h"
  by (auto simp: gens_wf_def distinct_map inj_on_def)

lemma set_gen_set:
  assumes "gens_wf gens" "g \<in> set gens" "gn_generation g' = gn_generation g"
  shows "set (set_gen g' gens) = insert g' (set gens - {g})"
proof -
  have "(if gn_generation h = gn_generation g' then g' else h) = (if h = g then g' else h)" if "h \<in> set gens" for h
    using that same_number [OF assms(1) that assms(2)] assms(3) by auto
  then have "set (set_gen g' gens) = (\<lambda>h. if h = g then g' else h) ` set gens" by (auto simp: set_gen_def intro!: image_cong)
  with assms(2) show ?thesis by auto
qed

lemma set_gen_wf: "gens_wf gens \<Longrightarrow> ports_ok (gn_ports g') \<Longrightarrow> gens_wf (set_gen g' gens)"
proof -
  have "map gn_generation (set_gen g' gens) = map gn_generation gens" by (simp add: set_gen_def)
  moreover have "h \<in> set (set_gen g' gens) \<Longrightarrow> h = g' \<or> h \<in> set gens" for h by (auto simp: set_gen_def split: if_splits)
  ultimately show "gens_wf gens \<Longrightarrow> ports_ok (gn_ports g') \<Longrightarrow> gens_wf (set_gen g' gens)" unfolding gens_wf_def by metis
qed

lemma ports_ok_update: "ports_ok ports \<Longrightarrow> pa_Ordinal row = ordinal \<or> ordinal = 0 \<and> pa_Ordinal row < 0 \<Longrightarrow> ports_ok (AList.update ordinal row ports)"
  unfolding ports_ok_def by (auto dest!: in_update)

lemma in_state_simps [simp]: "gn_generation (in_state st g) = gn_generation g" "gn_state (in_state st g) = st"
  "ports_ok (gn_ports g) \<Longrightarrow> ports_ok (gn_ports (in_state st g))"
  by (force simp: in_state_def ports_ok_def case_prod_unfold comp_def)+


abbreviation gens_inv :: "proxyPathPortGeneration list \<Rightarrow> bool" where
  "gens_inv gens \<equiv> gens_wf gens \<and> single_active gens"

lemma gens_inv_Nil [simp]: "gens_wf []" "single_active []"
  by (simp_all add: gens_wf_def single_active_def)

lemma fresh_number: "nextGeneration gens \<notin> gn_generation ` set gens"
  using nextGeneration_above by fastforce

lemma gens_inv_add_active:
  "gens_inv gens \<Longrightarrow> activeGeneration gens = None \<Longrightarrow> ports_ok (gn_ports g) \<Longrightarrow> gn_generation g = nextGeneration gens \<Longrightarrow> gens_inv (add_gen g gens)"
  using fresh_number [of gens] add_gen_wf [of gens g] by (simp add: single_active_def activeGeneration_None)

lemma gens_inv_add_passive:
  "gens_inv gens \<Longrightarrow> \<not> is_active g \<Longrightarrow> ports_ok (gn_ports g) \<Longrightarrow> gn_generation g = nextGeneration gens \<Longrightarrow> gens_inv (add_gen g gens)"
  using fresh_number [of gens] add_gen_wf [of gens g] by (simp add: single_active_def)

lemma gens_inv_set:
  assumes "gens_inv gens" "g \<in> set gens" "gn_generation g' = gn_generation g" "ports_ok (gn_ports g')" "is_active g' \<longrightarrow> is_active g"
  shows "gens_inv (set_gen g' gens)"
  using assms set_gen_wf [of gens g'] set_gen_set [of gens g g'] by (auto simp: single_active_def)

lemma wf_ports: "gens_wf gens \<Longrightarrow> g \<in> set gens \<Longrightarrow> ports_ok (gn_ports g)"
  by (simp add: gens_wf_def)

lemma byState_Some: "generationByState st gens = Some g \<Longrightarrow> g \<in> set gens \<and> gn_state g = st"
  by (auto simp: generationByState_def find_Some_iff)

lemma gens_inv_promote:
  assumes "gens_inv gens" "generationByState PortAllocationStatePreparing gens = Some g"
  defines "promoted \<equiv> in_state PortAllocationStateActive g"
  shows "gens_inv (case map_option (in_state PortAllocationStateRetiring) (activeGeneration gens) of None \<Rightarrow> set_gen promoted gens | Some r \<Rightarrow> set_gen r (set_gen promoted gens))"
proof -
  note g = byState_Some [OF assms(2)]
  have p: "ports_ok (gn_ports promoted)" "gn_generation promoted = gn_generation g" "is_active promoted"
    using g assms(1) wf_ports by (auto simp: promoted_def)
  have wf: "gens_wf (set_gen promoted gens)" using assms(1) p set_gen_wf by blast
  have elems: "set (set_gen promoted gens) = insert promoted (set gens - {g})" using assms(1) g p by (intro set_gen_set) auto
  show ?thesis
  proof (cases "activeGeneration gens")
    case None
    then have "\<forall>g \<in> set gens. \<not> is_active g" by (simp add: activeGeneration_None)
    with wf elems have "gens_inv (set_gen promoted gens)" by (auto simp: single_active_def)
    with None show ?thesis by simp
  next
    case (Some a)
    note a = activeGeneration_Some [OF Some]
    then have "a \<noteq> g" using g by auto
    with a elems have a': "a \<in> set (set_gen promoted gens)" by simp
    have "set (set_gen (in_state PortAllocationStateRetiring a) (set_gen promoted gens)) = insert (in_state PortAllocationStateRetiring a) (insert promoted (set gens - {g}) - {a})"
      using set_gen_set [OF wf a'] elems by simp
    moreover have "gens_wf (set_gen (in_state PortAllocationStateRetiring a) (set_gen promoted gens))"
      using a assms(1) wf_ports by (intro set_gen_wf [OF wf]) auto
    moreover have "h = a" if "h \<in> set gens" "is_active h" for h using that a assms(1) by (auto simp: single_active_def)
    ultimately show ?thesis using Some by (auto simp: single_active_def)
  qed
qed

lemma primaryRow_in: "primaryRow g = Some row \<Longrightarrow> row \<in> snd ` set (gn_ports g)"
proof -
  have "fold (\<lambda>(ordinal, row) best. case best of None \<Rightarrow> Some row | Some b \<Rightarrow> if ordinal < pa_Ordinal b then Some row else best) rows b = Some row \<Longrightarrow>
      b = Some row \<or> row \<in> snd ` set rows" for rows b
  proof (induction rows arbitrary: b)
    case (Cons r rows)
    from Cons.prems have "(case b of None \<Rightarrow> Some (snd r) | Some x \<Rightarrow> if fst r < pa_Ordinal x then Some (snd r) else b) = Some row \<or> row \<in> snd ` set rows"
      by (intro Cons.IH) (simp add: case_prod_unfold)
    then show ?case by (auto split: option.splits if_splits)
  qed simp
  from this [of "sorted_rows (gn_ports g)" None] show "primaryRow g = Some row \<Longrightarrow> row \<in> snd ` set (gn_ports g)"
    by (auto simp: primaryRow_def sorted_rows_def)
qed

lemma gens_inv_correct:
  assumes "gens_inv gens" "activeGeneration gens = Some g" "pa_Ordinal row = ordinal"
  shows "gens_inv (set_gen (g\<lparr>gn_ports := AList.update ordinal row (gn_ports g)\<rparr>) gens)"
  using assms activeGeneration_Some [OF assms(2)] wf_ports [of gens g] by (intro gens_inv_set [of _ g]) (auto intro: ports_ok_update)

lemma gens_inv_filter: "gens_inv gens \<Longrightarrow> gens_inv (filter P gens)"
  by (auto simp: gens_wf_def single_active_def distinct_map_filter sorted_filter)

lemma port_inv_set: "port_inv l \<Longrightarrow> gens_inv gens \<Longrightarrow> port_inv (set_owner key gens l)"
  unfolding port_inv_def by (rule owners_all_set) auto

lemma port_inv_cong: "lg_owners l = lg_owners l' \<Longrightarrow> port_inv l \<Longrightarrow> port_inv l'"
  unfolding port_inv_def owners_all_def by simp

lemma port_inv_lookup: "port_inv l \<Longrightarrow> map_of (lg_owners l) key = Some gens \<Longrightarrow> gens_inv gens"
  unfolding port_inv_def by (drule owners_all_lookup) auto

section \<open>Every operation keeps the invariant\<close>

text \<open>What one operation does to the owners: one of them gets new generations, the others stay.\<close>

lemma ownerFor_inv:
  assumes "ownerFor key l = (gens, l')" "port_inv l"
  shows "gens_inv gens" "port_inv l'"
  using ownerFor_ok [OF assms(1), of "\<lambda>_ gens. gens_inv gens"] assms(2) by (simp_all add: port_inv_def)

lemma new_ports_ok: "ports_ok [(0, new_row requirement generation st 0 port)]"
  by (simp add: ports_ok_def new_row_def)

lemma preparing_ports_ok: "ports_ok (map (\<lambda>row. (pa_Ordinal row, row)) (map (\<lambda>ordinal. new_row requirement generation st ordinal (port ordinal)) [0..<n]))"
  by (auto simp: ports_ok_def new_row_def comp_def distinct_map inj_on_def)

lemma resolve_inv:
  assumes "port_inv l" "resolve requirement (Some l) = (port, Some l')"
  shows "port_inv l'"
proof -
  obtain gens l1 where o: "ownerFor (key_of requirement) l = (gens, l1)" by (cases "ownerFor (key_of requirement) l")
  note inv = ownerFor_inv [OF o assms(1)]
  define l2 where "l2 = l1\<lparr>lg_used := List.insert (key_of requirement) (lg_used l1)\<rparr>"
  have l2: "port_inv l2" using inv(2) by (rule port_inv_cong [rotated]) (simp add: l2_def)
  show ?thesis
  proof (cases "activeGeneration gens")
    case None
    define g where "g = \<lparr>gn_generation = nextGeneration gens, gn_state = PortAllocationStateActive, gn_policyRevision = rq_PolicyRevision requirement,
      gn_ports = [(0, new_row requirement (nextGeneration gens) PortAllocationStateActive 0 (fresh_port requirement))]\<rparr>"
    have "port_inv (set_owner (key_of requirement) (add_gen g gens) l2)"
      using inv(1) None l2 by (intro port_inv_set gens_inv_add_active) (simp_all add: g_def new_ports_ok)
    then have "port_inv (recordPending row key (set_owner (key_of requirement) (add_gen g gens) l2))" for row key by (rule port_inv_cong [rotated]) simp
    with assms(2) o None l2 show ?thesis by (auto simp: resolve_def Let_def l2_def g_def split: if_splits)
  next
    case (Some g)
    have "port_inv (recordPending row key (set_owner (key_of requirement) (set_gen (g\<lparr>gn_ports := AList.update (pa_Ordinal row') row' (gn_ports g)\<rparr>) gens) l2))" for row row' key
      by (rule port_inv_cong [OF _ port_inv_set [OF l2 gens_inv_correct [OF inv(1) Some refl]]]) simp
    from this [of _ _ "(the (primaryRow g))\<lparr>pa_Pool := rq_Pool requirement, pa_ListenIP := rq_ListenIP requirement,
                                pa_Network := forwardNetworkName (rq_Network requirement)\<rparr>"]
    show ?thesis using assms(2) o Some l2 by (auto simp: resolve_def Let_def l2_def split: if_splits option.splits)
  qed
qed

lemma ResolveForPhase_inv:
  assumes "port_inv l" "snd (ResolveForPhase requirement phase (Some l)) = Some l'"
  shows "port_inv l'"
  using assms resolve_inv [OF assms(1), of requirement "fst (resolve requirement (Some l))" l']
  by (auto simp: ResolveForPhase_def prod_eq_iff split: if_splits option.splits)

lemma AllocatePreparing_inv:
  assumes "port_inv l" "snd (AllocatePreparing requirement n (Some l)) = Some l'"
  shows "port_inv l'"
proof -
  obtain gens l1 where o: "ownerFor (key_of requirement) l = (gens, l1)" by (cases "ownerFor (key_of requirement) l")
  note inv = ownerFor_inv [OF o assms(1)]
  define cnt where "cnt = (if n \<le> 0 then 1 else nat n)"
  define rows where "rows = map (\<lambda>ordinal. new_row requirement (nextGeneration gens) PortAllocationStatePreparing ordinal (candidate requirement ordinal)) [0..<cnt]"
  define g where "g = \<lparr>gn_generation = nextGeneration gens, gn_state = PortAllocationStatePreparing, gn_policyRevision = rq_PolicyRevision requirement,
    gn_ports = map (\<lambda>row. (pa_Ordinal row, row)) rows\<rparr>"
  have "ports_ok (gn_ports g)" unfolding g_def rows_def using preparing_ports_ok by simp
  then have "port_inv (set_owner (key_of requirement) (add_gen g gens) l1)"
    using inv by (intro port_inv_set gens_inv_add_passive) (simp_all add: g_def)
  then have "port_inv (record_rows (key_of requirement) rows (set_owner (key_of requirement) (add_gen g gens) l1))" by (rule port_inv_cong [rotated]) simp
  then show ?thesis using assms(2) o inv(2)
    by (auto simp: AllocatePreparing_def Let_def record_rows_def g_def rows_def cnt_def split: if_splits option.splits)
qed

lemma record_set_inv: "port_inv l \<Longrightarrow> gens_inv gens \<Longrightarrow> port_inv (record_rows key rows (set_owner key' gens l))"
  by (rule port_inv_cong [OF _ port_inv_set]) simp_all

lemma PromotePreparing_inv:
  assumes "port_inv l" "snd (PromotePreparing key (Some l)) = Some l'"
  shows "port_inv l'"
proof (cases "map_of (lg_owners l) key")
  case (Some gens)
  show ?thesis
  proof (cases "generationByState PortAllocationStatePreparing gens")
    case (Some g)
    note inv = record_set_inv [OF assms(1) gens_inv_promote [OF port_inv_lookup [OF assms(1) \<open>map_of (lg_owners l) key = Some gens\<close>] Some]]
    show ?thesis using assms(2) inv [of key _ key] \<open>map_of (lg_owners l) key = Some gens\<close> Some
      by (cases "activeGeneration gens") (auto simp: PromotePreparing_def Let_def)
  qed (use assms Some in \<open>simp add: PromotePreparing_def\<close>)
qed (use assms in \<open>simp add: PromotePreparing_def\<close>)

lemma MarkActiveRetiring_inv:
  assumes "port_inv l" "snd (MarkActiveRetiring key (Some l)) = Some l'"
  shows "port_inv l'"
proof (cases "map_of (lg_owners l) key")
  case (Some gens)
  note inv = port_inv_lookup [OF assms(1) Some]
  have "gens_inv (set_gen (in_state PortAllocationStateRetiring g) gens)" if "activeGeneration gens = Some g" for g
    using inv activeGeneration_Some [OF that] wf_ports [of gens g] by (intro gens_inv_set [of _ g]) auto
  from record_set_inv [OF assms(1) this] show ?thesis using assms Some by (auto simp: MarkActiveRetiring_def Let_def split: option.splits)
qed (use assms in \<open>simp add: MarkActiveRetiring_def\<close>)

lemma DeleteRetired_inv:
  assumes "port_inv l" "snd (DeleteRetired key generation (Some l)) = Some l'"
  shows "port_inv l'"
proof -
  have "port_inv (set_owner key (filter P gens) (l\<lparr>lg_removed := r\<rparr>))" if "map_of (lg_owners l) key = Some gens" for gens P r
    by (rule port_inv_set [OF port_inv_cong [OF _ assms(1)] gens_inv_filter [OF port_inv_lookup [OF assms(1) that]]]) simp
  then show ?thesis using assms by (auto simp: DeleteRetired_def Let_def split: option.splits if_splits prod.splits)
qed

lemma port_step_inv: "port_step M l l' \<Longrightarrow> port_inv l \<Longrightarrow> port_inv l'"
proof (induction rule: port_step.induct)
  case (complete l l')
  then show ?case by (auto simp: markProjectionComplete_def intro: port_inv_cong [rotated])
qed (blast intro: ResolveForPhase_inv AllocatePreparing_inv PromotePreparing_inv MarkActiveRetiring_inv DeleteRetired_inv)+

section \<open>The ledger of the stored rows\<close>

definition row_generation :: "ProxyPathPortAllocation \<Rightarrow> int" where
  "row_generation item = (if pa_Generation item \<le> 0 then 1 else pa_Generation item)"

text \<open>The stored rows of an owner that count as active belong to one generation.\<close>

definition rows_ok :: "ProxyPathPortAllocation list \<Rightarrow> bool" where
  "rows_ok rows \<longleftrightarrow> (\<forall>r \<in> set rows. \<forall>s \<in> set rows. 0 < pa_Port r \<longrightarrow> 0 < pa_Port s \<longrightarrow> row_key r = row_key s \<longrightarrow>
     normalizeAllocationState (pa_State r) = PortAllocationStateActive \<longrightarrow> normalizeAllocationState (pa_State s) = PortAllocationStateActive \<longrightarrow>
     row_generation r = row_generation s)"

text \<open>Every generation has the state of a row of it.\<close>

definition origin :: "ProxyPathPortAllocation set \<Rightarrow> proxyPathPortKey \<Rightarrow> proxyPathPortGeneration list \<Rightarrow> bool" where
  "origin rows key gens \<longleftrightarrow> gens_wf gens \<and> (\<forall>g \<in> set gens. \<exists>r \<in> rows. 0 < pa_Port r \<and> row_key r = key \<and> row_generation r = gn_generation g \<and>
     normalizeAllocationState (pa_State r) = gn_state g)"

lemma generationFor_ok:
  assumes "gens_wf gens" "generationFor n gens = (g, gens')"
  shows "gens_wf gens'" "g \<in> set gens'" "gn_generation g = n" "set gens' \<subseteq> insert g (set gens)"
proof -
  have "gens_wf gens' \<and> g \<in> set gens' \<and> gn_generation g = n \<and> set gens' \<subseteq> insert g (set gens)"
  proof (cases "find (\<lambda>g. gn_generation g = n) gens")
    case None
    then have fresh: "n \<notin> gn_generation ` set gens" by (auto simp: find_None_iff)
    define h where "h = \<lparr>gn_generation = n, gn_state = PortAllocationStateActive, gn_policyRevision = 0, gn_ports = []\<rparr>"
    have "gens_wf (add_gen h gens)" using fresh by (intro add_gen_wf [OF assms(1)]) (simp_all add: h_def ports_ok_def)
    moreover have "g = h" "gens' = add_gen h gens" using assms(2) None by (auto simp: generationFor_def h_def Let_def)
    ultimately show ?thesis by (simp add: h_def)
  next
    case (Some h)
    with assms show ?thesis by (auto simp: generationFor_def find_Some_iff)
  qed
  then show "gens_wf gens'" "g \<in> set gens'" "gn_generation g = n" "set gens' \<subseteq> insert g (set gens)" by auto
qed

lemma add_row_origin:
  assumes "owners_all (origin rows) l"
  shows "owners_all (origin (insert item rows)) (add_row item l)"
proof -
  have mono: "origin rows k gens \<Longrightarrow> origin (insert item rows) k gens" for k gens unfolding origin_def by blast
  have all: "owners_all (origin (insert item rows)) l" using assms mono unfolding owners_all_def by blast
  show ?thesis
  proof (cases "pa_Port item \<le> 0")
    case False
    obtain gens l1 where o: "ownerFor (row_key item) l = (gens, l1)" by (cases "ownerFor (row_key item) l")
    have "origin (insert item rows) (row_key item) []" by (simp add: origin_def)
    note own = ownerFor_ok(1,2) [OF o all this]
    obtain g gens1 where gf: "generationFor (row_generation item) gens = (g, gens1)" by (cases "generationFor (row_generation item) gens")
    have "gens_wf gens" using own(1) by (simp add: origin_def)
    note g = generationFor_ok [OF this gf]
    define g' where "g' = g\<lparr>gn_state := normalizeAllocationState (pa_State item),
      gn_policyRevision := (if pa_PolicyRevision item > gn_policyRevision g then pa_PolicyRevision item else gn_policyRevision g),
      gn_ports := AList.update (if pa_Ordinal item < 0 then 0 else pa_Ordinal item) item (gn_ports g)\<rparr>"
    have "gens_wf (set_gen g' gens1)" using wf_ports [OF g(1,2)] by (intro set_gen_wf [OF g(1)]) (auto simp: g'_def intro: ports_ok_update)
    moreover have "set (set_gen g' gens1) \<subseteq> insert g' (set gens)"
      using set_gen_set [OF g(1,2), of g'] g(4) by (auto simp: g'_def)
    ultimately have "origin (insert item rows) (row_key item) (set_gen g' gens1)"
      using own(1) False g(3) unfolding origin_def by (fastforce simp: g'_def)
    from owners_all_set [OF own(2) this] show ?thesis
      using False o gf by (simp add: add_row_def row_generation_def g'_def Let_def split: if_splits)
  qed (use all in \<open>simp add: add_row_def\<close>)
qed

lemma fold_add_origin: "owners_all (origin R) l \<Longrightarrow> owners_all (origin (R \<union> set rows)) (fold add_row rows l)"
  by (induction rows arbitrary: l R) (use add_row_origin in fastforce)+

lemma NewProxyPathPortLedger_inv:
  assumes "rows_ok rows"
  shows "port_inv (NewProxyPathPortLedger rows)"
proof -
  have "owners_all (origin {}) \<lparr>lg_owners = [], lg_pending = [], lg_pendingByKey = [], lg_used = [], lg_removed = [], lg_complete = False\<rparr>"
    by (simp add: owners_all_def)
  from fold_add_origin [OF this, of rows] have "owners_all (origin (set rows)) (NewProxyPathPortLedger rows)"
    unfolding NewProxyPathPortLedger_def by simp
  moreover have "gens_inv gens" if "origin (set rows) k gens" for k gens
    using that assms same_number [of gens] unfolding origin_def single_active_def rows_ok_def by metis
  ultimately show ?thesis unfolding port_inv_def owners_all_def by blast
qed

interpretation pl: inv_system "\<lambda>l. \<exists>rows. rows_ok rows \<and> l = NewProxyPathPortLedger rows" "port_step M" port_inv
  by unfold_locales (auto intro: NewProxyPathPortLedger_inv, rule port_step_inv)

section \<open>The active port\<close>

lemma primary_keep: "\<forall>x \<in> set rows. \<not> fst x < pa_Ordinal b \<Longrightarrow>
    fold (\<lambda>(ordinal, row) best. case best of None \<Rightarrow> Some row | Some b \<Rightarrow> if ordinal < pa_Ordinal b then Some row else best) rows (Some b) = Some b"
  by (induction rows) auto

lemma primaryRow_head:
  assumes "ports_ok (gn_ports g)" "sorted_rows (gn_ports g) = (ordinal, row) # rest"
  shows "primaryRow g = Some row" "\<forall>x \<in> set (gn_ports g). ordinal \<le> fst x" "(ordinal, row) \<in> set (gn_ports g)"
proof -
  have rows: "set (sorted_rows (gn_ports g)) = set (gn_ports g)" by (simp add: sorted_rows_def)
  have "sorted (map fst (sorted_rows (gn_ports g)))" by (simp add: sorted_rows_def)
  with assms(2) have le: "\<forall>x \<in> set rest. ordinal \<le> fst x" by auto
  show "\<forall>x \<in> set (gn_ports g). ordinal \<le> fst x" using le assms(2) unfolding rows [symmetric] by auto
  show m: "(ordinal, row) \<in> set (gn_ports g)" using assms(2) unfolding rows [symmetric] by simp
  have "pa_Ordinal row \<le> ordinal" using assms(1) m by (auto simp: ports_ok_def)
  then show "primaryRow g = Some row" using le assms(2) by (auto simp: primaryRow_def intro!: primary_keep)
qed

lemma primaryRow_min:
  assumes "ports_ok (gn_ports g)" "(ordinal, row) \<in> set (gn_ports g)" "\<And>x. x \<in> set (gn_ports g) \<Longrightarrow> ordinal \<le> fst x"
  shows "primaryRow g = Some row"
proof -
  have "sorted_rows (gn_ports g) \<noteq> []" using assms(2) by (auto simp: sorted_rows_def dest: arg_cong [of _ _ set])
  then obtain o' r' rest where s: "sorted_rows (gn_ports g) = (o', r') # rest" by (metis list.exhaust surj_pair)
  note h = primaryRow_head [OF assms(1) s]
  have "o' = ordinal" using h(2,3) assms(2,3) by fastforce
  with h(3) assms(1,2) have "r' = row" by (auto simp: ports_ok_def dest: eq_key_imp_eq_value)
  with h(1) show ?thesis by simp
qed

lemma primaryRow_least:
  assumes "ports_ok (gn_ports g)" "primaryRow g = Some row"
  obtains ordinal where "(ordinal, row) \<in> set (gn_ports g)" "\<And>x. x \<in> set (gn_ports g) \<Longrightarrow> ordinal \<le> fst x"
proof (cases "sorted_rows (gn_ports g)")
  case Nil
  with assms(2) show ?thesis by (simp add: primaryRow_def)
next
  case (Cons x rest)
  obtain o' r' where x: "x = (o', r')" by (cases x)
  from primaryRow_head [OF assms(1) Cons [unfolded x]] assms(2) that show ?thesis by auto
qed

lemma primaryRow_correct:
  assumes "ports_ok (gn_ports g)" "primaryRow g = Some row" "pa_Ordinal row' = pa_Ordinal row"
  shows "primaryRow (g\<lparr>gn_ports := AList.update (pa_Ordinal row) row' (gn_ports g)\<rparr>) = Some row'"
proof -
  obtain ordinal where o: "(ordinal, row) \<in> set (gn_ports g)" "\<And>x. x \<in> set (gn_ports g) \<Longrightarrow> ordinal \<le> fst x"
    using primaryRow_least [OF assms(1,2)] by blast
  have le: "pa_Ordinal row \<le> ordinal" using assms(1) o(1) by (auto simp: ports_ok_def)
  have m: "(pa_Ordinal row, row') \<in> set (AList.update (pa_Ordinal row) row' (gn_ports g))"
    by (rule map_of_SomeD) (simp add: update_conv')
  have "pa_Ordinal row \<le> fst x" if x: "x \<in> set (AList.update (pa_Ordinal row) row' (gn_ports g))" for x
    using in_update [of "fst x" "snd x" "pa_Ordinal row" row' "gn_ports g"] x o(2) [of x] le by auto
  with m show ?thesis using assms by (intro primaryRow_min [of _ "pa_Ordinal row"]) (auto intro: ports_ok_update)
qed

definition active_port :: "proxyPathPortGeneration list \<Rightarrow> int option" where
  "active_port gens = (case activeGeneration gens of None \<Rightarrow> None
     | Some g \<Rightarrow> (case primaryRow g of None \<Rightarrow> None | Some item \<Rightarrow> if pa_Port item \<le> 0 then None else Some (pa_Port item)))"

lemma LookupActive_port: "LookupActive key (Some l) = (case map_of (lg_owners l) key of None \<Rightarrow> None | Some gens \<Rightarrow> active_port gens)"
  by (simp add: LookupActive_def active_port_def split: option.splits)

lemma active_same: "single_active gens \<Longrightarrow> single_active gens' \<Longrightarrow> (\<And>g. is_active g \<Longrightarrow> g \<in> set gens' \<longleftrightarrow> g \<in> set gens) \<Longrightarrow> active_port gens' = active_port gens"
proof -
  assume s: "single_active gens" "single_active gens'" and e: "\<And>g. is_active g \<Longrightarrow> g \<in> set gens' \<longleftrightarrow> g \<in> set gens"
  have "activeGeneration gens' = Some g \<longleftrightarrow> activeGeneration gens = Some g" for g using e by (auto simp: activeGeneration_iff [OF s(1)] activeGeneration_iff [OF s(2)])
  then have "activeGeneration gens' = activeGeneration gens" by (metis option.exhaust)
  then show "active_port gens' = active_port gens" by (simp add: active_port_def)
qed

lemma active_port_correct:
  assumes "gens_inv gens" "activeGeneration gens = Some g" "primaryRow g = Some row" "pa_Ordinal row' = pa_Ordinal row" "pa_Port row' = pa_Port row"
  shows "active_port (set_gen (g\<lparr>gn_ports := AList.update (pa_Ordinal row) row' (gn_ports g)\<rparr>) gens) = active_port gens"
proof -
  define g' where "g' = g\<lparr>gn_ports := AList.update (pa_Ordinal row) row' (gn_ports g)\<rparr>"
  note g = activeGeneration_Some [OF assms(2)]
  have "gens_inv (set_gen g' gens)" using gens_inv_correct [OF assms(1,2,4)] by (simp add: g'_def)
  moreover have "g' \<in> set (set_gen g' gens)" using set_gen_set [of gens g g'] assms(1) g by (auto simp: g'_def)
  ultimately have "activeGeneration (set_gen g' gens) = Some g'" using g by (simp add: activeGeneration_iff g'_def)
  moreover have "primaryRow g' = Some row'" unfolding g'_def using assms(1,3,4) g wf_ports by (intro primaryRow_correct) auto
  ultimately show ?thesis using assms(2,3,5) unfolding g'_def [symmetric] by (simp add: active_port_def)
qed

lemma LookupActive_owners: "lg_owners l = lg_owners l' \<Longrightarrow> LookupActive key (Some l) = LookupActive key (Some l')"
  by (simp add: LookupActive_def)

lemma LookupActive_set: "LookupActive key (Some (set_owner key' gens l)) = (if key = key' then active_port gens else LookupActive key (Some l))"
  by (simp add: LookupActive_port update_conv')

lemma LookupActive_record:
  "LookupActive key (Some (recordPending row key' l)) = LookupActive key (Some l)" "LookupActive key (Some (record_rows key' rows l)) = LookupActive key (Some l)"
  by (rule LookupActive_owners, simp)+

lemma ownerFor_active:
  assumes "ownerFor key l = (gens, l')"
  shows "active_port gens = LookupActive key (Some l)" "LookupActive key' (Some l') = LookupActive key' (Some l)"
proof -
  have nil: "active_port [] = None" by (simp add: active_port_def activeGeneration_def)
  show "active_port gens = LookupActive key (Some l)" using assms nil
    by (cases "map_of (lg_owners l) key") (auto simp: ownerFor_def LookupActive_port)
  show "LookupActive key' (Some l') = LookupActive key' (Some l)" using assms nil
    by (cases "map_of (lg_owners l) key"; cases "key' = key") (auto simp: ownerFor_def LookupActive_port update_conv')
qed

lemma active_port_add: "gens_inv gens \<Longrightarrow> gens_inv (add_gen g gens) \<Longrightarrow> \<not> is_active g \<Longrightarrow> active_port (add_gen g gens) = active_port gens"
  by (rule active_same) auto

lemma resolve_keeps:
  assumes "port_inv l" "LookupActive key (Some l) = Some p" "resolve requirement (Some l) = (port, Some l')"
  shows "LookupActive key (Some l') = Some p" "key_of requirement = key \<Longrightarrow> port = p"
proof -
  obtain gens l1 where o: "ownerFor (key_of requirement) l = (gens, l1)" by (cases "ownerFor (key_of requirement) l")
  note inv = ownerFor_inv [OF o assms(1)]
  note act = ownerFor_active [OF o]
  define l2 where "l2 = l1\<lparr>lg_used := List.insert (key_of requirement) (lg_used l1)\<rparr>"
  have l2: "LookupActive key (Some l2) = Some p" using act(2) assms(2) LookupActive_owners [of l2 l1] by (simp add: l2_def)
  have "LookupActive key (Some l') = Some p \<and> (key_of requirement = key \<longrightarrow> port = p)"
  proof (cases "activeGeneration gens")
    case None
    then have "key_of requirement \<noteq> key" using act(1) assms(2) by (auto simp: active_port_def)
    then show ?thesis using assms(3) o None l2
      by (auto simp: resolve_def Let_def LookupActive_record LookupActive_set l2_def split: if_splits)
  next
    case (Some g)
    show ?thesis
    proof (cases "primaryRow g")
      case None
      with Some act(1) assms(2) have "key_of requirement \<noteq> key" by (auto simp: active_port_def)
      with None assms(3) o Some l2 show ?thesis by (auto simp: resolve_def Let_def l2_def)
    next
      case row: (Some item)
      define fixed where "fixed = item\<lparr>pa_Pool := rq_Pool requirement, pa_ListenIP := rq_ListenIP requirement, pa_Network := forwardNetworkName (rq_Network requirement)\<rparr>"
      have same: "active_port (set_gen (g\<lparr>gn_ports := AList.update (pa_Ordinal item) fixed (gn_ports g)\<rparr>) gens) = active_port gens"
        by (rule active_port_correct [OF inv(1) Some row]) (simp_all add: fixed_def)
      have own: "key_of requirement = key \<longrightarrow> pa_Port item = p" using act(1) assms(2) Some row by (auto simp: active_port_def split: if_splits)
      have r: "(port, Some l') = (pa_Port item, Some (if metadataDiverges item requirement
          then recordPending fixed (key_of requirement) (set_owner (key_of requirement) (set_gen (g\<lparr>gn_ports := AList.update (pa_Ordinal item) fixed (gn_ports g)\<rparr>) gens) l2) else l2))"
        unfolding assms(3) [symmetric] by (simp add: resolve_def o Some row Let_def fixed_def l2_def)
      show ?thesis
      proof (cases "metadataDiverges item requirement")
        case True
        with r own same act(1) assms(2) l2 show ?thesis by (auto simp: LookupActive_record LookupActive_set)
      qed (use r own l2 in simp)
    qed
  qed
  then show "LookupActive key (Some l') = Some p" "key_of requirement = key \<Longrightarrow> port = p" by auto
qed

lemma ResolveForPhase_keeps:
  assumes "port_inv l" "LookupActive key (Some l) = Some p" "snd (ResolveForPhase requirement phase (Some l)) = Some l'"
  shows "LookupActive key (Some l') = Some p"
  using assms resolve_keeps(1) [OF assms(1,2), of requirement "fst (resolve requirement (Some l))" l']
  by (auto simp: ResolveForPhase_def prod_eq_iff split: if_splits option.splits)

text \<open>What a successful reservation is.\<close>

definition reserved :: "PortRequirement \<Rightarrow> int \<Rightarrow> proxyPathPortGeneration list \<Rightarrow> proxyPathPortGeneration" where
  "reserved requirement n gens = \<lparr>gn_generation = nextGeneration gens, gn_state = PortAllocationStatePreparing, gn_policyRevision = rq_PolicyRevision requirement,
     gn_ports = map (\<lambda>row. (pa_Ordinal row, row)) (map (\<lambda>ordinal. new_row requirement (nextGeneration gens) PortAllocationStatePreparing ordinal (candidate requirement ordinal))
       [0..<(if n \<le> 0 then 1 else nat n)])\<rparr>"

lemma reserved_inv: "gens_inv gens \<Longrightarrow> gens_inv (add_gen (reserved requirement n gens) gens)"
  by (rule gens_inv_add_passive) (simp_all only: reserved_def proxyPathPortGeneration.simps preparing_ports_ok, simp_all)

lemma AllocatePreparing_cases:
  assumes "AllocatePreparing requirement n (Some l) = (res, Some l')" "ownerFor (key_of requirement) l = (gens, l1)"
  obtains (refused) e where "res = Inl e" "l' = l1"
  | (reserved) rows where "res = Inr rows" "lg_owners l' = lg_owners (set_owner (key_of requirement) (add_gen (reserved requirement n gens) gens) l1)"
      "\<forall>ordinal < (if n \<le> 0 then 1 else nat n). 0 < candidate requirement ordinal"
proof (cases "activeGeneration gens = None \<or> find (\<lambda>ordinal. candidate requirement ordinal \<le> 0) [0..<(if n \<le> 0 then 1 else nat n)] \<noteq> None")
  case True
  with assms refused show ?thesis by (auto simp: AllocatePreparing_def Let_def split: if_splits)
next
  case False
  then have "\<forall>ordinal < (if n \<le> 0 then 1 else nat n). 0 < candidate requirement ordinal" by (auto simp: find_None_iff not_le split: if_splits)
  moreover have "lg_owners l' = lg_owners (set_owner (key_of requirement) (add_gen (reserved requirement n gens) gens) l1)" "\<exists>rows. res = Inr rows"
    using assms False by (auto simp: AllocatePreparing_def Let_def reserved_def record_rows_def [symmetric] split: if_splits)
  ultimately show ?thesis using reserved by blast
qed

lemma AllocatePreparing_keeps:
  assumes "port_inv l" "snd (AllocatePreparing requirement n (Some l)) = Some l'"
  shows "LookupActive key (Some l') = LookupActive key (Some l)"
proof -
  obtain gens l1 where o: "ownerFor (key_of requirement) l = (gens, l1)" by (cases "ownerFor (key_of requirement) l")
  note inv = ownerFor_inv [OF o assms(1)]
  have a: "AllocatePreparing requirement n (Some l) = (fst (AllocatePreparing requirement n (Some l)), Some l')" using assms(2) by (simp add: prod_eq_iff)
  from a o show ?thesis
  proof (cases rule: AllocatePreparing_cases)
    case (reserved rows)
    have "active_port (add_gen (Port_Ledger.reserved requirement n gens) gens) = active_port gens"
      using inv(1) reserved_inv [OF inv(1)] by (intro active_port_add) (simp_all add: reserved_def)
    then show ?thesis using LookupActive_owners [OF reserved(2)] ownerFor_active [OF o] by (auto simp: LookupActive_set)
  qed (use ownerFor_active [OF o] in simp)
qed

lemma DeleteRetired_keeps:
  assumes "port_inv l" "snd (DeleteRetired key' generation (Some l)) = Some l'"
  shows "LookupActive key (Some l') = LookupActive key (Some l)"
proof (cases "l' = l")
  case False
  then obtain gens target r where g: "map_of (lg_owners l) key' = Some gens" "find (\<lambda>g. gn_generation g = generation) gens = Some target"
      "gn_state target = PortAllocationStateRetiring"
    and l': "l' = set_owner key' (filter (\<lambda>g. gn_generation g \<noteq> generation) gens) (l\<lparr>lg_removed := r\<rparr>)"
    using assms(2) by (auto simp: DeleteRetired_def Let_def split: option.splits if_splits prod.splits)
  note inv = port_inv_lookup [OF assms(1) g(1)]
  have t: "target \<in> set gens" "gn_generation target = generation" using g(2) by (auto simp: find_Some_iff)
  have "gn_generation h \<noteq> generation" if "h \<in> set gens" "is_active h" for h
    using same_number [of gens h target] inv t that g(3) by auto
  then have "active_port (filter (\<lambda>g. gn_generation g \<noteq> generation) gens) = active_port gens"
    using inv gens_inv_filter [OF inv] by (intro active_same) auto
  then show ?thesis using g(1) LookupActive_owners [of "l\<lparr>lg_removed := r\<rparr>" l] by (auto simp: l' LookupActive_set) (simp add: LookupActive_port)
qed simp

lemma cut_over_others:
  assumes "snd (PromotePreparing key' (Some l)) = Some l' \<or> snd (MarkActiveRetiring key' (Some l)) = Some l'" "key \<noteq> key'"
  shows "LookupActive key (Some l') = LookupActive key (Some l)"
  using assms by (auto simp: PromotePreparing_def MarkActiveRetiring_def Let_def LookupActive_record LookupActive_set split: option.splits)

lemma port_step_keeps:
  "port_step M l l' \<Longrightarrow> port_inv l \<Longrightarrow> LookupActive key (Some l) = Some p \<Longrightarrow> key \<notin> M \<Longrightarrow> LookupActive key (Some l') = Some p"
proof (induction rule: port_step.induct)
  case (resolve requirement phase l l')
  then show ?case by (blast intro: ResolveForPhase_keeps)
next
  case (allocate requirement n l l')
  then show ?case by (simp add: AllocatePreparing_keeps)
next
  case (promote key' l l')
  then have "key \<noteq> key'" by blast
  with promote cut_over_others [of key' l l' key] show ?case by simp
next
  case (retire key' l l')
  then have "key \<noteq> key'" by blast
  with retire cut_over_others [of key' l l' key] show ?case by simp
next
  case (delete key' generation l l')
  then show ?case by (simp add: DeleteRetired_keeps)
next
  case (complete l l')
  then show ?case by (auto simp: markProjectionComplete_def LookupActive_def)
qed

lemma port_steps_keep:
  "(port_step M)\<^sup>*\<^sup>* l l' \<Longrightarrow> port_inv l \<Longrightarrow> LookupActive key (Some l) = Some p \<Longrightarrow> key \<notin> M \<Longrightarrow> LookupActive key (Some l') = Some p"
proof (induction rule: rtranclp_induct)
  case (step l1 l2)
  then show ?case using pl.steps_inv [OF step.hyps(1)] port_step_keeps [OF step.hyps(2)] by blast
qed simp

lemma byState_unique:
  assumes "g \<in> set gens" "gn_state g = st" "\<And>h. h \<in> set gens \<Longrightarrow> gn_state h = st \<Longrightarrow> h = g"
  shows "generationByState st gens = Some g"
proof (cases "generationByState st gens")
  case None
  with assms(1,2) show ?thesis by (simp add: generationByState_def find_None_iff)
next
  case (Some h)
  from byState_Some [OF this] have "h = g" by (intro assms(3)) simp_all
  with Some show ?thesis by simp
qed

lemma primaryRow_in_state:
  assumes "ports_ok (gn_ports g)" "primaryRow g = Some row"
  shows "primaryRow (in_state st g) = Some (row\<lparr>pa_State := st\<rparr>)"
proof -
  obtain ordinal where o: "(ordinal, row) \<in> set (gn_ports g)" "\<And>x. x \<in> set (gn_ports g) \<Longrightarrow> ordinal \<le> fst x" using primaryRow_least [OF assms] by blast
  have "(ordinal, row\<lparr>pa_State := st\<rparr>) \<in> set (gn_ports (in_state st g))" using o(1) by (force simp: in_state_def)
  moreover have "ordinal \<le> fst x" if "x \<in> set (gn_ports (in_state st g))" for x using that o(2) by (auto simp: in_state_def)
  ultimately show ?thesis using in_state_simps(3) [OF assms(1)] by (intro primaryRow_min) blast+
qed

lemma primaryRow_reserved:
  "primaryRow (reserved requirement n gens) = Some (new_row requirement (nextGeneration gens) PortAllocationStatePreparing 0 (candidate requirement 0))"
proof (rule primaryRow_min [of _ 0])
  show "ports_ok (gn_ports (reserved requirement n gens))" unfolding reserved_def using preparing_ports_ok by simp
qed (auto simp: reserved_def new_row_def image_iff)

lemma reservation_owner:
  assumes "map_of (lg_owners l) (key_of requirement) = Some gens" "generationByState PortAllocationStatePreparing gens = None"
    "AllocatePreparing requirement n (Some l) = (Inr out, Some l')"
  shows "map_of (lg_owners l') (key_of requirement) = Some (add_gen (reserved requirement n gens) gens)" "0 < candidate requirement 0"
    "generationByState PortAllocationStatePreparing (add_gen (reserved requirement n gens) gens) = Some (reserved requirement n gens)"
proof -
  have "ownerFor (key_of requirement) l = (gens, l)" using assms(1) by (simp add: ownerFor_def)
  with assms(3) have "map_of (lg_owners l') (key_of requirement) = Some (add_gen (reserved requirement n gens) gens) \<and> 0 < candidate requirement 0"
  proof (cases rule: AllocatePreparing_cases)
    case (reserved rows)
    from reserved(3) have "0 < candidate requirement 0" by (rule allE [of _ 0]) (simp split: if_splits)
    with reserved(2) show ?thesis by (simp add: update_conv')
  qed simp
  then show "map_of (lg_owners l') (key_of requirement) = Some (add_gen (reserved requirement n gens) gens)" "0 < candidate requirement 0" by simp_all
  show "generationByState PortAllocationStatePreparing (add_gen (reserved requirement n gens) gens) = Some (reserved requirement n gens)"
  proof (rule byState_unique)
    fix h assume "h \<in> set (add_gen (reserved requirement n gens) gens)" "gn_state h = PortAllocationStatePreparing"
    then show "h = reserved requirement n gens" using assms(2) by (auto simp: generationByState_def find_None_iff)
  qed (simp_all add: reserved_def)
qed

lemma phase_rows:
  "map_of (lg_owners l) (key_of requirement) = Some gens \<Longrightarrow> g \<in> set gens \<Longrightarrow> generationInPhase (gn_state g) phase \<Longrightarrow> primaryRow g = Some row \<Longrightarrow>
    row \<in> set (RowsForPhase requirement phase (Some l))"
  using primaryRow_in [of g row] by (auto simp: RowsForPhase_def sorted_rows_def)

lemma promoted_owner:
  assumes "gens_inv gens" "generationByState PortAllocationStatePreparing gens = Some r" "primaryRow r = Some row" "activeGeneration gens = Some a"
  defines "gens' \<equiv> set_gen (in_state PortAllocationStateRetiring a) (set_gen (in_state PortAllocationStateActive r) gens)"
  shows "in_state PortAllocationStateActive r \<in> set gens'" "in_state PortAllocationStateRetiring a \<in> set gens'" "activeGeneration gens' = Some (in_state PortAllocationStateActive r)"
proof -
  note r = byState_Some [OF assms(2)] and a = activeGeneration_Some [OF assms(4)]
  have inv: "gens_inv gens'" using gens_inv_promote [OF assms(1,2)] assms(4) by (simp add: gens'_def)
  have wf: "gens_wf (set_gen (in_state PortAllocationStateActive r) gens)" using assms(1) r wf_ports by (intro set_gen_wf) auto
  have e: "set (set_gen (in_state PortAllocationStateActive r) gens) = insert (in_state PortAllocationStateActive r) (set gens - {r})"
    using assms(1) r by (intro set_gen_set) auto
  have "a \<noteq> r" using r a by auto
  then have ne: "gn_generation a \<noteq> gn_generation r" using same_number [of gens a r] assms(1) r a by blast
  have "set gens' = insert (in_state PortAllocationStateRetiring a) (insert (in_state PortAllocationStateActive r) (set gens - {r}) - {a})"
    unfolding gens'_def using set_gen_set [OF wf, of a] e a \<open>a \<noteq> r\<close> by simp
  moreover have "in_state PortAllocationStateActive r \<noteq> a" using ne by (metis in_state_simps(1))
  ultimately show m: "in_state PortAllocationStateActive r \<in> set gens'" "in_state PortAllocationStateRetiring a \<in> set gens'" by auto
  then show "activeGeneration gens' = Some (in_state PortAllocationStateActive r)" using inv by (simp add: activeGeneration_iff)
qed

section \<open>Properties\<close>

text \<open>
  C6. A deployed listener does not move. Whatever ports are resolved, reserved and released for any owner, and
  whichever other owners are cut over, an owner that is not cut over itself keeps its active port, and resolving it for a
  projection returns that port.
\<close>
theorem active_port_stable:
  assumes "rows_ok rows" "(port_step UNIV)\<^sup>*\<^sup>* (NewProxyPathPortLedger rows) l" "LookupActive key (Some l) = Some p"
    "(port_step M)\<^sup>*\<^sup>* l l'" "key \<notin> M"
  shows "LookupActive key (Some l') = Some p \<and> (key_of requirement = key \<longrightarrow> fst (resolve requirement (Some l')) = p)"
proof -
  have inv: "port_inv l" using pl.reached_inv [OF _ assms(2)] assms(1) by blast
  note p = port_steps_keep [OF assms(4) inv assms(3,5)]
  have "port_inv l'" using assms(4) inv by (rule pl.steps_inv)
  moreover obtain port l'' where r: "resolve requirement (Some l') = (port, Some l'')"
    by (cases "resolve requirement (Some l')") (auto simp: resolve_def Let_def split: option.splits prod.splits if_splits)
  ultimately show ?thesis using p resolve_keeps(2) [OF _ p r] by simp
qed

text \<open>
  C40. A migration moves an owner without an interruption. When ports are reserved for an owner that has no other
  reservation, its listeners stay on the old port and consumers that switch dial the first new one; the promotion then
  succeeds, makes that the active port, and the rows deployed while the old generation retires still contain both.
\<close>
theorem cutover_moves_owner:
  assumes "rows_ok rows" "(port_step UNIV)\<^sup>*\<^sup>* (NewProxyPathPortLedger rows) l" "LookupActive (key_of requirement) (Some l) = Some p"
    "map_of (lg_owners l) (key_of requirement) = Some gens" "generationByState PortAllocationStatePreparing gens = None"
    "AllocatePreparing requirement n (Some l) = (Inr out, Some l1)"
  shows "LookupActive (key_of requirement) (Some l1) = Some p \<and>
    fst (ResolveForPhase requirement PortMigrationPhaseSwitch (Some l1)) = candidate requirement 0 \<and>
    (\<exists>out' l2. PromotePreparing (key_of requirement) (Some l1) = (Inr out', Some l2) \<and>
       LookupActive (key_of requirement) (Some l2) = Some (candidate requirement 0) \<and>
       {p, candidate requirement 0} \<subseteq> pa_Port ` set (RowsForPhase requirement PortMigrationPhaseRetire (Some l2)))"
proof -
  let ?k = "key_of requirement" and ?r = "reserved requirement n gens"
  have inv: "port_inv l" using pl.reached_inv [OF _ assms(2)] assms(1) by blast
  note gi = port_inv_lookup [OF inv assms(4)]
  note Gi = reserved_inv [OF gi, of requirement n]
  note G = reservation_owner(1) [OF assms(4-6)] and pos = reservation_owner(2) [OF assms(4-6)] and prep = reservation_owner(3) [OF assms(4-6)]
  have keep: "LookupActive ?k (Some l1) = Some p" using AllocatePreparing_keeps [OF inv, of requirement n l1 ?k] assms(3,6) by simp
  then obtain a row where a: "activeGeneration (add_gen ?r gens) = Some a" "primaryRow a = Some row" "pa_Port row = p"
    using G by (auto simp: LookupActive_port active_port_def split: option.splits if_splits)
  define new where "new = new_row requirement (nextGeneration gens) PortAllocationStatePreparing 0 (candidate requirement 0)"
  have r: "primaryRow ?r = Some new" by (simp add: primaryRow_reserved new_def)
  have port: "pa_Port new = candidate requirement 0" by (simp add: new_def new_row_def)
  have ports: "pa_Port (new\<lparr>pa_State := PortAllocationStateActive\<rparr>) = candidate requirement 0" "pa_Port (row\<lparr>pa_State := PortAllocationStateRetiring\<rparr>) = p"
    using port a(3) by simp_all
  define gens' where "gens' = set_gen (in_state PortAllocationStateRetiring a) (set_gen (in_state PortAllocationStateActive ?r) (add_gen ?r gens))"
  note P = promoted_owner [OF Gi prep r a(1), folded gens'_def]
  obtain out' l2 where pr: "PromotePreparing ?k (Some l1) = (Inr out', Some l2)" and o2: "map_of (lg_owners l2) ?k = Some gens'"
    using G prep a(1) by (simp add: PromotePreparing_def Let_def gens'_def update_conv')
  have ok: "ports_ok (gn_ports ?r)" "ports_ok (gn_ports a)" using Gi wf_ports [of "add_gen ?r gens"] activeGeneration_Some [OF a(1)] by auto
  note rows = primaryRow_in_state [OF ok(1) r, of PortAllocationStateActive] primaryRow_in_state [OF ok(2) a(2), of PortAllocationStateRetiring]
  have "LookupActive ?k (Some l2) = Some (candidate requirement 0)" using o2 P(3) rows(1) pos port by (simp add: LookupActive_port active_port_def)
  moreover have "new\<lparr>pa_State := PortAllocationStateActive\<rparr> \<in> set (RowsForPhase requirement PortMigrationPhaseRetire (Some l2))"
    by (rule phase_rows [OF o2 P(1) _ rows(1)]) (simp add: generationInPhase_def)
  from imageI [OF this, of pa_Port] have "candidate requirement 0 \<in> pa_Port ` set (RowsForPhase requirement PortMigrationPhaseRetire (Some l2))"
    by (simp only: ports)
  moreover have "row\<lparr>pa_State := PortAllocationStateRetiring\<rparr> \<in> set (RowsForPhase requirement PortMigrationPhaseRetire (Some l2))"
    by (rule phase_rows [OF o2 P(2) _ rows(2)]) (simp add: generationInPhase_def)
  from imageI [OF this, of pa_Port] have "p \<in> pa_Port ` set (RowsForPhase requirement PortMigrationPhaseRetire (Some l2))"
    by (simp only: ports)
  moreover have "fst (ResolveForPhase requirement PortMigrationPhaseSwitch (Some l1)) = candidate requirement 0"
    using G prep r port by (simp add: ResolveForPhase_def)
  ultimately show ?thesis using keep pr by simp
qed

section \<open>An example\<close>

definition demo_alloc :: ProxyPathPortAllocation where
  "demo_alloc = \<lparr>pa_ID = 7, pa_Kind = ''chain_service'', pa_ScopeKey = ''m'', pa_ServerID = 1, pa_Pool = ''internal'', pa_ListenIP = [], pa_Network = ''tcp'',
     pa_Generation = 0, pa_Ordinal = 0, pa_Port = 4000, pa_State = [], pa_PolicyRevision = 0\<rparr>"

definition demo_requirement :: PortRequirement where
  "demo_requirement = \<lparr>rq_Kind = ''chain_service'', rq_ScopeKey = ''m'', rq_ServerID = 1, rq_Pool = ''public'', rq_ListenIP = [], rq_Network = ''tcp'',
     rq_PolicyRevision = 1, rq_Allocate = Some (\<lambda>n. 5000 + int n), rq_AllocateOrdinal = None\<rparr>"

definition demo_ledger :: ProxyPathPortLedger where
  "demo_ledger = NewProxyPathPortLedger [demo_alloc]"

lemma demo_rows_ok: "rows_ok [demo_alloc]"
  by (simp add: rows_ok_def)

lemma demo_active: "LookupActive (key_of demo_requirement) (Some demo_ledger) = Some 4000"
  by code_simp

definition demo_after :: ProxyPathPortLedger where
  "demo_after = the (snd (AllocatePreparing demo_requirement 2 (Some demo_ledger)))"

lemma demo_allocates: "snd (AllocatePreparing demo_requirement 2 (Some demo_ledger)) = Some demo_after"
  by code_simp

theorem active_port_stable_witness:
  "LookupActive (key_of demo_requirement) (Some demo_after) = Some 4000 \<and> fst (resolve demo_requirement (Some demo_after)) = 4000"
  using active_port_stable [OF demo_rows_ok rtranclp.rtrancl_refl demo_active [unfolded demo_ledger_def], of "{}" demo_after demo_requirement]
    r_into_rtranclp [of "port_step {}", OF allocate [OF demo_allocates]] by (simp add: demo_ledger_def)

theorem cutover_moves_owner_witness:
  "fst (ResolveForPhase demo_requirement PortMigrationPhaseSwitch (Some demo_after)) = 5000 \<and>
     (\<exists>out' l2. PromotePreparing (key_of demo_requirement) (Some demo_after) = (Inr out', Some l2) \<and> LookupActive (key_of demo_requirement) (Some l2) = Some 5000)"
proof -
  define gens where "gens = the (map_of (lg_owners demo_ledger) (key_of demo_requirement))"
  have g: "map_of (lg_owners demo_ledger) (key_of demo_requirement) = Some gens" unfolding gens_def by code_simp
  have n: "generationByState PortAllocationStatePreparing gens = None" unfolding gens_def by code_simp
  have "isl (fst (AllocatePreparing demo_requirement 2 (Some demo_ledger))) = False" by code_simp
  then obtain out where "fst (AllocatePreparing demo_requirement 2 (Some demo_ledger)) = Inr out" by (cases "fst (AllocatePreparing demo_requirement 2 (Some demo_ledger))") auto
  with demo_allocates have al: "AllocatePreparing demo_requirement 2 (Some demo_ledger) = (Inr out, Some demo_after)" by (simp add: prod_eq_iff)
  have c: "candidate demo_requirement 0 = 5000" by code_simp
  have "(port_step UNIV)\<^sup>*\<^sup>* (NewProxyPathPortLedger [demo_alloc]) demo_ledger" by (simp add: demo_ledger_def)
  from cutover_moves_owner [OF demo_rows_ok this demo_active g n al] c show ?thesis by auto
qed

end
