(* ===== verification/Spec2Isabelle.thy ===== *)
theory Spec2Isabelle
  imports Mcp_Auth Access_Projection Access_Sync Coalesced_Queue Rate_Limit Runtime_User_Ledger Config_Sync
    Audit_Activity Coalesce_Cache Topology Plugin_Grant OAuth_Tokens Port_Ledger
begin

text \<open>
  OBoard is a control panel for multi-node proxy networks. A controller keeps the desired state of users, plans, nodes
  and policies in a database, computes from it who may use which node, delivers that to the agents on the servers, and
  offers its operations to people, plugins and, over OAuth and MCP, to automation. This development models the parts in
  which a mistake would grant access that was taken away, lose a committed change or break a deployed listener.
  Paths are relative to \<open>src/internal\<close>.

  \<^bold>\<open>Conventions\<close> (\<open>Oboard_Prelude\<close>, \<open>Model_Types\<close>). Strings are byte lists, times and durations numbers of nanoseconds,
  pointers options, and maps partial functions or, where the code ranges over them, association lists whose order is the
  enumeration order. A table of the database is an association list from its key, a transaction a function on the
  tables that returns them unchanged when it fails. Clock readings, random values, hash functions, JSON codecs and
  enumeration orders are arguments, so a theorem holds for all of them. A mutex makes its critical section one step.
  The locale \<open>inv_system\<close> carries an invariant along a step relation; the queue, the authentication guard, the users
  ledger, the configuration sync, the coalescing cache, the OAuth tables and the port ledger interpret it.

  \<^bold>\<open>Who may do what.\<close>
  \<^item> \<open>Rbac\<close>: the permission registry and the approval resolver of \<open>authorization\<close>. Its locales are the interfaces of
    the MCP evaluator.
  \<^item> \<open>Mcp_Auth\<close>: \<open>mcpauth\<close>, that is access levels, resource boundaries, the evaluator \<open>Authorize\<close> and the wire errors. A
    call is allowed exactly under the listed conditions, less authority never allows more, normalising a boundary changes
    nothing, and an error carries its decision.
  \<^item> \<open>OAuth_Store\<close>: the transactions of \<open>store/oauth.go\<close> and \<open>store/oauth_authorization.go\<close> with the keys, cascades and the
    unique index of the schema. \<open>oauth_step\<close> is every interleaving of them. A refresh token rotates at most once, reuse
    after the replay grace revokes the refresh tokens of its family and the access tokens of its grant that exist at that moment, and an authorization leaves one live grant.
  \<^item> \<open>OAuth_Tokens\<close>: the token endpoint of \<open>controller/oauth.go\<close> and the authentication of \<open>controller/mcp_auth.go\<close>, with
    other requests committing between any two statements. A revoked grant stays dead, issued tokens work, a replayed
    refresh returns the winning answer. The lemma \<open>inflight_rotation_escapes_revocation\<close> shows a race in which tokens are
    added to a family after its revocation.
  \<^item> \<open>Plugin_Grant\<close>: \<open>plugin/capabilities.go\<close> and \<open>plugin/grant.go\<close>. A validated grant is within the declaration, and an
    update that needs no review grants no more, provided the server requirement is kept.
  \<^item> This theory composes the parts: \<open>mcp_call_mediated\<close> follows a call from its bearer token to the decision.

  \<^bold>\<open>Who may use which node.\<close>
  \<^item> \<open>Access_Snapshot\<close> and \<open>Access_Projection\<close>: \<open>core/access_snapshot.go\<close> and parts of \<open>core/assignable_nodes.go\<close>. The
    snapshot gives every node by its priorities whatever the order of the maps; deploying the union of two projections
    takes no user off a node and going on to the new one puts none on; the classification of a change is exact.
  \<^item> \<open>Authorization_Ledger\<close> and \<open>Runtime_User_Ledger\<close>: \<open>store/authorization_states.go\<close> and \<open>store/runtime_user_states.go\<close>. A
    revoked credential stays denied until the second in which the last lease that admits it ends, confirmations move
    forward, and a revision names one package.
  \<^item> \<open>Access_Sync\<close>: the candidates, hints and plans of a delivery round. Every server of the stale query is planned.

  \<^bold>\<open>Delivering changes.\<close>
  \<^item> \<open>Config_Sync\<close>: \<open>store/configuration_sync.go\<close>, \<open>configuration_sync_intents.go\<close> and \<open>delivery_flags.go\<close>. A
    server that a committed change owes a revision wants it, or an intent still stands for it; finitely many drains empty
    the intents.
  \<^item> \<open>Coalesced_Queue\<close>, \<open>Coalesce_Cache\<close> and \<open>Rate_Limit\<close>: the scheduler, the build cache and the request budgets of
    \<open>controller\<close>. A tracked key is pending once and runs again after a trailing request. A cache with a budget
    stays within it, never publishes a build that was invalidated by a removal or by clearing the cache, and serves the last value after
    a failed refresh. A cache without a budget gives the guarantee for clearing only; the lemma \<open>removed_build_still_published\<close>
    shows that removing a key leaves its running build in use. A ban holds until it
    ends or the address succeeds, as long as fewer than 8192 addresses are banned or failing.
  \<^item> \<open>Topology\<close>: \<open>core/topology.go\<close>. The check accepts exactly the connections between known servers without
    a cycle.
  \<^item> \<open>Port_Ledger\<close>: the port ledger of \<open>core/proxy_paths.go\<close>. A deployed listener keeps its port until it is cut over, and
    a cut over moves it without an interruption.

  \<^bold>\<open>Judging accounts.\<close> \<open>Audit_Risk\<close> and \<open>Audit_Activity\<close>: \<open>auditrisk\<close>. Scores are percentages, narrower evidence gives
  narrower scores, the count of a minute is the exact one over the rows within the capacity of the policy and the
  overflow flags are exact, and an adapted policy is valid.

  \<^bold>\<open>Bounds and fuel.\<close> The search of \<open>Topology\<close> runs on fuel that bounds its depth; one more than the number of servers
  is shown to be enough. Loops over lists recurse on them. \<open>Audit_Activity\<close> keeps the
  width of its counters; other integers are unbounded, so overflow of 64-bit identifiers and revisions is not modelled.

  \<^bold>\<open>Not modelled.\<close> Failures of the database driver, JSON codecs, HTTP, log and audit entries. Of the OAuth endpoints: registration, metadata and the consent page. Of \<open>core\<close>: the projection of
  paths onto listeners and the generation of configurations for proxy programs, which are not in the repository. Of
  \<open>store\<close>: the other tables, the listing queries and the migrations. The packages \<open>agentlink\<close>, \<open>application\<close>, \<open>automation\<close>,
  \<open>capability\<close>, \<open>auditactivity\<close>, \<open>auditcontract\<close>, \<open>auditintel\<close>, \<open>auditreview\<close>, \<open>security\<close> and \<open>subrelay\<close> contain pure
  decisions that could be modelled in the same way and have not been. The clients of external services, the plugin runtime and
  sandbox, backups, updates, logging, the programs under \<open>cmd\<close>, scripts and the web interface are mostly input and output.
\<close>

section \<open>From the bearer token to the decision\<close>

text \<open>
  C2. An MCP call runs only on live authority. When a request is authenticated and the evaluator allows its call, the
  bearer token is a stored access token that is neither revoked nor expired and was issued for exactly this
  controller's MCP resource; its grant is active, unrevoked and unexpired, the client of the grant enabled and its user active;
  the current effective role of that user, with the groups that are read right after the grant, has the permission and an access level that covers the capability; and the
  references of the call lie in the boundary of that role. Nothing of this is taken from the consent given in the past.
\<close>
theorem mcp_call_mediated:
  assumes "mcpAuth env a t1 t2 t3 db1 db2 dbg db3 db4 = Authenticated p"
    and "ad_Allowed (Authorize (Allows (me_rbac env)) GrantApprovalResolver_Resolve now now' p spec input)"
  shows "\<exists>tok base t g c u refs. bearerToken a = Some tok \<and> me_base env = Some base \<and>
     map_of (od_access db1) (me_hash env tok) = Some t \<and> ot_RevokedAt t = None \<and> t1 < ot_ExpiresAt t \<and>
     ot_Resource t = trim_slashes base @ ''/api/v1/mcp'' \<and>
     map_of (od_grants db2) (ot_GrantID t) = Some g \<and> og_RevokedAt g = None \<and> og_Status g = OAuthGrantActive \<and>
     (case og_ExpiresAt g of None \<Rightarrow> True | Some e \<Rightarrow> t2 < e) \<and>
     map_of (od_clients db2) (og_ClientID g) = Some c \<and> cli_Enabled c \<and> map_of (od_users db2) (og_UserID g) = Some (u, ''active'') \<and>
     Allows (me_rbac env) (EffectiveUserRole (og_UserID g) u dbg) (cs_RBACPermission spec) \<and>
     AccessLevel_Allows (mcpAccessLevelForRole (EffectiveUserRole (og_UserID g) u dbg)) (cs_MinimumAccess spec) \<and>
     resolve_refs spec input = Inr refs \<and>
     Mcp_Auth.within (oauthRoleBoundary (me_rbac env) (me_listMCP env) (EffectiveUserRole (og_UserID g) u dbg)) refs"
  using assms(1)
proof (rule mcpAuthE)
  fix tok base t role0 g profile role
  assume tok: "bearerToken a = Some tok" "me_base env = Some base"
    and t: "AuthenticateMCPAccessToken (me_hash env tok) (trim_slashes base @ ''/api/v1/mcp'') t1 db1 = Inr (t, role0, ''active'')"
    and g: "ResolveActiveGrant (ot_GrantID t) t2 db2 dbg = Inr (g, profile, role)"
    and p: "p = \<lparr>pr_Grant = grant_policy env g profile role, pr_Role = role, pr_UserID = og_UserID g, pr_ClientID = og_ClientID g,
       pr_PrivilegedGrant = privileged_policy env (og_ID g) t3 db4\<rparr>"
  from mcp.allowed_iff [THEN iffD1, OF assms(2)] obtain refs where
    "AccessLevel_Allows (mcpAccessLevelForRole role) (cs_MinimumAccess spec)" "Allows (me_rbac env) role (cs_RBACPermission spec)"
    "resolve_refs spec input = Inr refs" "Mcp_Auth.within (oauthRoleBoundary (me_rbac env) (me_listMCP env) role) refs"
    by (auto simp: p grant_policy_def)
  with tok t g show ?thesis by (elim ResolveActiveGrantE AuthenticateMCPAccessTokenE) blast
qed

definition demo_mcp_env :: mcp_env where
  "demo_mcp_env = demo_env\<lparr>me_rbac := ex_registry\<rparr>"

definition demo_mcp_db :: oauth_db where
  "demo_mcp_db = fst (snd demo_issue)"

definition demo_principal :: GrantPrincipal where
  "demo_principal = \<lparr>pr_Grant = grant_policy demo_mcp_env demo_stored_grant \<lparr>opf_ID = ''f1'', opf_AutoApproveRisk = 3\<rparr> RoleViewer, pr_Role = RoleViewer,
     pr_UserID = 1, pr_ClientID = ''app'', pr_PrivilegedGrant = None\<rparr>"

theorem mcp_call_mediated_witness:
  "\<exists>t. map_of (od_access demo_mcp_db) ''oba_a5'' = Some t \<and> ot_RevokedAt t = None \<and> 5 < ot_ExpiresAt t"
proof -
  have a: "mcpAuth demo_mcp_env ''Bearer oba_a5'' 5 5 5 demo_mcp_db demo_mcp_db demo_mcp_db demo_mcp_db demo_mcp_db = Authenticated demo_principal" by code_simp
  have d: "ad_Allowed (Authorize (Allows (me_rbac demo_mcp_env)) GrantApprovalResolver_Resolve 5 5 demo_principal ex_spec ''1'')" by code_simp
  have b: "bearerToken ''Bearer oba_a5'' = Some ''oba_a5''" by code_simp
  have h: "me_hash demo_mcp_env x = x" for x by (simp add: demo_mcp_env_def demo_env_def)
  from mcp_call_mediated [OF a d] show ?thesis unfolding b h by auto
qed

end
